(* ===== verification/Prelude.thy ===== *)
theory Prelude
  imports Main "HOL-Library.Word"
begin

text \<open>
  Shared vocabulary of the development: bytes and C strings, the outcome of a C function
  (a value, or a fault that stops the program), the machine integer conversions the sources
  rely on, and the generic lemmas on outcomes, lists and words that the component theories
  reuse.
\<close>

named_theorems outcome_simps
named_theorems word_nat_simps
named_theorems client_simps

section \<open>Outcomes\<close>

text \<open>
  A C function either returns or stops the program.  The ways of stopping that the sources can
  reach are values of \<open>fault\<close>: a failed \<^verbatim>\<open>assert\<close>, \<^verbatim>\<open>exit(EXIT_FAILURE)\<close>, and the
  undefined behaviours (an access outside an object, a null or freed or uninitialised pointer,
  a union member read at the wrong type, a control structure overwritten with data, signed overflow).  \<open>Out_Of_Fuel\<close> is the fault of a loop model whose bound
  was too small; the theorems about loops show that it does not occur.
\<close>

datatype fault =
    Assertion_Failed
  | Exit_Failure
  | Out_Of_Bounds
  | Null_Pointer
  | Use_After_Free
  | Uninitialised
  | Type_Confusion
  | Signed_Overflow
  | Object_Overwritten
  | Out_Of_Fuel

type_synonym 'a res = "fault + 'a"

definition rbind :: "'a res \<Rightarrow> ('a \<Rightarrow> 'b res) \<Rightarrow> 'b res" where
  "rbind m f = (case m of Inl e \<Rightarrow> Inl e | Inr x \<Rightarrow> f x)"

definition require :: "fault \<Rightarrow> bool \<Rightarrow> unit res" where
  "require e b = (if b then Inr () else Inl e)"

lemma rbind_Inl [simp, outcome_simps]: "rbind (Inl e) f = Inl e"
  by (simp add: rbind_def)

lemma rbind_Inr [simp, outcome_simps]: "rbind (Inr x) f = f x"
  by (simp add: rbind_def)

lemma rbind_unit [simp, outcome_simps]: "rbind m Inr = m"
  by (simp add: rbind_def split: sum.split)

lemma rbind_assoc: "rbind (rbind m f) g = rbind m (\<lambda>x. rbind (f x) g)"
  by (simp add: rbind_def split: sum.split)

lemma rbind_eq_Inr_iff [outcome_simps]:
  "rbind m f = Inr y \<longleftrightarrow> (\<exists>x. m = Inr x \<and> f x = Inr y)"
  by (auto simp: rbind_def split: sum.splits)

lemma rbind_eq_Inl_iff:
  "rbind m f = Inl e \<longleftrightarrow> m = Inl e \<or> (\<exists>x. m = Inr x \<and> f x = Inl e)"
  by (auto simp: rbind_def split: sum.splits)

lemma rbind_cong [fundef_cong]:
  "m = m' \<Longrightarrow> (\<And>x. m' = Inr x \<Longrightarrow> f x = g x) \<Longrightarrow> rbind m f = rbind m' g"
  by (auto simp: rbind_def split: sum.split)

lemma require_True [simp, outcome_simps]: "b \<Longrightarrow> require e b = Inr ()"
  by (simp add: require_def)

lemma require_False [simp, outcome_simps]: "\<not> b \<Longrightarrow> require e b = Inl e"
  by (simp add: require_def)

lemma require_eq_Inr [simp, outcome_simps]: "require e b = Inr u \<longleftrightarrow> b"
  by (simp add: require_def)

section \<open>Bytes and C strings\<close>

text \<open>
  A \<^verbatim>\<open>char\<close> of the sources is a HOL \<open>char\<close> (eight bits).  A C string is the list of its bytes
  before the terminating NUL; \<open>cstr\<close> reads one out of a byte buffer.
\<close>

type_synonym byte = char
type_synonym bytes = "char list"

abbreviation NUL :: char where "NUL \<equiv> CHR 0x00"
abbreviation CR :: char where "CR \<equiv> CHR 0x0D"
abbreviation LF :: char where "LF \<equiv> CHR 0x0A"
abbreviation crlf :: bytes where "crlf \<equiv> [CR, LF]"

definition cstr :: "bytes \<Rightarrow> string" where
  "cstr bs = takeWhile (\<lambda>c. c \<noteq> NUL) bs"

definition nul_free :: "bytes \<Rightarrow> bool" where
  "nul_free bs \<longleftrightarrow> NUL \<notin> set bs"

lemma cstr_nul_free [simp]: "nul_free bs \<Longrightarrow> cstr bs = bs"
  unfolding cstr_def nul_free_def by (induction bs) auto

lemma nul_free_cstr [simp]: "nul_free (cstr bs)"
  unfolding cstr_def nul_free_def using set_takeWhileD by fastforce

lemma cstr_append_NUL [simp]: "cstr (bs @ NUL # rest) = cstr bs"
  unfolding cstr_def by (induction bs) auto

lemma nul_free_append [simp]: "nul_free (xs @ ys) \<longleftrightarrow> nul_free xs \<and> nul_free ys"
  by (auto simp: nul_free_def)

lemma nul_free_Cons [simp]: "nul_free (x # xs) \<longleftrightarrow> x \<noteq> NUL \<and> nul_free xs"
  by (auto simp: nul_free_def)

lemma nul_free_Nil [simp]: "nul_free []"
  by (simp add: nul_free_def)

section \<open>Machine integers\<close>

text \<open>
  The sources are compiled for LP64: \<^verbatim>\<open>int\<close> has 32 bits, \<^verbatim>\<open>long\<close>, \<^verbatim>\<open>long long\<close> and
  \<^verbatim>\<open>ssize_t\<close> 64, \<^verbatim>\<open>size_t\<close> is unsigned of 64.  Where a source narrows, the model
  applies the conversion explicitly.
\<close>

type_synonym u64 = "64 word"
type_synonym u32 = "32 word"

definition int_of_long :: "int \<Rightarrow> int" where
  "int_of_long i = signed_take_bit 31 i"

definition to_long :: "int \<Rightarrow> int" where
  "to_long i = signed_take_bit 63 i"

definition LONG_MAX :: int where "LONG_MAX = 2 ^ 63 - 1"
definition LONG_MIN :: int where "LONG_MIN = - (2 ^ 63)"
definition INT_MAX :: int where "INT_MAX = 2 ^ 31 - 1"
definition INT_MIN :: int where "INT_MIN = - (2 ^ 31)"

lemmas c_limits = LONG_MAX_def LONG_MIN_def INT_MAX_def INT_MIN_def

lemma int_of_long_id: "INT_MIN \<le> i \<Longrightarrow> i \<le> INT_MAX \<Longrightarrow> int_of_long i = i"
  by (simp add: int_of_long_def c_limits signed_take_bit_int_eq_self_iff)

lemma to_long_id: "LONG_MIN \<le> i \<Longrightarrow> i \<le> LONG_MAX \<Longrightarrow> to_long i = i"
  by (simp add: to_long_def c_limits signed_take_bit_int_eq_self_iff)

lemma unat_add_no_wrap [word_nat_simps]:
  fixes a b :: u64
  shows "unat a + unat b < 2 ^ 64 \<Longrightarrow> unat (a + b) = unat a + unat b"
  by (simp add: unat_word_ariths)

lemma unat_sub_le [word_nat_simps]:
  fixes a b :: u64
  shows "b \<le> a \<Longrightarrow> unat (a - b) = unat a - unat b"
  by (rule unat_sub)

lemma unat_lt_2p64 [simp]: "unat (a :: u64) < 2 ^ 64"
  using unsigned_less [of a] by simp

lemma unat_of_nat_64 [word_nat_simps]:
  "n < 2 ^ 64 \<Longrightarrow> unat (of_nat n :: u64) = n"
  by (simp add: unat_of_nat)

section \<open>Lists\<close>

lemma map_nth_upt_add:
  "i + n \<le> length xs \<Longrightarrow> map (\<lambda>k. xs ! (i + k)) [0..<n] = take n (drop i xs)"
  by (rule nth_equalityI) auto

lemma drop_map_upt:
  "n \<le> m \<Longrightarrow> drop n (map f [0..<m]) = map (\<lambda>k. f (n + k)) [0..<m - n]"
  by (rule nth_equalityI) auto

lemma map_upt_append:
  "map f [0..<n + m] = map f [0..<n] @ map (\<lambda>k. f (n + k)) [0..<m]"
proof -
  have "map f [0..<n + m] = map f [0..<n] @ map f [n..<n + m]"
    using upt_add_eq_append [of 0 n m] by simp
  also have "map f [n..<n + m] = map (\<lambda>k. f (n + k)) [0..<m]"
    by (rule nth_equalityI) auto
  finally show ?thesis .
qed

lemma mod_add_cancel_left:
  fixes h x y n :: nat
  assumes "(h + x) mod n = (h + y) mod n"
  shows "x mod n = y mod n"
proof (cases "n = 0")
  case False
  define g where "g = n - h mod n"
  have "h mod n + g = n" using False by (simp add: g_def)
  then have "(h + g) mod n = 0" by (metis mod_add_left_eq mod_self)
  then have *: "(h + z + g) mod n = z mod n" for z
    by (metis (no_types) add.assoc add.commute add_0 mod_add_left_eq)
  from assms have "(h + x + g) mod n = (h + y + g) mod n" by (metis mod_add_left_eq)
  with * show ?thesis by simp
qed (use assms in simp)

lemma take_drop_append_split:
  "n \<le> length xs \<Longrightarrow> take n xs @ drop n xs = xs"
  by simp

end
