(* ===== verification/Khash.thy ===== *)
theory Khash
  imports Prelude
begin

text \<open>
  The open-addressing hash table of \<^verbatim>\<open>khash.h\<close>, as instantiated by \<^verbatim>\<open>KHASH_MAP_INIT_STR\<close> for the
  database: string keys, a value type that the model leaves as a parameter, two flag bits per
  bucket packed sixteen buckets to a 32-bit word, quadratic probing over a power-of-two number of
  buckets, and the in-place rehash of \<open>kh_resize\<close>.  This theory holds the definitions; bucket
  numbers and counters are naturals with the 32-bit wrap-around written out (\<open>u32\<close>).  The array
  slots that the code has allocated and not yet written are \<open>None\<close>.
\<close>

unbundle bit_operations_syntax

definition u32 :: "nat \<Rightarrow> nat" where
  "u32 n = n mod 2 ^ 32"

section \<open>Flags\<close>

definition flag_shift :: "nat \<Rightarrow> nat" where
  "flag_shift i = push_bit 1 (i AND 15)"

definition ac_isempty :: "u32 list \<Rightarrow> nat \<Rightarrow> bool" where
  "ac_isempty flag i \<longleftrightarrow> drop_bit (flag_shift i) (flag ! (drop_bit 4 i)) AND 2 \<noteq> 0"

definition ac_isdel :: "u32 list \<Rightarrow> nat \<Rightarrow> bool" where
  "ac_isdel flag i \<longleftrightarrow> drop_bit (flag_shift i) (flag ! (drop_bit 4 i)) AND 1 \<noteq> 0"

definition ac_iseither :: "u32 list \<Rightarrow> nat \<Rightarrow> bool" where
  "ac_iseither flag i \<longleftrightarrow> drop_bit (flag_shift i) (flag ! (drop_bit 4 i)) AND 3 \<noteq> 0"

definition ac_set_isdel_false :: "u32 list \<Rightarrow> nat \<Rightarrow> u32 list" where
  "ac_set_isdel_false flag i =
     flag[drop_bit 4 i := flag ! (drop_bit 4 i) AND NOT (push_bit (flag_shift i) 1)]"

definition ac_set_isempty_false :: "u32 list \<Rightarrow> nat \<Rightarrow> u32 list" where
  "ac_set_isempty_false flag i =
     flag[drop_bit 4 i := flag ! (drop_bit 4 i) AND NOT (push_bit (flag_shift i) 2)]"

definition ac_set_isboth_false :: "u32 list \<Rightarrow> nat \<Rightarrow> u32 list" where
  "ac_set_isboth_false flag i =
     flag[drop_bit 4 i := flag ! (drop_bit 4 i) AND NOT (push_bit (flag_shift i) 3)]"

definition ac_set_isdel_true :: "u32 list \<Rightarrow> nat \<Rightarrow> u32 list" where
  "ac_set_isdel_true flag i =
     flag[drop_bit 4 i := flag ! (drop_bit 4 i) OR push_bit (flag_shift i) 1]"

definition ac_fsize :: "nat \<Rightarrow> nat" where
  "ac_fsize m = (if m < 16 then 1 else drop_bit 4 m)"

definition kroundup32 :: "u32 \<Rightarrow> u32" where
  "kroundup32 x =
     (let x = x - 1;
          x = x OR drop_bit 1 x;
          x = x OR drop_bit 2 x;
          x = x OR drop_bit 4 x;
          x = x OR drop_bit 8 x;
          x = x OR drop_bit 16 x
      in x + 1)"

text \<open>
  The load bound \<^verbatim>\<open>(khint_t)(n * 0.77 + 0.5)\<close>.  The code applies it to powers of two only; there
  the exact value is never within the rounding error of an integer, so that the truncated double
  is the integer quotient below.
\<close>

definition hash_upper :: "nat \<Rightarrow> nat" where
  "hash_upper n = (77 * n + 50) div 100"

section \<open>Table\<close>

record 'v khash =
  n_buckets :: nat
  ksize :: nat
  n_occupied :: nat
  upper_bound :: nat
  flags :: "u32 list"
  keys :: "string option list"
  vals :: "'v option list"

definition kh_init :: "'v khash" where
  "kh_init = \<lparr>n_buckets = 0, ksize = 0, n_occupied = 0, upper_bound = 0,
     flags = [], keys = [], vals = []\<rparr>"

definition kh_clear :: "'v khash \<Rightarrow> 'v khash" where
  "kh_clear h =
     (if flags h \<noteq> [] then
        h\<lparr>flags := replicate (ac_fsize (n_buckets h)) 0xaaaaaaaa, ksize := 0, n_occupied := 0\<rparr>
      else h)"

text \<open>The blocks of memory of a table, in the order in which its destruction frees them.\<close>

datatype kh_block = Keys_Array | Flags_Array | Vals_Array | Table_Struct

definition kh_destroy :: "'v khash option \<Rightarrow> kh_block list" where
  "kh_destroy h = (case h of None \<Rightarrow> [] | Some _ \<Rightarrow> [Keys_Array, Flags_Array, Vals_Array, Table_Struct])"

text \<open>The X31 string hash; a \<^verbatim>\<open>char\<close> is signed, so it is widened with its sign.\<close>

definition char_word :: "char \<Rightarrow> u32" where
  "char_word c = word_of_int (signed_take_bit 7 (of_char c))"

definition X31_hash_string :: "string \<Rightarrow> nat" where
  "X31_hash_string s =
     (case s of
        [] \<Rightarrow> 0
      | c # cs \<Rightarrow> unat (foldl (\<lambda>h c. push_bit 5 h - h + char_word c) (char_word c) cs))"

fun kh_get_loop :: "nat \<Rightarrow> 'v khash \<Rightarrow> string \<Rightarrow> nat \<Rightarrow> nat \<Rightarrow> nat \<Rightarrow> nat \<Rightarrow> nat res" where
  "kh_get_loop 0 h key msk lst i step = Inl Out_Of_Fuel"
| "kh_get_loop (Suc fuel) h key msk lst i step =
     (if \<not> ac_isempty (flags h) i \<and> (ac_isdel (flags h) i \<or> keys h ! i \<noteq> Some key) then
        let step = step + 1; i = u32 (i + step) AND msk in
        if i = lst then Inr (n_buckets h) else kh_get_loop fuel h key msk lst i step
      else Inr (if ac_iseither (flags h) i then n_buckets h else i))"

definition kh_get :: "'v khash \<Rightarrow> string \<Rightarrow> nat res" where
  "kh_get h key =
     (if n_buckets h \<noteq> 0 then
        let msk = n_buckets h - 1; k = X31_hash_string key; i = k AND msk in
        kh_get_loop (2 * n_buckets h) h key msk i i 0
      else Inr 0)"

text \<open>Rehashing works on the two shared arrays, the old flags and the new flags.\<close>

record 'v rehash =
  rkeys :: "string option list"
  rvals :: "'v option list"
  old_flags :: "u32 list"
  new_flags :: "u32 list"

fun find_slot :: "nat \<Rightarrow> u32 list \<Rightarrow> nat \<Rightarrow> nat \<Rightarrow> nat \<Rightarrow> nat res" where
  "find_slot 0 fl msk i step = Inl Out_Of_Fuel"
| "find_slot (Suc fuel) fl msk i step =
     (if \<not> ac_isempty fl i then find_slot fuel fl msk (u32 (i + (step + 1)) AND msk) (step + 1)
      else Inr i)"

fun kick_out ::
  "nat \<Rightarrow> nat \<Rightarrow> nat \<Rightarrow> 'v rehash \<Rightarrow> string option \<Rightarrow> 'v option \<Rightarrow> 'v rehash res" where
  "kick_out 0 n new_n r key val = Inl Out_Of_Fuel"
| "kick_out (Suc fuel) n new_n r key val =
     (let new_msk = new_n - 1;
          k = X31_hash_string (case key of Some s \<Rightarrow> s | None \<Rightarrow> [])
      in rbind (find_slot (2 * new_n) (new_flags r) new_msk (k AND new_msk) 0) (\<lambda>i.
        let r = r\<lparr>new_flags := ac_set_isempty_false (new_flags r) i\<rparr> in
        if i < n \<and> \<not> ac_iseither (old_flags r) i then
          kick_out fuel n new_n
            (r\<lparr>rkeys := (rkeys r)[i := key], rvals := (rvals r)[i := val],
               old_flags := ac_set_isdel_true (old_flags r) i\<rparr>)
            (rkeys r ! i) (rvals r ! i)
        else Inr (r\<lparr>rkeys := (rkeys r)[i := key], rvals := (rvals r)[i := val]\<rparr>)))"

fun rehash_from :: "nat \<Rightarrow> nat \<Rightarrow> nat \<Rightarrow> nat \<Rightarrow> 'v rehash \<Rightarrow> 'v rehash res" where
  \<comment> \<open>The loop over \<open>j\<close>, with the number of buckets still to visit as its first argument.\<close>
  "rehash_from 0 j n new_n r = Inr r"
| "rehash_from (Suc todo) j n new_n r =
     (if \<not> ac_iseither (old_flags r) j then
        rbind (kick_out (n + 1) n new_n (r\<lparr>old_flags := ac_set_isdel_true (old_flags r) j\<rparr>)
                 (rkeys r ! j) (rvals r ! j))
          (rehash_from todo (Suc j) n new_n)
      else rehash_from todo (Suc j) n new_n r)"

text \<open>A reallocation to \<open>n\<close> elements keeps the common prefix.\<close>

definition realloc_array :: "nat \<Rightarrow> 'a option list \<Rightarrow> 'a option list" where
  "realloc_array n xs = take n xs @ replicate (n - length xs) None"

text \<open>
  \<open>ok_flags\<close>, \<open>ok_keys\<close> and \<open>ok_vals\<close> are the outcomes of the three allocations; the result is the
  return code (0 or -1) and the table.
\<close>

definition kh_resize ::
  "bool \<Rightarrow> bool \<Rightarrow> bool \<Rightarrow> 'v khash \<Rightarrow> nat \<Rightarrow> (int \<times> 'v khash) res" where
  "kh_resize ok_flags ok_keys ok_vals h new_n_buckets =
     (let new_n = unat (kroundup32 (of_nat new_n_buckets));
          new_n = (if new_n < 4 then 4 else new_n)
      in
      if ksize h \<ge> hash_upper new_n then Inr (0, h)
      else if \<not> ok_flags then Inr (-1, h)
      else
        let new_flags = replicate (ac_fsize new_n) 0xaaaaaaaa;
            expand = n_buckets h < new_n
        in
        if expand \<and> \<not> ok_keys then Inr (-1, h)
        else
          let h = (if expand then h\<lparr>keys := realloc_array new_n (keys h)\<rparr> else h) in
          if expand \<and> \<not> ok_vals then Inr (-1, h)
          else
            let h = (if expand then h\<lparr>vals := realloc_array new_n (vals h)\<rparr> else h) in
            rbind (rehash_from (n_buckets h) 0 (n_buckets h) new_n
                     \<lparr>rkeys = keys h, rvals = vals h, old_flags = flags h, new_flags = new_flags\<rparr>)
              (\<lambda>r.
                let shrink = n_buckets h > new_n in
                Inr (0, h\<lparr>keys := (if shrink then realloc_array new_n (rkeys r) else rkeys r),
                          vals := (if shrink then realloc_array new_n (rvals r) else rvals r),
                          flags := Khash.rehash.new_flags r,
                          n_buckets := new_n,
                          n_occupied := ksize h,
                          upper_bound := hash_upper new_n\<rparr>)))"

text \<open>The probing loop of \<open>kh_put\<close> returns \<open>x\<close>, \<open>site\<close> and \<open>i\<close> as they are when it ends.\<close>

fun kh_put_loop ::
  "nat \<Rightarrow> 'v khash \<Rightarrow> string \<Rightarrow> nat \<Rightarrow> nat \<Rightarrow> nat \<Rightarrow> nat \<Rightarrow> nat \<Rightarrow> (nat \<times> nat \<times> nat) res" where
  "kh_put_loop 0 h key msk lst site i step = Inl Out_Of_Fuel"
| "kh_put_loop (Suc fuel) h key msk lst site i step =
     (if \<not> ac_isempty (flags h) i \<and> (ac_isdel (flags h) i \<or> keys h ! i \<noteq> Some key) then
        let site = (if ac_isdel (flags h) i then i else site);
            step = step + 1; i = u32 (i + step) AND msk
        in if i = lst then Inr (site, site, i) else kh_put_loop fuel h key msk lst site i step
      else Inr (n_buckets h, site, i))"

definition kh_put_slot :: "'v khash \<Rightarrow> string \<Rightarrow> nat res" where
  "kh_put_slot h key =
     (let msk = n_buckets h - 1; x = n_buckets h; site = n_buckets h;
          k = X31_hash_string key; i = k AND msk
      in if ac_isempty (flags h) i then Inr i
         else rbind (kh_put_loop (2 * n_buckets h) h key msk i site i 0) (\<lambda>(x, site, i).
           Inr (if x = n_buckets h then
                  (if ac_isempty (flags h) i \<and> site \<noteq> n_buckets h then site else i)
                else x)))"

definition kh_put ::
  "bool \<Rightarrow> bool \<Rightarrow> bool \<Rightarrow> 'v khash \<Rightarrow> string \<Rightarrow> (nat \<times> int \<times> 'v khash) res" where
  "kh_put ok_flags ok_keys ok_vals h key =
     rbind
       (if n_occupied h \<ge> upper_bound h then
          (if n_buckets h > u32 (push_bit 1 (ksize h)) then
             kh_resize ok_flags ok_keys ok_vals h (n_buckets h - 1)
           else kh_resize ok_flags ok_keys ok_vals h (n_buckets h + 1))
        else Inr (0, h)) (\<lambda>(rc, h).
     if rc < 0 then Inr (n_buckets h, -1, h)
     else
       rbind (kh_put_slot h key) (\<lambda>x.
         if ac_isempty (flags h) x then
           Inr (x, 1, h\<lparr>keys := (keys h)[x := Some key], flags := ac_set_isboth_false (flags h) x,
                        ksize := u32 (ksize h + 1), n_occupied := u32 (n_occupied h + 1)\<rparr>)
         else if ac_isdel (flags h) x then
           Inr (x, 2, h\<lparr>keys := (keys h)[x := Some key], flags := ac_set_isboth_false (flags h) x,
                        ksize := u32 (ksize h + 1)\<rparr>)
         else Inr (x, 0, h)))"

definition kh_del :: "'v khash \<Rightarrow> nat \<Rightarrow> 'v khash" where
  "kh_del h x =
     (if x \<noteq> n_buckets h \<and> \<not> ac_iseither (flags h) x then
        h\<lparr>flags := ac_set_isdel_true (flags h) x, ksize := u32 (ksize h + 2 ^ 32 - 1)\<rparr>
      else h)"

definition kh_exist :: "'v khash \<Rightarrow> nat \<Rightarrow> bool" where
  "kh_exist h x \<longleftrightarrow> \<not> ac_iseither (flags h) x"

definition kh_set_key :: "'v khash \<Rightarrow> nat \<Rightarrow> string \<Rightarrow> 'v khash" where
  "kh_set_key h x key = h\<lparr>keys := (keys h)[x := Some key]\<rparr>"

definition kh_set_value :: "'v khash \<Rightarrow> nat \<Rightarrow> 'v \<Rightarrow> 'v khash" where
  "kh_set_value h x v = h\<lparr>vals := (vals h)[x := Some v]\<rparr>"

text \<open>The existing buckets in iteration order, from \<^verbatim>\<open>kh_begin\<close> to \<^verbatim>\<open>kh_end\<close>.\<close>

definition kh_slots :: "'v khash \<Rightarrow> nat list" where
  "kh_slots h = filter (kh_exist h) [0..<n_buckets h]"

end
