(* ===== verification/Khash_Probe.thy ===== *)
theory Khash_Probe
  imports Khash
begin

text \<open>
  The two facts about bits and numbers on which the hash table rests: the packed flags behave like
  two independent booleans per bucket, and the quadratic probing sequence visits every bucket of a
  power-of-two table exactly once before it repeats.
\<close>

section \<open>Packed flags\<close>

lemma flag_shift_eq: "flag_shift i = 2 * (i mod 16)"
proof -
  have "i AND 15 = take_bit 4 i" by (simp add: take_bit_eq_mask mask_numeral)
  then show ?thesis by (simp add: flag_shift_def take_bit_eq_mod push_bit_eq_mult)
qed

lemma and_2_iff: "(w :: u32) AND 2 \<noteq> 0 \<longleftrightarrow> bit w 1"
  using and_exp_eq_0_iff_not_bit [of w 1] by simp

lemma and_1_iff: "(w :: u32) AND 1 \<noteq> 0 \<longleftrightarrow> bit w 0"
  using and_exp_eq_0_iff_not_bit [of w 0] by simp

lemma and_3_iff: "(w :: u32) AND 3 \<noteq> 0 \<longleftrightarrow> bit w 0 \<or> bit w 1"
proof -
  have "(3 :: u32) = 1 OR 2" by simp
  then have "w AND 3 = (w AND 1) OR (w AND 2)" by (simp only: bit.conj_disj_distrib)
  then show ?thesis by (metis and_1_iff and_2_iff or_eq_0_iff)
qed

lemma word_index: "drop_bit 4 (i :: nat) = i div 16"
  by (simp add: drop_bit_eq_div)

lemma ac_isempty_bit: "ac_isempty fl i \<longleftrightarrow> bit (fl ! (i div 16)) (2 * (i mod 16) + 1)"
  by (simp add: ac_isempty_def and_2_iff flag_shift_eq bit_drop_bit_eq word_index)

lemma ac_isdel_bit: "ac_isdel fl i \<longleftrightarrow> bit (fl ! (i div 16)) (2 * (i mod 16))"
  by (simp add: ac_isdel_def and_1_iff flag_shift_eq bit_drop_bit_eq word_index)

lemma ac_iseither_eq: "ac_iseither fl i \<longleftrightarrow> ac_isempty fl i \<or> ac_isdel fl i"
  by (auto simp: ac_iseither_def and_3_iff ac_isempty_def and_2_iff ac_isdel_def and_1_iff)

lemmas flag_bits = ac_isempty_bit ac_isdel_bit

lemma bucket_split: "(i :: nat) = j \<longleftrightarrow> i div 16 = j div 16 \<and> i mod 16 = j mod 16"
  by (metis mult_div_mod_eq)

lemma length_ac_set [simp]:
  "length (ac_set_isdel_false fl i) = length fl"
  "length (ac_set_isempty_false fl i) = length fl"
  "length (ac_set_isboth_false fl i) = length fl"
  "length (ac_set_isdel_true fl i) = length fl"
  by (simp_all add: ac_set_isdel_false_def ac_set_isempty_false_def ac_set_isboth_false_def
      ac_set_isdel_true_def)

lemma bit_push_small:
  "bit (push_bit n (1 :: u32)) k \<longleftrightarrow> k = n \<and> n < 32"
  "bit (push_bit n (2 :: u32)) k \<longleftrightarrow> k = n + 1 \<and> n + 1 < 32"
  "bit (push_bit n (3 :: u32)) k \<longleftrightarrow> (k = n \<or> k = n + 1) \<and> k < 32"
proof -
  have one: "bit (push_bit m (1 :: u32)) k \<longleftrightarrow> k = m \<and> m < 32" for m
    by (auto simp: bit_push_bit_iff bit_1_iff simp del: push_bit_of_1)
  then show "bit (push_bit n (1 :: u32)) k \<longleftrightarrow> k = n \<and> n < 32" .
  have "push_bit n (2 :: u32) = push_bit (n + 1) 1"
    by (simp add: push_bit_eq_mult)
  then show two: "bit (push_bit n (2 :: u32)) k \<longleftrightarrow> k = n + 1 \<and> n + 1 < 32"
    using one [of "n + 1"] by (simp only:)
  have "(3 :: u32) = 1 OR 2" by simp
  then have "push_bit n (3 :: u32) = push_bit n 1 OR push_bit n 2" by (simp only: push_bit_or)
  then show "bit (push_bit n (3 :: u32)) k \<longleftrightarrow> (k = n \<or> k = n + 1) \<and> k < 32"
    using one [of n] two by (auto simp only: bit_or_iff)
qed

lemma set_flag_nth:
  assumes "j < 16 * length fl"
  shows "fl[i div 16 := w] ! (j div 16) = (if i div 16 = j div 16 then w else fl ! (j div 16))"
  using assms by (auto simp: nth_list_update less_mult_imp_div_less mult.commute)

lemma flag_positions:
  "2 * (i mod 16) + 1 < (32 :: nat)" "2 * (i mod 16) < (32 :: nat)"
  "(i :: nat) \<noteq> j \<Longrightarrow> i div 16 = j div 16 \<Longrightarrow> i mod 16 \<noteq> j mod 16"
proof -
  have "i mod 16 < 16" by simp
  then show "2 * (i mod 16) + 1 < (32 :: nat)" "2 * (i mod 16) < (32 :: nat)" by linarith+
  show "i \<noteq> j \<Longrightarrow> i div 16 = j div 16 \<Longrightarrow> i mod 16 \<noteq> j mod 16"
    using bucket_split by blast
qed

lemma isdel_true_flags [simp]:
  assumes "j < 16 * length fl"
  shows "ac_isempty (ac_set_isdel_true fl i) j \<longleftrightarrow> ac_isempty fl j"
    "ac_isdel (ac_set_isdel_true fl i) j \<longleftrightarrow> i = j \<or> ac_isdel fl j"
proof -
  note facts = flag_positions(1) [of i] flag_positions(1) [of j] flag_positions(3) [of i j]
  note rules = flag_bits ac_set_isdel_true_def word_index flag_shift_eq set_flag_nth [OF assms] bit_or_iff bit_push_small bit_exp_iff
  show "ac_isempty (ac_set_isdel_true fl i) j \<longleftrightarrow> ac_isempty fl j"
    using facts by (cases "i = j") (auto simp: rules)
  show "ac_isdel (ac_set_isdel_true fl i) j \<longleftrightarrow> i = j \<or> ac_isdel fl j"
    using facts by (cases "i = j") (auto simp: rules)
qed

lemma isempty_false_flags [simp]:
  assumes "j < 16 * length fl"
  shows "ac_isempty (ac_set_isempty_false fl i) j \<longleftrightarrow> i \<noteq> j \<and> ac_isempty fl j"
    "ac_isdel (ac_set_isempty_false fl i) j \<longleftrightarrow> ac_isdel fl j"
proof -
  note facts = flag_positions(1) [of i] flag_positions(1) [of j] flag_positions(3) [of i j]
  note rules = flag_bits ac_set_isempty_false_def word_index flag_shift_eq set_flag_nth [OF assms] bit_and_iff bit_not_iff bit_push_small
  show "ac_isempty (ac_set_isempty_false fl i) j \<longleftrightarrow> i \<noteq> j \<and> ac_isempty fl j"
    using facts by (cases "i = j") (auto simp: rules)
  show "ac_isdel (ac_set_isempty_false fl i) j \<longleftrightarrow> ac_isdel fl j"
    using facts by (cases "i = j") (auto simp: rules)
qed

lemma isboth_false_flags [simp]:
  assumes "j < 16 * length fl"
  shows "ac_isempty (ac_set_isboth_false fl i) j \<longleftrightarrow> i \<noteq> j \<and> ac_isempty fl j"
    "ac_isdel (ac_set_isboth_false fl i) j \<longleftrightarrow> i \<noteq> j \<and> ac_isdel fl j"
proof -
  note facts = flag_positions(1) [of i] flag_positions(1) [of j] flag_positions(3) [of i j]
  note rules = flag_bits ac_set_isboth_false_def word_index flag_shift_eq set_flag_nth [OF assms] bit_and_iff bit_not_iff bit_push_small
  show "ac_isempty (ac_set_isboth_false fl i) j \<longleftrightarrow> i \<noteq> j \<and> ac_isempty fl j"
    using facts by (cases "i = j") (auto simp: rules)
  show "ac_isdel (ac_set_isboth_false fl i) j \<longleftrightarrow> i \<noteq> j \<and> ac_isdel fl j"
    using facts by (cases "i = j") (auto simp: rules)
qed

lemma fresh_flags [simp]:
  assumes "j < 16 * n"
  shows "ac_isempty (replicate n 0xaaaaaaaa) j" "\<not> ac_isdel (replicate n 0xaaaaaaaa) j"
proof -
  have "j div 16 < n" using assms by (simp add: less_mult_imp_div_less mult.commute)
  then have nth: "replicate n (0xaaaaaaaa :: u32) ! (j div 16) = 0xaaaaaaaa" by simp
  have "j mod 16 \<in> {0, 1, 2, 3, 4, 5, 6, 7, 8, 9, 10, 11, 12, 13, 14, 15}" by auto presburger
  then show "ac_isempty (replicate n 0xaaaaaaaa) j" "\<not> ac_isdel (replicate n 0xaaaaaaaa) j"
    by (auto simp: flag_bits nth)
qed


lemma either_flags [simp]:
  assumes "j < 16 * length fl"
  shows "ac_iseither (ac_set_isdel_true fl i) j \<longleftrightarrow> i = j \<or> ac_iseither fl j"
    "ac_iseither (ac_set_isempty_false fl i) j \<longleftrightarrow>
       (if i = j then ac_isdel fl j else ac_iseither fl j)"
    "ac_iseither (ac_set_isboth_false fl i) j \<longleftrightarrow> i \<noteq> j \<and> ac_iseither fl j"
  using assms by (auto simp: ac_iseither_eq)

lemma ac_fsize_covers: "i < n \<Longrightarrow> n = 2 ^ k \<Longrightarrow> i < 16 * ac_fsize n"
proof -
  assume "i < n" "n = 2 ^ k"
  then show "i < 16 * ac_fsize n"
  proof (cases "k \<ge> 4")
    case True
    then obtain m where "k = 4 + m" using le_Suc_ex by blast
    then have "n = 16 * 2 ^ m" using \<open>n = 2 ^ k\<close> by (simp add: power_add)
    with \<open>i < n\<close> show ?thesis by (simp add: ac_fsize_def word_index)
  next
    case False
    then have "(2 :: nat) ^ k < 2 ^ 4" by (intro power_strict_increasing) auto
    with \<open>i < n\<close> \<open>n = 2 ^ k\<close> show ?thesis by (simp add: ac_fsize_def)
  qed
qed

section \<open>Quadratic probing\<close>

primrec tri :: "nat \<Rightarrow> nat" where
  "tri 0 = 0"
| "tri (Suc s) = tri s + Suc s"

lemma tri_double: "2 * tri s = s * (s + 1)"
  by (induction s) simp_all

lemma tri_mono: "a \<le> b \<Longrightarrow> tri a \<le> tri b"
  by (induction b) (auto simp: le_Suc_eq)

lemma tri_diff_double: "a \<le> b \<Longrightarrow> 2 * (tri b - tri a) = (b - a) * (a + b + 1)"
proof -
  assume "a \<le> b"
  then obtain d where b: "b = a + d" using le_Suc_ex by blast
  have "2 * (tri b - tri a) = b * (b + 1) - a * (a + 1)"
    by (simp only: diff_mult_distrib2 tri_double)
  also have "\<dots> = (b - a) * (a + b + 1)" by (simp add: b algebra_simps)
  finally show ?thesis .
qed

lemma tri_distinct:
  assumes "a < b" "b < 2 ^ k"
  shows "tri a mod 2 ^ k \<noteq> tri b mod 2 ^ k"
proof
  assume "tri a mod 2 ^ k = tri b mod 2 ^ k"
  then have "2 ^ k dvd tri b - tri a"
    using assms(1) tri_mono [of a b] by (metis less_imp_le mod_eq_dvd_iff_nat)
  then have "2 ^ Suc k dvd 2 * (tri b - tri a)" by (simp add: mult_dvd_mono)
  then have dvd: "2 ^ Suc k dvd (b - a) * (a + b + 1)"
    using tri_diff_double [of a b] assms(1) by simp
  have odd1: "odd (b - a) \<or> odd (a + b + 1)" using assms(1) by presburger
  show False
  proof (cases "odd (b - a)")
    case True
    then have "coprime (2 ^ Suc k) (b - a)" by simp
    with dvd have "2 ^ Suc k dvd a + b + 1" using coprime_dvd_mult_right_iff by blast
    then have "2 ^ Suc k \<le> a + b + 1" by (intro dvd_imp_le) auto
    with assms show False by simp
  next
    case False
    with odd1 have "odd (a + b + 1)" by blast
    then have "coprime (2 ^ Suc k) (a + b + 1)" by simp
    with dvd have "2 ^ Suc k dvd b - a" using coprime_dvd_mult_left_iff by blast
    then have "2 ^ Suc k \<le> b - a" using assms(1) by (intro dvd_imp_le) auto
    with assms show False by simp
  qed
qed

definition probe :: "nat \<Rightarrow> string \<Rightarrow> nat \<Rightarrow> nat" where
  "probe n key s = (X31_hash_string key + tri s) mod n"

lemma and_mask_nat: "(x :: nat) AND (2 ^ k - 1) = x mod 2 ^ k"
  by (metis mask_eq_exp_minus_1 take_bit_eq_mask take_bit_eq_mod)

lemma u32_mod: "k \<le> 32 \<Longrightarrow> u32 x mod 2 ^ k = x mod 2 ^ k"
  unfolding u32_def by (rule mod_mod_cancel) (rule le_imp_power_dvd)

lemma probe_0: "n = 2 ^ k \<Longrightarrow> X31_hash_string key AND (n - 1) = probe n key 0"
  by (simp add: probe_def and_mask_nat del: One_nat_def)

lemma probe_Suc:
  "n = 2 ^ k \<Longrightarrow> k \<le> 32 \<Longrightarrow> u32 (probe n key s + (s + 1)) AND (n - 1) = probe n key (Suc s)"
proof -
  assume n: "n = 2 ^ k" and k: "k \<le> 32"
  have "u32 (probe n key s + (s + 1)) AND (n - 1) = (probe n key s + (s + 1)) mod n"
    using k by (simp only: n and_mask_nat u32_mod)
  also have "\<dots> = (X31_hash_string key + tri s + (s + 1)) mod n"
    unfolding probe_def by (rule mod_add_left_eq)
  finally show ?thesis by (simp add: probe_def add.assoc)
qed

lemma probe_less: "n = 2 ^ k \<Longrightarrow> probe n key s < n"
  by (simp add: probe_def)

lemma probe_inj: "n = 2 ^ k \<Longrightarrow> inj_on (probe n key) {..<n}"
proof (rule inj_onI)
  fix a b
  assume n: "n = 2 ^ k" and ab: "a \<in> {..<n}" "b \<in> {..<n}" and eq: "probe n key a = probe n key b"
  from eq have "tri a mod 2 ^ k = tri b mod 2 ^ k"
    unfolding probe_def n by (rule mod_add_cancel_left)
  then show "a = b"
    using tri_distinct [of a b k] tri_distinct [of b a k] ab n by (metis lessThan_iff linorder_neqE_nat)
qed

lemma probe_surj:
  assumes "n = 2 ^ k" "i < n"
  shows "\<exists>s < n. probe n key s = i"
proof -
  have "probe n key ` {..<n} \<subseteq> {..<n}" using probe_less [OF assms(1)] by auto
  moreover have "card (probe n key ` {..<n}) = card {..<n}"
    by (rule card_image) (rule probe_inj [OF assms(1)])
  ultimately have "probe n key ` {..<n} = {..<n}"
    by (intro card_subset_eq) auto
  with assms(2) show ?thesis by (metis imageE lessThan_iff)
qed

end
