(* ===== verification/Khash_Rehash.thy ===== *)
theory Khash_Rehash
  imports Khash_Probe
begin

text \<open>
  Correctness of the in-place rehash of \<open>kh_resize\<close>.  While it runs, the two arrays hold both the
  buckets not yet moved (live in the old flags) and the buckets already placed (non-empty in the
  new flags), and one entry may be in the hand of the kick-out loop.  The invariant \<open>rh_inv\<close> says
  that these three parts together are exactly the entries of the table, and that every placed
  entry is reachable by probing from its hash.
\<close>

section \<open>Invariant\<close>

type_synonym 'v entry = "string option \<times> 'v option"

definition placed :: "nat \<Rightarrow> u32 list \<Rightarrow> nat set" where
  "placed n fl = {i. i < n \<and> \<not> ac_isempty fl i}"

definition live_slots :: "nat \<Rightarrow> u32 list \<Rightarrow> nat set" where
  "live_slots n fl = {i. i < n \<and> \<not> ac_iseither fl i}"

definition entries :: "nat set \<Rightarrow> string option list \<Rightarrow> 'v option list \<Rightarrow> 'v entry set" where
  "entries S ks vs = (\<lambda>i. (ks ! i, vs ! i)) ` S"

definition reachable_slot :: "nat \<Rightarrow> u32 list \<Rightarrow> string option \<Rightarrow> nat \<Rightarrow> bool" where
  "reachable_slot n fl key i \<longleftrightarrow>
     (\<exists>k s. key = Some k \<and> s < n \<and> probe n k s = i \<and> (\<forall>t < s. \<not> ac_isempty fl (probe n k t)))"

definition rh_inv ::
  "nat \<Rightarrow> nat \<Rightarrow> 'v entry set \<Rightarrow> nat \<Rightarrow> 'v rehash \<Rightarrow> 'v entry set \<Rightarrow> bool" where
  "rh_inv n new_n E sz r hand \<longleftrightarrow>
     max n new_n \<le> length (rkeys r) \<and> max n new_n \<le> length (rvals r) \<and>
     n \<le> 16 * length (old_flags r) \<and> length (new_flags r) = ac_fsize new_n \<and>
     (\<forall>i < new_n. \<not> ac_isdel (new_flags r) i) \<and>
     placed new_n (new_flags r) \<inter> live_slots n (old_flags r) = {} \<and>
     entries (placed new_n (new_flags r) \<union> live_slots n (old_flags r)) (rkeys r) (rvals r) \<union> hand = E \<and>
     inj_on (\<lambda>i. rkeys r ! i) (placed new_n (new_flags r) \<union> live_slots n (old_flags r)) \<and>
     fst ` hand \<inter> (\<lambda>i. rkeys r ! i) ` (placed new_n (new_flags r) \<union> live_slots n (old_flags r)) = {} \<and>
     card (placed new_n (new_flags r)) + card (live_slots n (old_flags r)) + card hand = sz \<and>
     (\<forall>i \<in> placed new_n (new_flags r). reachable_slot new_n (new_flags r) (rkeys r ! i) i)"

lemma finite_slots [simp]: "finite (placed n fl)" "finite (live_slots n fl)"
  by (simp_all add: placed_def live_slots_def)

lemma placed_set_isempty_false:
  "n \<le> 16 * length fl \<Longrightarrow> i < n \<Longrightarrow> placed n (ac_set_isempty_false fl i) = insert i (placed n fl)"
  by (auto simp: placed_def)

lemma live_slots_set_isdel:
  "n \<le> 16 * length fl \<Longrightarrow> live_slots n (ac_set_isdel_true fl i) = live_slots n fl - {i}"
  by (auto simp: live_slots_def)

lemma entries_update_other:
  "i \<notin> S \<Longrightarrow> entries S (ks[i := k]) (vs[i := v]) = entries S ks vs"
  unfolding entries_def by (rule image_cong) (auto intro!: nth_list_update_neq)

lemma entries_insert: "entries (insert i S) ks vs = insert (ks ! i, vs ! i) (entries S ks vs)"
  by (simp add: entries_def)

lemma inj_on_insert_image: "inj_on f (insert a A) \<Longrightarrow> a \<notin> A \<Longrightarrow> f a \<notin> f ` A"
  unfolding inj_on_insert Diff_insert_absorb by simp

lemma reachable_slot_mono:
  "reachable_slot n fl key i \<Longrightarrow> (\<And>j. j < n \<Longrightarrow> ac_isempty fl' j \<Longrightarrow> ac_isempty fl j) \<Longrightarrow>
   n = 2 ^ k \<Longrightarrow> reachable_slot n fl' key i"
  unfolding reachable_slot_def using probe_less by metis

text \<open>Writing a new key into a bucket outside a set of buckets with distinct, reachable keys.\<close>

lemma inj_on_list_update:
  assumes "inj_on (\<lambda>j. xs ! j) V" "i \<notin> V" "i < length xs" "x \<notin> (\<lambda>j. xs ! j) ` V"
  shows "inj_on (\<lambda>j. xs[i := x] ! j) (insert i V)"
proof -
  have same: "xs[i := x] ! j = xs ! j" if "j \<in> V" for j using that assms(2) by (intro nth_list_update_neq) blast
  then have "inj_on (\<lambda>j. xs[i := x] ! j) V" using assms(1) by (simp add: inj_on_def)
  moreover have "x \<notin> (\<lambda>j. xs[i := x] ! j) ` V" using assms(4) same by (auto simp: image_iff)
  ultimately show ?thesis using assms(2,3) by (simp add: inj_on_insert)
qed

lemma reachable_slot_update:
  assumes reach: "\<And>j. j \<in> P \<Longrightarrow> reachable_slot n fl (ks ! j) j"
    and i: "i = probe n key e" "e < n" "i < length ks" "\<forall>t < e. \<not> ac_isempty fl (probe n key t)"
    and mono: "\<And>j. j < n \<Longrightarrow> ac_isempty fl' j \<Longrightarrow> ac_isempty fl j" and n: "n = 2 ^ k" and j: "j \<in> insert i P"
  shows "reachable_slot n fl' (ks[i := Some key] ! j) j"
proof -
  have "reachable_slot n fl (ks[i := Some key] ! j) j"
    using reach [of j] i j by (cases "j = i") (auto simp: reachable_slot_def)
  then show ?thesis using mono n by (rule reachable_slot_mono)
qed

section \<open>Finding a free bucket\<close>

lemma find_slot_from:
  assumes n: "n = 2 ^ k" "k \<le> 32"
  shows "s \<le> e \<Longrightarrow> (\<forall>t. s \<le> t \<and> t < e \<longrightarrow> \<not> ac_isempty fl (probe n key t)) \<Longrightarrow>
    ac_isempty fl (probe n key e) \<Longrightarrow> e - s < fuel \<Longrightarrow>
    find_slot fuel fl (n - 1) (probe n key s) s = Inr (probe n key e)"
proof (induction fuel arbitrary: s)
  case 0
  then show ?case by simp
next
  case (Suc fuel)
  show ?case
  proof (cases "s = e")
    case True
    with Suc.prems show ?thesis by simp
  next
    case False
    with Suc.prems have "\<not> ac_isempty fl (probe n key s)" by simp
    moreover have "find_slot fuel fl (n - 1) (probe n key (Suc s)) (Suc s) = Inr (probe n key e)"
      using Suc.prems False by (intro Suc.IH) auto
    ultimately show ?thesis using probe_Suc [OF n, of key s] by simp
  qed
qed

lemma first_probe:
  assumes "n = 2 ^ k" "i < n" "P i"
  shows "\<exists>e < n. P (probe n key e) \<and> (\<forall>t < e. \<not> P (probe n key t))"
proof -
  from probe_surj [OF assms(1,2)] obtain s where "s < n" "probe n key s = i" by blast
  then have P: "P (probe n key s)" using assms(3) by simp
  define e where "e = (LEAST e. P (probe n key e))"
  have "P (probe n key e)" unfolding e_def using P by (rule LeastI)
  moreover have "\<forall>t < e. \<not> P (probe n key t)" unfolding e_def using not_less_Least by blast
  moreover have "e \<le> s" unfolding e_def using P by (rule Least_le)
  ultimately show ?thesis using \<open>s < n\<close> by (intro exI [of _ e]) auto
qed

lemma exists_free:
  assumes "card (placed n fl) < n"
  shows "\<exists>i < n. ac_isempty fl i"
proof (rule ccontr)
  assume "\<not> ?thesis"
  then have "placed n fl = {..<n}" by (auto simp: placed_def)
  with assms show False by simp
qed

lemma find_slot_ok:
  assumes n: "n = 2 ^ k" "k \<le> 32" and free: "card (placed n fl) < n"
  shows "\<exists>e < n. find_slot (2 * n) fl (n - 1) (X31_hash_string key AND (n - 1)) 0 = Inr (probe n key e) \<and>
    ac_isempty fl (probe n key e) \<and> (\<forall>t < e. \<not> ac_isempty fl (probe n key t))"
proof -
  from exists_free [OF free] obtain i where "i < n" "ac_isempty fl i" by blast
  from first_probe [where P = "ac_isempty fl", OF n(1) this] obtain e where
    e: "e < n" "ac_isempty fl (probe n key e)" "\<forall>t < e. \<not> ac_isempty fl (probe n key t)" by blast
  then have "find_slot (2 * n) fl (n - 1) (probe n key 0) 0 = Inr (probe n key e)"
    by (intro find_slot_from [OF n]) auto
  then show ?thesis using e probe_0 [OF n(1), of key] by auto
qed


section \<open>Placing one entry\<close>

text \<open>The facts of the invariant in the form the two placement steps use them.\<close>

lemma rh_invD:
  assumes "rh_inv n new_n E sz r hand" "new_n = 2 ^ k"
  shows "max n new_n \<le> length (rkeys r)" "max n new_n \<le> length (rvals r)"
    "n \<le> 16 * length (old_flags r)" "new_n \<le> 16 * length (new_flags r)"
    "card (placed new_n (new_flags r)) + card (live_slots n (old_flags r)) + card hand = sz"
proof -
  show "new_n \<le> 16 * length (new_flags r)"
  proof (rule ccontr)
    assume "\<not> ?thesis"
    then have "16 * ac_fsize new_n < new_n" using assms(1) by (simp add: rh_inv_def)
    with ac_fsize_covers [OF this assms(2)] show False by simp
  qed
qed (use assms in \<open>simp_all add: rh_inv_def\<close>)

lemma rh_place_free:
  assumes inv: "rh_inv n new_n E sz r {(Some key, val)}" and new: "new_n = 2 ^ k"
    and i: "i = probe new_n key e" "e < new_n" "ac_isempty (new_flags r) i"
      "\<forall>t < e. \<not> ac_isempty (new_flags r) (probe new_n key t)"
    and free: "i \<notin> live_slots n (old_flags r)"
  defines "r' \<equiv> r\<lparr>new_flags := ac_set_isempty_false (new_flags r) i,
      rkeys := (rkeys r)[i := Some key], rvals := (rvals r)[i := val]\<rparr>"
  shows "rh_inv n new_n E sz r' {}"
proof -
  let ?P = "placed new_n (new_flags r)" and ?O = "live_slots n (old_flags r)"
  note facts = rh_invD [OF inv new]
  have il: "i < new_n" using i(1) probe_less [OF new] by simp
  then have iP: "i \<notin> ?P" using i(3) by (simp add: placed_def)
  have P': "placed new_n (new_flags r') = insert i ?P"
    using placed_set_isempty_false [OF facts(4) il] by (simp add: r'_def)
  have O': "live_slots n (old_flags r') = ?O" by (simp add: r'_def)
  have iU: "i \<notin> ?P \<union> ?O" using iP free by simp
  have upd: "rkeys r' = (rkeys r)[i := Some key]" "new_flags r' = ac_set_isempty_false (new_flags r) i" by (simp_all add: r'_def)
  have nth: "rkeys r' ! i = Some key" "rvals r' ! i = val"
    using il facts(1,2) by (simp_all add: r'_def)
  have same: "entries (?P \<union> ?O) (rkeys r') (rvals r') = entries (?P \<union> ?O) (rkeys r) (rvals r)"
    unfolding r'_def using entries_update_other [OF iU] by simp
  have "entries (insert i (?P \<union> ?O)) (rkeys r') (rvals r') = E"
    using inv by (simp add: entries_insert nth rh_inv_def same)
  moreover have "inj_on (\<lambda>j. rkeys r' ! j) (insert i (?P \<union> ?O))"
    unfolding upd(1,2) using inv iU il facts(1) by (intro inj_on_list_update) (auto simp: rh_inv_def)
  moreover have "reachable_slot new_n (new_flags r') (rkeys r' ! j) j" if "j \<in> insert i ?P" for j
    unfolding upd(1,2)
    by (rule reachable_slot_update [OF _ i(1,2) _ i(4) _ new that]) (use inv il facts(1,4) in \<open>auto simp: rh_inv_def\<close>)
  moreover have "\<forall>m < new_n. \<not> ac_isdel (new_flags r') m"
    using inv facts(4) by (simp add: rh_inv_def r'_def)
  ultimately show ?thesis
    using inv iP free facts(1,2) unfolding rh_inv_def P' O'
    by (auto simp: r'_def)
qed

lemma rh_place_swap:
  assumes inv: "rh_inv n new_n E sz r {(Some key, val)}" and new: "new_n = 2 ^ k"
    and i: "i = probe new_n key e" "e < new_n" "ac_isempty (new_flags r) i"
      "\<forall>t < e. \<not> ac_isempty (new_flags r) (probe new_n key t)"
    and old: "i \<in> live_slots n (old_flags r)"
  defines "r' \<equiv> r\<lparr>new_flags := ac_set_isempty_false (new_flags r) i,
      rkeys := (rkeys r)[i := Some key], rvals := (rvals r)[i := val],
      old_flags := ac_set_isdel_true (old_flags r) i\<rparr>"
  shows "rh_inv n new_n E sz r' {(rkeys r ! i, rvals r ! i)}"
    "live_slots n (old_flags r') = live_slots n (old_flags r) - {i}"
proof -
  let ?P = "placed new_n (new_flags r)" and ?O = "live_slots n (old_flags r)"
  let ?V = "(?P \<union> ?O) - {i}"
  note facts = rh_invD [OF inv new]
  have il: "i < new_n" using i(1) probe_less [OF new] by simp
  then have iP: "i \<notin> ?P" using i(3) by (simp add: placed_def)
  have P': "placed new_n (new_flags r') = insert i ?P"
    using placed_set_isempty_false [OF facts(4) il] by (simp add: r'_def)
  show O': "live_slots n (old_flags r') = ?O - {i}"
    using live_slots_set_isdel [OF facts(3)] by (simp add: r'_def)
  have U: "?P \<union> ?O = insert i ?V" "insert i ?P \<union> (?O - {i}) = insert i ?V" using old iP by auto
  have upd: "rkeys r' = (rkeys r)[i := Some key]" "new_flags r' = ac_set_isempty_false (new_flags r) i" by (simp_all add: r'_def)
  have nth: "rkeys r' ! i = Some key" "rvals r' ! i = val"
    using il facts(1,2) by (simp_all add: r'_def)
  have other: "rkeys r' ! j = rkeys r ! j" if "j \<in> ?V" for j
    using that by (auto simp: r'_def intro!: nth_list_update_neq)
  have same: "entries ?V (rkeys r') (rvals r') = entries ?V (rkeys r) (rvals r)"
    unfolding r'_def using entries_update_other [of i ?V] by simp
  have E: "entries (insert i ?V) (rkeys r) (rvals r) \<union> {(Some key, val)} = E"
    and inj: "inj_on (\<lambda>j. rkeys r ! j) (insert i ?V)"
    and fresh: "Some key \<notin> (\<lambda>j. rkeys r ! j) ` (insert i ?V)"
    using inv U(1) by (simp_all add: rh_inv_def)
  have "entries (insert i ?V) (rkeys r') (rvals r') \<union> {(rkeys r ! i, rvals r ! i)} = E"
    using E unfolding entries_insert nth same by blast
  moreover have "inj_on (\<lambda>j. rkeys r' ! j) (insert i ?V)"
    unfolding upd(1,2) using fresh il facts(1) by (intro inj_on_list_update inj_on_subset [OF inj]) auto
  moreover have "rkeys r ! i \<notin> (\<lambda>j. rkeys r' ! j) ` insert i ?V"
  proof -
    have "(\<lambda>j. rkeys r' ! j) ` ?V = (\<lambda>j. rkeys r ! j) ` ?V" using other by (rule image_cong [OF refl])
    moreover have "rkeys r ! i \<notin> (\<lambda>j. rkeys r ! j) ` ?V"
      using inj_on_insert_image [OF inj] by blast
    moreover have "rkeys r ! i \<noteq> Some key" using fresh by (metis imageI insertI1)
    ultimately show ?thesis unfolding image_insert nth by blast
  qed
  moreover have "reachable_slot new_n (new_flags r') (rkeys r' ! j) j" if "j \<in> insert i ?P" for j
    unfolding upd(1,2)
    by (rule reachable_slot_update [OF _ i(1,2) _ i(4) _ new that]) (use inv il facts(1,4) in \<open>auto simp: rh_inv_def\<close>)
  moreover have "\<forall>m < new_n. \<not> ac_isdel (new_flags r') m"
    using inv facts(4) by (simp add: rh_inv_def r'_def)
  moreover have "card (insert i ?P) + card (?O - {i}) = card ?P + card ?O"
    using iP old card_Suc_Diff1 [of ?O i] by simp
  moreover have "insert i ?P \<inter> (?O - {i}) = {}" using inv by (auto simp: rh_inv_def)
  ultimately show "rh_inv n new_n E sz r' {(rkeys r ! i, rvals r ! i)}"
    using facts unfolding rh_inv_def P' O' U(2)
    using inv by (simp add: rh_inv_def) (simp add: r'_def)
qed


section \<open>The loops\<close>

lemma kick_out_ok:
  assumes new: "new_n = 2 ^ k" "k \<le> 32" and keys: "\<And>e. e \<in> E \<Longrightarrow> fst e \<noteq> None"
    and sz: "sz \<le> new_n"
  shows "rh_inv n new_n E sz r {(key, val)} \<Longrightarrow> card (live_slots n (old_flags r)) < fuel \<Longrightarrow>
    \<exists>r'. kick_out fuel n new_n r key val = Inr r' \<and> rh_inv n new_n E sz r' {} \<and>
      live_slots n (old_flags r') \<subseteq> live_slots n (old_flags r)"
proof (induction fuel arbitrary: r key val)
  case 0
  then show ?case by simp
next
  case (Suc fuel)
  have "(key, val) \<in> E" using Suc.prems(1) by (auto simp: rh_inv_def)
  from keys [OF this] obtain kx where key: "key = Some kx" by auto
  have "card (placed new_n (new_flags r)) < new_n"
    using rh_invD(5) [OF Suc.prems(1) new(1)] sz by simp
  from find_slot_ok [OF new this, of kx] obtain e where
    e: "e < new_n" "ac_isempty (new_flags r) (probe new_n kx e)"
      "\<forall>t < e. \<not> ac_isempty (new_flags r) (probe new_n kx t)"
    and found: "find_slot (2 * new_n) (new_flags r) (new_n - 1) (X31_hash_string kx AND (new_n - 1)) 0 =
      Inr (probe new_n kx e)" by blast
  define i where "i = probe new_n kx e"
  show ?case
  proof (cases "i \<in> live_slots n (old_flags r)")
    case True
    let ?r = "r\<lparr>new_flags := ac_set_isempty_false (new_flags r) i,
      rkeys := (rkeys r)[i := Some kx], rvals := (rvals r)[i := val],
      old_flags := ac_set_isdel_true (old_flags r) i\<rparr>"
    note step = rh_place_swap [OF Suc.prems(1) [unfolded key] new(1) i_def e(1)
        e(2) [folded i_def] e(3) True]
    have "card (live_slots n (old_flags ?r)) < fuel"
      using Suc.prems(2) step(2) True card_Suc_Diff1 [of "live_slots n (old_flags r)" i] by simp
    from Suc.IH [OF step(1) this] obtain r' where
      r': "kick_out fuel n new_n ?r (rkeys r ! i) (rvals r ! i) = Inr r'" "rh_inv n new_n E sz r' {}"
      "live_slots n (old_flags r') \<subseteq> live_slots n (old_flags ?r)" by blast
    moreover have "kick_out (Suc fuel) n new_n r key val =
        kick_out fuel n new_n ?r (rkeys r ! i) (rvals r ! i)"
      using True by (simp add: key found i_def [symmetric] Let_def live_slots_def del: One_nat_def)
    ultimately show ?thesis using step(2) by auto
  next
    case False
    then have old: "(i < n \<and> \<not> ac_iseither (old_flags r) i) = False" by (simp add: live_slots_def)
    have "kick_out (Suc fuel) n new_n r key val =
        Inr (r\<lparr>new_flags := ac_set_isempty_false (new_flags r) i,
          rkeys := (rkeys r)[i := Some kx], rvals := (rvals r)[i := val]\<rparr>)"
      by (simp add: key found i_def [symmetric] Let_def old del: One_nat_def)
    then show ?thesis
      using rh_place_free [OF Suc.prems(1) [unfolded key] new(1) i_def e(1)
        e(2) [folded i_def] e(3) False] by simp
  qed
qed

lemma rh_take_in_hand:
  assumes inv: "rh_inv n new_n E sz r {}" and j: "j \<in> live_slots n (old_flags r)"
    and new: "new_n = 2 ^ k"
  shows "rh_inv n new_n E sz (r\<lparr>old_flags := ac_set_isdel_true (old_flags r) j\<rparr>)
      {(rkeys r ! j, rvals r ! j)}"
proof -
  let ?P = "placed new_n (new_flags r)" and ?O = "live_slots n (old_flags r)"
  note facts = rh_invD [OF inv new]
  have O': "live_slots n (ac_set_isdel_true (old_flags r) j) = ?O - {j}"
    using live_slots_set_isdel [OF facts(3)] .
  have jP: "j \<notin> ?P" using inv j by (auto simp: rh_inv_def)
  then have U: "?P \<union> ?O = insert j (?P \<union> (?O - {j}))" using j by auto
  have inj: "inj_on (\<lambda>i. rkeys r ! i) (insert j (?P \<union> (?O - {j})))"
    and E: "entries (insert j (?P \<union> (?O - {j}))) (rkeys r) (rvals r) = E"
    using inv U by (simp_all add: rh_inv_def)
  have "rkeys r ! j \<notin> (\<lambda>i. rkeys r ! i) ` (?P \<union> (?O - {j}))"
    using inj_on_insert_image [OF inj] jP by blast
  moreover have "inj_on (\<lambda>i. rkeys r ! i) (?P \<union> (?O - {j}))"
    using inj by (rule inj_on_subset) auto
  moreover have "entries (?P \<union> (?O - {j})) (rkeys r) (rvals r) \<union> {(rkeys r ! j, rvals r ! j)} = E"
    using E by (auto simp: entries_insert)
  moreover have "card ?O = Suc (card (?O - {j}))" using j card_Suc_Diff1 [of ?O j] by simp
  moreover have "?P \<inter> (?O - {j}) = {}" using inv by (auto simp: rh_inv_def)
  ultimately show ?thesis
    using inv by (simp add: rh_inv_def O')
qed

lemma rehash_from_ok:
  assumes new: "new_n = 2 ^ k" "k \<le> 32" and keys: "\<And>e. e \<in> E \<Longrightarrow> fst e \<noteq> None"
    and sz: "sz \<le> new_n"
  shows "rh_inv n new_n E sz r {} \<Longrightarrow> j + todo = n \<Longrightarrow> (\<forall>i \<in> live_slots n (old_flags r). j \<le> i) \<Longrightarrow>
    \<exists>r'. rehash_from todo j n new_n r = Inr r' \<and> rh_inv n new_n E sz r' {} \<and>
      live_slots n (old_flags r') = {}"
proof (induction todo arbitrary: r j)
  case 0
  then have "live_slots n (old_flags r) = {}" by (auto simp: live_slots_def)
  with 0 show ?case by simp
next
  case (Suc todo)
  then have jn: "j < n" by simp
  show ?case
  proof (cases "ac_iseither (old_flags r) j")
    case True
    then have "\<forall>i \<in> live_slots n (old_flags r). Suc j \<le> i"
      using Suc.prems(3) by (auto simp: live_slots_def Suc_le_eq le_less)
    with Suc True show ?thesis by simp
  next
    case False
    then have j: "j \<in> live_slots n (old_flags r)" using jn by (simp add: live_slots_def)
    let ?r = "r\<lparr>old_flags := ac_set_isdel_true (old_flags r) j\<rparr>"
    have live: "live_slots n (old_flags ?r) = live_slots n (old_flags r) - {j}"
      using live_slots_set_isdel [OF rh_invD(3) [OF Suc.prems(1) new(1)]] by simp
    have "live_slots n (old_flags ?r) \<subseteq> {..<n}" by (auto simp: live_slots_def)
    from card_mono [OF finite_lessThan this] have "card (live_slots n (old_flags ?r)) < n + 1" by simp
    from kick_out_ok [OF new keys sz rh_take_in_hand [OF Suc.prems(1) j new(1)] this]
    obtain r1 where r1: "kick_out (n + 1) n new_n ?r (rkeys r ! j) (rvals r ! j) = Inr r1"
      "rh_inv n new_n E sz r1 {}" "live_slots n (old_flags r1) \<subseteq> live_slots n (old_flags ?r)"
      by auto
    have "\<forall>i \<in> live_slots n (old_flags r1). Suc j \<le> i"
    proof
      fix i
      assume "i \<in> live_slots n (old_flags r1)"
      with r1(3) live have "i \<in> live_slots n (old_flags r)" "i \<noteq> j" by auto
      with Suc.prems(3) show "Suc j \<le> i" by (simp add: Suc_le_eq le_neq_implies_less)
    qed
    with Suc.IH [OF r1(2)] Suc.prems(2) r1(1) False show ?thesis by simp
  qed
qed

end
