(* ===== verification/Khash_Map.thy ===== *)
theory Khash_Map
  imports Khash_Rehash
begin

text \<open>
  The hash table as a finite map.  \<open>kh_wf\<close> is the invariant that every operation keeps, \<open>kh_lookup\<close>
  the map a table stands for (found by a scan of all buckets, with no hashing); the theorems say
  that the hashed operations compute on that map.
\<close>

section \<open>Invariant and abstraction\<close>

definition live :: "'v khash \<Rightarrow> nat set" where
  "live h = live_slots (n_buckets h) (flags h)"

definition table_ok :: "'v khash \<Rightarrow> bool" where
  "table_ok h \<longleftrightarrow>
     (\<exists>k \<in> {2..31}. n_buckets h = 2 ^ k) \<and>
     n_buckets h \<le> length (keys h) \<and> n_buckets h \<le> length (vals h) \<and>
     length (flags h) = ac_fsize (n_buckets h) \<and>
     upper_bound h = hash_upper (n_buckets h) \<and>
     n_occupied h = card (placed (n_buckets h) (flags h)) \<and>
     n_occupied h \<le> upper_bound h \<and>
     ksize h = card (live h) \<and>
     inj_on (\<lambda>i. keys h ! i) (live h) \<and>
     (\<forall>i \<in> live h. reachable_slot (n_buckets h) (flags h) (keys h ! i) i)"

definition kh_wf :: "'v khash \<Rightarrow> bool" where
  "kh_wf h \<longleftrightarrow>
     table_ok h \<or>
     n_buckets h = 0 \<and> ksize h = 0 \<and> n_occupied h = 0 \<and> upper_bound h = 0 \<and> flags h = []"

definition kh_find :: "'v khash \<Rightarrow> string \<Rightarrow> nat option" where
  "kh_find h key = find (\<lambda>i. keys h ! i = Some key) (kh_slots h)"

definition kh_lookup :: "'v khash \<Rightarrow> string \<Rightarrow> 'v option option" where
  "kh_lookup h key = map_option (\<lambda>i. vals h ! i) (kh_find h key)"

lemma set_kh_slots: "set (kh_slots h) = live h"
  by (auto simp: kh_slots_def live_def live_slots_def kh_exist_def)

lemma finite_live [simp]: "finite (live h)"
  by (simp add: live_def)

lemma live_less: "i \<in> live h \<Longrightarrow> i < n_buckets h"
  by (simp add: live_def live_slots_def)

lemma kh_find_SomeD: "kh_find h key = Some i \<Longrightarrow> i \<in> live h \<and> keys h ! i = Some key"
  unfolding kh_find_def set_kh_slots [symmetric] find_Some_iff using nth_mem by force

lemma kh_find_None: "kh_find h key = None \<longleftrightarrow> (\<forall>i \<in> live h. keys h ! i \<noteq> Some key)"
  unfolding kh_find_def find_None_iff set_kh_slots by blast

lemma kh_find_Some:
  assumes "inj_on (\<lambda>i. keys h ! i) (live h)"
  shows "kh_find h key = Some i \<longleftrightarrow> i \<in> live h \<and> keys h ! i = Some key"
proof
  assume i: "i \<in> live h \<and> keys h ! i = Some key"
  then obtain j where j: "kh_find h key = Some j" using kh_find_None by fastforce
  from kh_find_SomeD [OF j] i assms show "kh_find h key = Some i" unfolding inj_on_def j by fastforce
qed (rule kh_find_SomeD)

lemma kh_wf_inj: "kh_wf h \<Longrightarrow> inj_on (\<lambda>i. keys h ! i) (live h)"
  by (auto simp: kh_wf_def table_ok_def live_def live_slots_def)

lemmas kh_find_wf = kh_find_Some [OF kh_wf_inj]

lemma kh_lookup_entries:
  "kh_wf h \<Longrightarrow> kh_lookup h key = Some v \<longleftrightarrow> (Some key, v) \<in> entries (live h) (keys h) (vals h)"
  unfolding kh_lookup_def entries_def by (simp add: kh_find_wf image_iff) (metis (no_types))

lemma kh_lookup_eqI:
  assumes "kh_wf h" "kh_wf h'"
    "entries (live h) (keys h) (vals h) = entries (live h') (keys h') (vals h')"
  shows "kh_lookup h = kh_lookup h'"
proof
  fix key
  have "kh_lookup h key = Some v \<longleftrightarrow> kh_lookup h' key = Some v" for v
    using kh_lookup_entries [OF assms(1)] kh_lookup_entries [OF assms(2)] assms(3) by metis
  then show "kh_lookup h key = kh_lookup h' key" by (metis option.exhaust)
qed

lemma table_okE:
  assumes "table_ok h"
  obtains k where "2 \<le> k" "k \<le> 31" "n_buckets h = 2 ^ k"
    "n_buckets h \<le> 16 * length (flags h)" "card (placed (n_buckets h) (flags h)) < n_buckets h"
proof -
  from assms obtain k where k: "2 \<le> k" "k \<le> 31" "n_buckets h = 2 ^ k" by (auto simp: table_ok_def)
  have "n_buckets h \<le> 16 * length (flags h)"
  proof (rule ccontr)
    assume "\<not> ?thesis"
    then have "16 * ac_fsize (n_buckets h) < n_buckets h" using assms by (simp add: table_ok_def)
    with ac_fsize_covers [OF this k(3)] show False by simp
  qed
  moreover have "4 \<le> n_buckets h" using power_increasing [of 2 k "2 :: nat"] k by simp
  then have "hash_upper (n_buckets h) < n_buckets h" by (simp add: hash_upper_def)
  ultimately show thesis using that k assms by (simp add: table_ok_def)
qed

lemma live_table:
  "i < n_buckets h \<Longrightarrow> i \<in> live h \<longleftrightarrow> \<not> ac_isempty (flags h) i \<and> \<not> ac_isdel (flags h) i"
  by (simp add: live_def live_slots_def ac_iseither_eq)

section \<open>Lookup\<close>

text \<open>A probing loop stops at an empty bucket or at the live bucket of the key.\<close>

definition stops :: "'v khash \<Rightarrow> string \<Rightarrow> nat \<Rightarrow> bool" where
  "stops h key i \<longleftrightarrow> ac_isempty (flags h) i \<or> \<not> ac_isdel (flags h) i \<and> keys h ! i = Some key"

definition stop_probe :: "'v khash \<Rightarrow> string \<Rightarrow> nat \<Rightarrow> bool" where
  "stop_probe h key e \<longleftrightarrow>
     e < n_buckets h \<and> stops h key (probe (n_buckets h) key e) \<and>
     (\<forall>t < e. \<not> stops h key (probe (n_buckets h) key t))"

lemma stop_probe_exists:
  assumes "table_ok h"
  shows "\<exists>e. stop_probe h key e"
proof -
  from assms obtain k where k: "n_buckets h = 2 ^ k"
    and free: "card (placed (n_buckets h) (flags h)) < n_buckets h" by (rule table_okE)
  from exists_free [OF free] obtain i where "i < n_buckets h" "stops h key i"
    by (auto simp: stops_def)
  from first_probe [where P = "stops h key", OF k this] show ?thesis
    by (auto simp: stop_probe_def)
qed

text \<open>Where the loop stops is decided by whether the key is in the table.\<close>

lemma stop_probe_present:
  assumes ok: "table_ok h" and e: "stop_probe h key e" and i: "kh_find h key = Some i"
  shows "probe (n_buckets h) key e = i"
proof -
  from ok obtain k where k: "n_buckets h = 2 ^ k" by (rule table_okE)
  from kh_find_SomeD [OF i] have iL: "i \<in> live h" "keys h ! i = Some key" by auto
  with ok have "reachable_slot (n_buckets h) (flags h) (Some key) i" by (auto simp: table_ok_def)
  then obtain s where s: "s < n_buckets h" "probe (n_buckets h) key s = i"
    "\<forall>t < s. \<not> ac_isempty (flags h) (probe (n_buckets h) key t)" by (auto simp: reachable_slot_def)
  have "stops h key i" using iL live_table [OF live_less [OF iL(1)]] by (simp add: stops_def)
  then have "e \<le> s" using e s(2) by (metis leI stop_probe_def)
  show ?thesis
  proof (cases "e = s")
    case False
    with \<open>e \<le> s\<close> s(3) have "\<not> ac_isempty (flags h) (probe (n_buckets h) key e)" by simp
    with e have "probe (n_buckets h) key e \<in> live h" "keys h ! probe (n_buckets h) key e = Some key"
      using live_table [OF probe_less [OF k, of key e]] by (auto simp: stop_probe_def stops_def)
    with iL ok show ?thesis by (metis (no_types, lifting) inj_on_def table_ok_def)
  qed (use s in simp)
qed

lemma stop_probe_absent:
  assumes ok: "table_ok h" and e: "stop_probe h key e" and none: "kh_find h key = None"
  shows "ac_isempty (flags h) (probe (n_buckets h) key e)"
proof (rule ccontr)
  assume ne: "\<not> ?thesis"
  from ok obtain k where k: "n_buckets h = 2 ^ k" by (rule table_okE)
  from e ne have "probe (n_buckets h) key e \<in> live h" "keys h ! probe (n_buckets h) key e = Some key"
    using live_table [OF probe_less [OF k, of key e]] by (auto simp: stop_probe_def stops_def)
  with none show False by (simp add: kh_find_None)
qed

lemma kh_get_loop_from:
  assumes ok: "table_ok h" and e: "stop_probe h key e"
  defines "n \<equiv> n_buckets h"
  shows "s \<le> e \<Longrightarrow> e - s < fuel \<Longrightarrow>
    kh_get_loop fuel h key (n - 1) (probe n key 0) (probe n key s) s =
    Inr (if ac_iseither (flags h) (probe n key e) then n else probe n key e)"
proof (induction fuel arbitrary: s)
  case 0
  then show ?case by simp
next
  case (Suc fuel)
  from ok obtain k where k: "k \<le> 31" "n = 2 ^ k" unfolding n_def by (rule table_okE)
  show ?case
  proof (cases "s = e")
    case True
    with e show ?thesis by (auto simp: stop_probe_def stops_def n_def)
  next
    case False
    with Suc.prems have "s < e" by simp
    with e have go: "\<not> stops h key (probe n key s)" and en: "e < n" by (auto simp: stop_probe_def n_def)
    have "probe n key (Suc s) \<noteq> probe n key 0"
      using inj_onD [OF probe_inj [OF k(2)], of key "Suc s" 0] \<open>s < e\<close> en by auto
    moreover have "u32 (probe n key s + (s + 1)) AND (n - 1) = probe n key (Suc s)"
      using probe_Suc [OF k(2)] k(1) by simp
    moreover have "kh_get_loop fuel h key (n - 1) (probe n key 0) (probe n key (Suc s)) (s + 1) =
        Inr (if ac_iseither (flags h) (probe n key e) then n else probe n key e)"
      using Suc.IH [of "Suc s"] Suc.prems(2) \<open>s < e\<close> by simp
    ultimately show ?thesis using go by (simp only: kh_get_loop.simps Let_def stops_def) simp
  qed
qed

lemma kh_get_correct:
  assumes "kh_wf h"
  shows "kh_get h key = Inr (case kh_find h key of Some i \<Rightarrow> i | None \<Rightarrow> n_buckets h)"
proof (cases "table_ok h")
  case True
  then obtain k where k: "n_buckets h = 2 ^ k" by (rule table_okE)
  from stop_probe_exists [OF True] obtain e where e: "stop_probe h key e" by blast
  let ?p = "probe (n_buckets h) key e"
  have "kh_get h key = Inr (if ac_iseither (flags h) ?p then n_buckets h else ?p)"
    using kh_get_loop_from [OF True e, of 0 "2 * n_buckets h"] e k probe_0 [OF k, of key]
    by (simp add: kh_get_def stop_probe_def Let_def del: One_nat_def)
  then show ?thesis
  proof (cases "kh_find h key")
    case None
    with stop_probe_absent [OF True e] \<open>kh_get h key = _\<close> show ?thesis by (simp add: ac_iseither_eq)
  next
    case (Some i)
    with stop_probe_present [OF True e] kh_find_SomeD [OF Some] \<open>kh_get h key = _\<close> show ?thesis
      by (simp add: live_def live_slots_def)
  qed
next
  case False
  with assms show ?thesis by (auto simp: kh_wf_def kh_get_def kh_find_def kh_slots_def)
qed

end
