(* ===== verification/Khash_Update.thy ===== *)
theory Khash_Update
  imports Khash_Map
begin

text \<open>
  Resizing, insertion and deletion compute on the map a table stands for.  The interface that the
  database relies on is the locale \<open>string_table\<close>, interpreted here on the khash operations.
\<close>

section \<open>Rounding and load bound\<close>

lemma exponent_cases:
  assumes "2 \<le> k" "k \<le> (31 :: nat)"
  shows "k \<in> {2, 3, 4, 5, 6, 7, 8, 9, 10, 11, 12, 13, 14, 15, 16, 17, 18, 19, 20, 21, 22, 23, 24,
    25, 26, 27, 28, 29, 30, 31}"
  unfolding insert_iff empty_iff using assms by presburger

lemma kroundup32_below: "2 \<le> k \<Longrightarrow> k \<le> 31 \<Longrightarrow> unat (kroundup32 (of_nat (2 ^ k - 1))) = 2 ^ k"
  using exponent_cases [of k] by (auto simp: kroundup32_def Let_def)

lemma kroundup32_above: "2 \<le> k \<Longrightarrow> k \<le> 30 \<Longrightarrow> unat (kroundup32 (of_nat (2 ^ k + 1))) = 2 ^ Suc k"
  using exponent_cases [of k] by (auto simp: kroundup32_def Let_def)

lemma kroundup32_one: "unat (kroundup32 1) = 1"
  by (simp add: kroundup32_def Let_def)

lemma hash_upper_mono: "m \<le> n \<Longrightarrow> hash_upper m \<le> hash_upper n"
  unfolding hash_upper_def by (rule div_le_mono) simp

lemma hash_upper_le: "hash_upper n \<le> n"
  by (simp add: hash_upper_def)

lemma hash_upper_half: "2 * s < n \<Longrightarrow> 4 \<le> n \<Longrightarrow> s < hash_upper n"
  by (simp add: hash_upper_def)

lemma hash_upper_double: "4 \<le> n \<Longrightarrow> s \<le> hash_upper n \<Longrightarrow> s < hash_upper (2 * n)"
  by (simp add: hash_upper_def)

section \<open>Resizing\<close>

lemma length_realloc_array [simp]: "length (realloc_array n xs) = n"
  by (simp add: realloc_array_def)

lemma nth_realloc_array [simp]: "i < n \<Longrightarrow> i < length xs \<Longrightarrow> realloc_array n xs ! i = xs ! i"
  by (simp add: realloc_array_def nth_append)

lemma entries_cong:
  "(\<And>i. i \<in> S \<Longrightarrow> ks ! i = ks' ! i \<and> vs ! i = vs' ! i) \<Longrightarrow> entries S ks vs = entries S ks' vs'"
  unfolding entries_def by (rule image_cong) auto

lemma kh_wf_lengths:
  assumes "kh_wf h"
  shows "n_buckets h \<le> length (keys h)" "n_buckets h \<le> length (vals h)"
    "n_buckets h \<le> 16 * length (flags h)" "ksize h = card (live h)"
proof -
  have "n_buckets h \<le> 16 * length (flags h)" if "table_ok h" using that by (rule table_okE)
  with assms show "n_buckets h \<le> length (keys h)" "n_buckets h \<le> length (vals h)"
    "n_buckets h \<le> 16 * length (flags h)" "ksize h = card (live h)"
    by (auto simp: kh_wf_def table_ok_def live_def live_slots_def)
qed

lemma rh_start:
  assumes wf: "kh_wf h" and new: "new_n = 2 ^ k"
    and ks: "max (n_buckets h) new_n \<le> length ks" "\<And>i. i < n_buckets h \<Longrightarrow> ks ! i = keys h ! i"
    and vs: "max (n_buckets h) new_n \<le> length vs" "\<And>i. i < n_buckets h \<Longrightarrow> vs ! i = vals h ! i"
  shows "rh_inv (n_buckets h) new_n (entries (live h) (keys h) (vals h)) (ksize h)
    \<lparr>rkeys = ks, rvals = vs, old_flags = flags h, new_flags = replicate (ac_fsize new_n) 0xaaaaaaaa\<rparr> {}"
proof -
  have fresh: "ac_isempty (replicate (ac_fsize new_n) 0xaaaaaaaa) i"
    "\<not> ac_isdel (replicate (ac_fsize new_n) 0xaaaaaaaa) i" if "i < new_n" for i
    using ac_fsize_covers [OF that new] by simp_all
  then have none: "placed new_n (replicate (ac_fsize new_n) 0xaaaaaaaa) = {}" by (auto simp: placed_def)
  have same: "entries (live h) ks vs = entries (live h) (keys h) (vals h)"
    using ks(2) vs(2) live_less by (intro entries_cong) blast
  have "inj_on (\<lambda>i. ks ! i) (live h)"
    using kh_wf_inj [OF wf] ks(2) live_less by (subst inj_on_cong [where g = "\<lambda>i. keys h ! i"]) blast+
  with same show ?thesis
    using fresh ks(1) vs(1) kh_wf_lengths [OF wf] by (simp add: rh_inv_def none live_def)
qed

lemma rh_done:
  assumes inv: "rh_inv n new_n E sz r {}" and old: "live_slots n (old_flags r) = {}"
    and new: "new_n = 2 ^ k" "2 \<le> k" "k \<le> 31"
    and h': "n_buckets h' = new_n" "ksize h' = sz" "n_occupied h' = sz" "upper_bound h' = hash_upper new_n"
      "flags h' = new_flags r" "new_n \<le> length (keys h')" "new_n \<le> length (vals h')"
    and ks: "\<And>i. i < new_n \<Longrightarrow> keys h' ! i = rkeys r ! i"
    and vs: "\<And>i. i < new_n \<Longrightarrow> vals h' ! i = rvals r ! i"
    and room: "sz < hash_upper new_n"
  shows "table_ok h' \<and> entries (live h') (keys h') (vals h') = E"
proof -
  have live: "live h' = placed new_n (new_flags r)"
    using inv by (auto simp: live_def live_slots_def placed_def h' rh_inv_def ac_iseither_eq)
  then have lt: "i \<in> live h' \<Longrightarrow> i < new_n" for i by (simp add: placed_def)
  have "entries (live h') (keys h') (vals h') = entries (live h') (rkeys r) (rvals r)"
    using ks vs lt by (intro entries_cong) blast
  also have "\<dots> = E" using inv old live by (simp add: rh_inv_def)
  finally have E: "entries (live h') (keys h') (vals h') = E" .
  have "inj_on (\<lambda>i. keys h' ! i) (live h')"
    using inv old live ks lt
    by (subst inj_on_cong [where g = "\<lambda>i. rkeys r ! i"]) (auto simp: rh_inv_def)
  moreover have "\<forall>i \<in> live h'. reachable_slot new_n (flags h') (keys h' ! i) i"
    using inv live ks lt h'(5) by (simp add: rh_inv_def)
  moreover have "\<exists>k \<in> {2..31}. new_n = 2 ^ k" using new by (intro bexI [of _ k]) auto
  ultimately have "table_ok h'"
    using inv old room live by (simp add: table_ok_def h' rh_inv_def)
  with E show ?thesis by simp
qed

definition round_size :: "nat \<Rightarrow> nat" where
  "round_size m = (let n = unat (kroundup32 (of_nat m)) in if n < 4 then 4 else n)"

lemma kh_resize_ok:
  assumes wf: "kh_wf h" and new: "round_size m = new_n" "new_n = 2 ^ k" "2 \<le> k" "k \<le> 31"
    and room: "ksize h < hash_upper new_n"
  shows "\<exists>h'. kh_resize True True True h m = Inr (0, h') \<and> table_ok h' \<and> n_buckets h' = new_n \<and>
    ksize h' = ksize h \<and> n_occupied h' = ksize h \<and>
    entries (live h') (keys h') (vals h') = entries (live h) (keys h) (vals h)"
proof -
  let ?n = "n_buckets h" and ?E = "entries (live h) (keys h) (vals h)"
  define ks where "ks = (if ?n < new_n then realloc_array new_n (keys h) else keys h)"
  define vs where "vs = (if ?n < new_n then realloc_array new_n (vals h) else vals h)"
  note len = kh_wf_lengths [OF wf]
  let ?r = "\<lparr>rkeys = ks, rvals = vs, old_flags = flags h,
    new_flags = replicate (ac_fsize new_n) 0xaaaaaaaa\<rparr>"
  have start: "rh_inv ?n new_n ?E (ksize h) ?r {}"
    using len by (intro rh_start [OF wf new(2)]) (auto simp: ks_def vs_def)
  have keyed: "fst e \<noteq> None" if "e \<in> ?E" for e
  proof -
    from that obtain i where "i \<in> live h" "e = (keys h ! i, vals h ! i)" by (auto simp: entries_def)
    moreover from this have "reachable_slot ?n (flags h) (keys h ! i) i"
      using wf live_less [of i h] by (auto simp: kh_wf_def table_ok_def)
    ultimately show ?thesis by (auto simp: reachable_slot_def)
  qed
  have sz: "ksize h \<le> new_n" using room hash_upper_le [of new_n] by simp
  have "k \<le> 32" using new(4) by simp
  from rehash_from_ok [OF new(2) this keyed sz start, of 0 ?n] obtain r where
    r: "rehash_from ?n 0 ?n new_n ?r = Inr r" "rh_inv ?n new_n ?E (ksize h) r {}"
    "live_slots ?n (old_flags r) = {}" by auto
  define h' where "h' = h\<lparr>keys := (if ?n > new_n then realloc_array new_n (rkeys r) else rkeys r),
    vals := (if ?n > new_n then realloc_array new_n (rvals r) else rvals r),
    flags := new_flags r, n_buckets := new_n, n_occupied := ksize h, upper_bound := hash_upper new_n\<rparr>"
  have "kh_resize True True True h m = Inr (0, h')"
  proof (cases "?n < new_n")
    case True
    then show ?thesis using room r(1)
      by (simp add: kh_resize_def Let_def h'_def ks_def vs_def new(1) [unfolded round_size_def Let_def])
  next
    case False
    then show ?thesis using room r(1)
      by (simp add: kh_resize_def Let_def h'_def ks_def vs_def new(1) [unfolded round_size_def Let_def]
          del: not_less)
  qed
  moreover have "table_ok h' \<and> entries (live h') (keys h') (vals h') = ?E"
    using rh_invD(1,2) [OF r(2) new(2)] room
    by (intro rh_done [OF r(2,3) new(2-4)]) (simp_all add: h'_def)
  ultimately show ?thesis by (auto simp: h'_def)
qed

text \<open>When an allocation fails the table is as before, except for the capacity of its key array.\<close>

lemma kh_resize_alloc:
  assumes wf: "kh_wf h"
  shows "kh_resize a b c h m = kh_resize True True True h m \<or>
    (\<exists>h'. kh_resize a b c h m = Inr (-1, h') \<and> kh_wf h' \<and> kh_lookup h' = kh_lookup h \<and>
      ksize h' = ksize h \<and> n_buckets h' = n_buckets h)"
proof -
  let ?h = "h\<lparr>keys := realloc_array (round_size m) (keys h)\<rparr>"
  have "kh_wf ?h \<and> kh_lookup ?h = kh_lookup h" if "n_buckets h < round_size m"
  proof
    have live: "live ?h = live h" by (simp add: live_def)
    have nth: "keys ?h ! i = keys h ! i" if "i \<in> live h" for i
      using that \<open>n_buckets h < round_size m\<close> live_less [OF that] kh_wf_lengths(1) [OF wf] by simp
    show "kh_wf ?h"
      using wf that nth
      by (auto simp: kh_wf_def table_ok_def live inj_on_def)
    then show "kh_lookup ?h = kh_lookup h"
      by (rule kh_lookup_eqI [OF _ wf]) (use live nth in \<open>auto intro!: entries_cong\<close>)
  qed
  then show ?thesis
    using wf by (auto simp: kh_resize_def Let_def round_size_def)
qed

section \<open>Insertion\<close>

lemma kh_put_loop_from:
  assumes ok: "table_ok h" and e: "stop_probe h key e"
  defines "n \<equiv> n_buckets h"
  shows "s \<le> e \<Longrightarrow> e - s < fuel \<Longrightarrow>
    site = n \<or> (\<exists>t < s. site = probe n key t \<and> ac_isdel (flags h) site) \<Longrightarrow>
    \<exists>site'. kh_put_loop fuel h key (n - 1) (probe n key 0) site (probe n key s) s =
        Inr (n, site', probe n key e) \<and>
      (site' = n \<or> (\<exists>t < e. site' = probe n key t \<and> ac_isdel (flags h) site'))"
proof (induction fuel arbitrary: s site)
  case 0
  then show ?case by simp
next
  case (Suc fuel)
  from ok obtain k where k: "k \<le> 31" "n = 2 ^ k" unfolding n_def by (rule table_okE)
  show ?case
  proof (cases "s = e")
    case True
    with e Suc.prems(3) show ?thesis by (auto simp: stop_probe_def stops_def n_def)
  next
    case False
    with Suc.prems have "s < e" by simp
    with e have go: "\<not> stops h key (probe n key s)" and en: "e < n" by (auto simp: stop_probe_def n_def)
    define site1 where "site1 = (if ac_isdel (flags h) (probe n key s) then probe n key s else site)"
    have "probe n key (Suc s) \<noteq> probe n key 0"
      using inj_onD [OF probe_inj [OF k(2)], of key "Suc s" 0] \<open>s < e\<close> en by auto
    moreover have "u32 (probe n key s + (s + 1)) AND (n - 1) = probe n key (Suc s)"
      using probe_Suc [OF k(2)] k(1) by simp
    moreover have "site1 = n \<or> (\<exists>t < Suc s. site1 = probe n key t \<and> ac_isdel (flags h) site1)"
      using Suc.prems(3) by (auto simp: site1_def less_Suc_eq)
    from Suc.IH [OF _ _ this] have "\<exists>site'.
        kh_put_loop fuel h key (n - 1) (probe n key 0) site1 (probe n key (Suc s)) (s + 1) =
        Inr (n, site', probe n key e) \<and>
      (site' = n \<or> (\<exists>t < e. site' = probe n key t \<and> ac_isdel (flags h) site'))"
      using Suc.prems(2) \<open>s < e\<close> by simp
    ultimately show ?thesis
      using go by (simp only: kh_put_loop.simps Let_def stops_def site1_def) simp
  qed
qed

lemma kh_put_slot_stop:
  assumes ok: "table_ok h" and e: "stop_probe h key e"
  shows "\<exists>site. kh_put_slot h key =
      Inr (if ac_isempty (flags h) (probe (n_buckets h) key e) \<and> site \<noteq> n_buckets h
           then site else probe (n_buckets h) key e) \<and>
    (site = n_buckets h \<or>
     (\<exists>t < e. site = probe (n_buckets h) key t \<and> ac_isdel (flags h) site))"
proof -
  let ?n = "n_buckets h"
  from ok obtain k where k: "?n = 2 ^ k" by (rule table_okE)
  show ?thesis
  proof (cases "ac_isempty (flags h) (probe ?n key 0)")
    case True
    then have "stops h key (probe ?n key 0)" by (simp add: stops_def)
    with e have "e = 0" by (metis neq0_conv stop_probe_def)
    with True show ?thesis
      using probe_0 [OF k, of key] by (auto simp: kh_put_slot_def Let_def simp del: One_nat_def)
  next
    case False
    from kh_put_loop_from [OF ok e, of 0 "2 * ?n" ?n] e obtain site' where
      "kh_put_loop (2 * ?n) h key (?n - 1) (probe ?n key 0) ?n (probe ?n key 0) 0 =
        Inr (?n, site', probe ?n key e)"
      "site' = ?n \<or> (\<exists>t < e. site' = probe ?n key t \<and> ac_isdel (flags h) site')"
      by (auto simp: stop_probe_def)
    with False show ?thesis
      using probe_0 [OF k, of key]
      by (intro exI [of _ site']) (simp add: kh_put_slot_def Let_def del: One_nat_def)
  qed
qed

lemma kh_put_slot_present:
  assumes "table_ok h" "kh_find h key = Some i"
  shows "kh_put_slot h key = Inr i"
proof -
  from stop_probe_exists [OF assms(1)] obtain e where e: "stop_probe h key e" by blast
  from kh_find_SomeD [OF assms(2)] have "\<not> ac_isempty (flags h) i"
    using live_table [OF live_less, of i h] by blast
  with kh_put_slot_stop [OF assms(1) e] stop_probe_present [OF assms(1) e assms(2)]
  show ?thesis by auto
qed

lemma kh_put_slot_absent:
  assumes ok: "table_ok h" and none: "kh_find h key = None"
  shows "\<exists>x t. kh_put_slot h key = Inr x \<and> t < n_buckets h \<and> x = probe (n_buckets h) key t \<and>
    ac_iseither (flags h) x \<and> (\<forall>u < t. \<not> ac_isempty (flags h) (probe (n_buckets h) key u))"
proof -
  from stop_probe_exists [OF ok] obtain e where e: "stop_probe h key e" by blast
  then have before: "\<forall>u < e. \<not> ac_isempty (flags h) (probe (n_buckets h) key u)" "e < n_buckets h"
    by (auto simp: stop_probe_def stops_def)
  note empty = stop_probe_absent [OF ok e none]
  from kh_put_slot_stop [OF ok e] obtain site where
    slot: "kh_put_slot h key = Inr (if site \<noteq> n_buckets h then site else probe (n_buckets h) key e)"
    and "site = n_buckets h \<or> (\<exists>t < e. site = probe (n_buckets h) key t \<and> ac_isdel (flags h) site)"
    using empty by auto
  then consider "site = n_buckets h"
    | t where "t < e" "site = probe (n_buckets h) key t" "ac_isdel (flags h) site" by blast
  then show ?thesis
  proof cases
    case 1
    with slot empty before show ?thesis by (auto simp: ac_iseither_eq)
  next
    case 2
    moreover from 2 ok have "site \<noteq> n_buckets h" by (metis less_irrefl probe_less table_okE)
    ultimately show ?thesis using slot before by (intro exI [of _ site] exI [of _ t]) (auto simp: ac_iseither_eq)
  qed
qed

lemma kh_lookup_other:
  assumes "inj_on (\<lambda>i. keys h ! i) (live h)" "inj_on (\<lambda>i. keys h' ! i) (live h')"
    and same: "\<And>i. i \<noteq> x \<Longrightarrow> (i \<in> live h' \<longleftrightarrow> i \<in> live h) \<and> keys h' ! i = keys h ! i \<and> vals h' ! i = vals h ! i"
    and x: "x \<in> live h \<Longrightarrow> keys h ! x \<noteq> Some k" "x \<in> live h' \<Longrightarrow> keys h' ! x \<noteq> Some k"
  shows "kh_lookup h' k = kh_lookup h k"
proof -
  have same_find: "kh_find h' k = Some i \<longleftrightarrow> kh_find h k = Some i" for i
    unfolding kh_find_Some [OF assms(1)] kh_find_Some [OF assms(2)]
    using same [of i] x by (cases "i = x") auto
  then have find: "kh_find h' k = kh_find h k" by (metis option.exhaust)
  have "vals h' ! i = vals h ! i" if "kh_find h k = Some i" for i
    using same [of i] x kh_find_SomeD [OF that] by (cases "i = x") auto
  then show ?thesis by (auto simp: kh_lookup_def find split: option.split intro!: option.map_cong)
qed

text \<open>The counters of a table stay below their width.\<close>

lemma table_counts:
  assumes ok: "table_ok h"
  shows "ksize h \<le> n_occupied h" "upper_bound h < 2 ^ 32 - 1" "ksize h < 2 ^ 32 - 1"
proof -
  have "live h \<subseteq> placed (n_buckets h) (flags h)" by (auto simp: live_def live_slots_def placed_def ac_iseither_eq)
  from card_mono [OF _ this] ok show kl: "ksize h \<le> n_occupied h" by (simp add: table_ok_def)
  from ok obtain m where "m \<le> 31" "n_buckets h = 2 ^ m" by (rule table_okE)
  then have "n_buckets h \<le> 2 ^ 31" using power_increasing [of m 31 "2 :: nat"] by simp
  with hash_upper_le [of "n_buckets h"] ok show "upper_bound h < 2 ^ 32 - 1" by (simp add: table_ok_def)
  then show "ksize h < 2 ^ 32 - 1" using kl ok by (simp add: table_ok_def)
qed

lemma u32_decrement: "0 < a \<Longrightarrow> a < 2 ^ 32 \<Longrightarrow> u32 (a + 2 ^ 32 - 1) = a - 1"
  by (simp add: u32_def mod_if)

lemma table_insert:
  assumes ok: "table_ok h" and room: "n_occupied h < upper_bound h" and none: "kh_find h key = None"
    and x: "t < n_buckets h" "x = probe (n_buckets h) key t" "ac_iseither (flags h) x"
      "\<forall>u < t. \<not> ac_isempty (flags h) (probe (n_buckets h) key u)"
  defines "h' \<equiv> h\<lparr>keys := (keys h)[x := Some key], flags := ac_set_isboth_false (flags h) x,
      ksize := u32 (ksize h + 1),
      n_occupied := (if ac_isempty (flags h) x then u32 (n_occupied h + 1) else n_occupied h)\<rparr>"
  shows "table_ok h'" "kh_find h' key = Some x" "ksize h' = ksize h + 1"
    "k \<noteq> key \<Longrightarrow> kh_lookup h' k = kh_lookup h k"
proof -
  let ?n = "n_buckets h"
  from ok obtain m where m: "2 \<le> m" "m \<le> 31" "?n = 2 ^ m" and fl: "?n \<le> 16 * length (flags h)"
    by (rule table_okE)
  have xn: "x < ?n" using x(2) probe_less [OF m(3)] by simp
  have xl: "x \<notin> live h" using x(3) by (simp add: live_def live_slots_def)
  have live: "live h' = insert x (live h)"
    using fl xn by (auto simp: live_def live_slots_def h'_def)
  have placed: "placed ?n (flags h') = insert x (placed ?n (flags h))"
    using fl xn by (auto simp: placed_def h'_def)
  have len: "?n \<le> length (keys h)" using ok by (simp add: table_ok_def)
  have keys': "keys h' = (keys h)[x := Some key]" by (simp add: h'_def)
  have nth: "keys h' ! x = Some key" using xn len by (simp add: h'_def)
  have other: "keys h' ! i = keys h ! i" if "i \<noteq> x" for i using that by (simp add: h'_def)
  have inj: "inj_on (\<lambda>i. keys h ! i) (live h)" using ok by (simp add: table_ok_def)
  have inj': "inj_on (\<lambda>i. keys h' ! i) (live h')"
    unfolding live keys' using inj xl xn len none by (intro inj_on_list_update) (auto simp: kh_find_None image_iff)
  show ks: "ksize h' = ksize h + 1" using table_counts [OF ok] room by (simp add: h'_def u32_def)
  have "x \<in> placed ?n (flags h) \<longleftrightarrow> \<not> ac_isempty (flags h) x" using xn by (simp add: placed_def)
  moreover have "n_occupied h = card (placed ?n (flags h))" using ok by (simp add: table_ok_def)
  ultimately have occ: "n_occupied h' = card (placed ?n (flags h'))" "n_occupied h' \<le> upper_bound h'"
    using room table_counts(2) [OF ok] unfolding placed by (simp_all add: h'_def u32_def card_insert_if)
  have reach: "reachable_slot ?n (flags h') (keys h' ! i) i" if "i \<in> live h'" for i
    unfolding keys'
    by (rule reachable_slot_update [OF _ x(2,1) _ x(4) _ m(3) that [unfolded live]]) (use ok xn len fl in \<open>auto simp: table_ok_def h'_def\<close>)
  show "table_ok h'"
    using ok inj' reach occ ks live xl unfolding table_ok_def
    by (simp add: h'_def)
  show "kh_find h' key = Some x" using nth live by (simp add: kh_find_Some [OF inj'])
  show "k \<noteq> key \<Longrightarrow> kh_lookup h' k = kh_lookup h k"
    using live xl nth other by (intro kh_lookup_other [OF inj inj', of x]) (auto simp: h'_def)
qed

section \<open>Deletion and assignment\<close>

lemma table_delete:
  assumes ok: "table_ok h" and i: "kh_find h key = Some i"
  shows "table_ok (kh_del h i)" "kh_lookup (kh_del h i) = (kh_lookup h)(key := None)"
    "ksize (kh_del h i) = ksize h - 1" "0 < ksize h"
proof -
  let ?n = "n_buckets h" and ?h = "kh_del h i"
  from ok obtain m where m: "2 \<le> m" "m \<le> 31" "?n = 2 ^ m" and fl: "?n \<le> 16 * length (flags h)"
    by (rule table_okE)
  from kh_find_SomeD [OF i] have iL: "i \<in> live h" "keys h ! i = Some key" by auto
  then have del: "?h = h\<lparr>flags := ac_set_isdel_true (flags h) i, ksize := u32 (ksize h + 2 ^ 32 - 1)\<rparr>"
    using live_less [OF iL(1)] by (simp add: kh_del_def live_def live_slots_def)
  have live: "live ?h = live h - {i}"
    using live_slots_set_isdel [OF fl] by (simp add: live_def del)
  have placed: "placed ?n (flags ?h) = placed ?n (flags h)" using fl by (auto simp: placed_def del)
  show pos: "0 < ksize h" using ok iL card_gt_0_iff [of "live h"] by (auto simp: table_ok_def)
  show ks: "ksize ?h = ksize h - 1" using u32_decrement [OF pos] table_counts(3) [OF ok] by (simp add: del)
  have inj: "inj_on (\<lambda>j. keys h ! j) (live h)" using ok by (simp add: table_ok_def)
  have inj': "inj_on (\<lambda>j. keys ?h ! j) (live ?h)"
    unfolding live using inj by (simp add: del inj_on_subset)
  have "reachable_slot ?n (flags ?h) (keys ?h ! j) j" if "j \<in> live ?h" for j
  proof -
    have "ac_isempty (flags ?h) j' \<Longrightarrow> ac_isempty (flags h) j'" if "j' < ?n" for j'
      using that fl by (simp add: del)
    moreover have "reachable_slot ?n (flags h) (keys ?h ! j) j" using ok that live by (simp add: table_ok_def del)
    ultimately show ?thesis using reachable_slot_mono m(3) by metis
  qed
  moreover have "card (live ?h) = ksize h - 1"
    using iL(1) ok by (simp add: live table_ok_def)
  ultimately show "table_ok ?h"
    using ok inj' ks placed unfolding table_ok_def by (simp add: del)
  show "kh_lookup ?h = (kh_lookup h)(key := None)"
  proof
    fix k
    show "kh_lookup ?h k = ((kh_lookup h)(key := None)) k"
    proof (cases "k = key")
      case True
      have "keys h ! j \<noteq> Some key" if "j \<in> live h - {i}" for j
        using that iL inj_onD [OF inj, of j i] by auto
      then have "kh_find ?h key = None" unfolding kh_find_None live by (simp add: del)
      with True show ?thesis by (simp add: kh_lookup_def)
    next
      case False
      then show ?thesis
        using live iL kh_lookup_other [OF inj inj', of i k] by (simp add: del)
    qed
  qed
qed

text \<open>Storing the same key string again and a new value in the bucket of a key.\<close>

lemma table_assign:
  fixes v :: 'v
  assumes ok: "table_ok h" and i: "kh_find h key = Some i"
  defines "h' \<equiv> kh_set_value (kh_set_key h i key) i v"
  shows "table_ok h'" "kh_lookup h' = (kh_lookup h)(key \<mapsto> Some v)" "ksize h' = ksize h"
    "kh_find h' key = Some i"
proof -
  from kh_find_SomeD [OF i] have iL: "i \<in> live h" "keys h ! i = Some key" by auto
  have len: "i < length (vals h)" using ok live_less [OF iL(1)] by (simp add: table_ok_def)
  have keys: "keys h' = keys h" using iL(2) by (metis h'_def kh_set_key_def kh_set_value_def khash.select_convs(6)
      khash.surjective khash.update_convs(6,7) list_update_id)
  have live: "live h' = live h" and rest: "n_buckets h' = n_buckets h" "flags h' = flags h"
    "upper_bound h' = upper_bound h" "n_occupied h' = n_occupied h" "ksize h' = ksize h"
    "vals h' = (vals h)[i := Some v]"
    by (simp_all add: h'_def kh_set_key_def kh_set_value_def live_def)
  have inj: "inj_on (\<lambda>j. keys h ! j) (live h)" using ok by (simp add: table_ok_def)
  show "table_ok h'" using ok by (simp add: table_ok_def live rest keys)
  show "ksize h' = ksize h" by (rule rest)
  have find: "kh_find h' k = kh_find h k" for k
    by (simp add: kh_find_def kh_slots_def kh_exist_def [abs_def] rest keys)
  then show "kh_find h' key = Some i" using i by simp
  show "kh_lookup h' = (kh_lookup h)(key \<mapsto> Some v)"
  proof
    fix k
    show "kh_lookup h' k = ((kh_lookup h)(key \<mapsto> Some v)) k"
    proof (cases "k = key")
      case True
      then show ?thesis using i len by (simp add: kh_lookup_def find rest)
    next
      case False
      then show ?thesis
        using iL kh_lookup_other [OF inj, of h' i k] inj by (simp add: live keys rest)
    qed
  qed
qed

end
