(* ===== verification/String_Table.thy ===== *)
theory String_Table
  imports Khash_Update
begin

text \<open>
  The hash table behind the interface the database uses: fetch the value of a key, store a value
  under a key (\<open>kh_put\<close> and the two assignments that follow it in the callers), remove a key.  The
  locale \<open>string_table\<close> states the contract, a client lemma shows that any run of such operations
  computes on a map, and the interpretation discharges the contract for khash.
\<close>

section \<open>Operations of the callers\<close>

definition kh_fetch :: "'v khash \<Rightarrow> string \<Rightarrow> 'v option res" where
  "kh_fetch h key =
     rbind (kh_get h key) (\<lambda>k.
       if k \<noteq> n_buckets h then
         (case vals h ! k of None \<Rightarrow> Inl Uninitialised | Some v \<Rightarrow> Inr (Some v))
       else Inr None)"

definition kh_store :: "'v khash \<Rightarrow> string \<Rightarrow> 'v \<Rightarrow> (bool \<times> 'v khash) res" where
  \<comment> \<open>The flag says whether the key was present (\<^verbatim>\<open>ret == 0\<close>).\<close>
  "kh_store h key v =
     rbind (kh_put True True True h key) (\<lambda>(k, ret, h).
       if k \<ge> n_buckets h then Inl Out_Of_Bounds
       else Inr (ret = 0, kh_set_value (kh_set_key h k key) k v))"

definition kh_remove :: "'v khash \<Rightarrow> string \<Rightarrow> (bool \<times> 'v khash) res" where
  "kh_remove h key =
     rbind (kh_get h key) (\<lambda>k. if k \<noteq> n_buckets h then Inr (True, kh_del h k) else Inr (False, h))"

datatype 'v table_op = Fetch string | Store string 'v | Remove string

fun table_run ::
  "('h \<Rightarrow> string \<Rightarrow> 'v option res) \<Rightarrow> ('h \<Rightarrow> string \<Rightarrow> 'v \<Rightarrow> (bool \<times> 'h) res) \<Rightarrow>
   ('h \<Rightarrow> string \<Rightarrow> (bool \<times> 'h) res) \<Rightarrow> 'h \<Rightarrow> 'v table_op list \<Rightarrow> ('v option list \<times> 'h) res" where
  "table_run fetch store remove h [] = Inr ([], h)"
| "table_run fetch store remove h (Fetch k # ops) =
     rbind (fetch h k) (\<lambda>v. rbind (table_run fetch store remove h ops) (\<lambda>(vs, h). Inr (v # vs, h)))"
| "table_run fetch store remove h (Store k v # ops) =
     rbind (store h k v) (\<lambda>(_, h). table_run fetch store remove h ops)"
| "table_run fetch store remove h (Remove k # ops) =
     rbind (remove h k) (\<lambda>(_, h). table_run fetch store remove h ops)"

fun map_run :: "(string \<Rightarrow> 'v option) \<Rightarrow> 'v table_op list \<Rightarrow> 'v option list \<times> (string \<Rightarrow> 'v option)" where
  "map_run m [] = ([], m)"
| "map_run m (Fetch k # ops) = (case map_run m ops of (vs, m') \<Rightarrow> (m k # vs, m'))"
| "map_run m (Store k v # ops) = map_run (m(k \<mapsto> v)) ops"
| "map_run m (Remove k # ops) = map_run (m(k := None)) ops"

fun is_Store :: "'v table_op \<Rightarrow> bool" where
  "is_Store (Store _ _) = True"
| "is_Store _ = False"

definition stores :: "'v table_op list \<Rightarrow> nat" where
  "stores ops = length (filter is_Store ops)"

section \<open>Contract\<close>

text \<open>
  \<open>tab p h\<close> says that \<open>h\<close> is well formed after at most \<open>p\<close> stores, \<open>cap\<close> is the number of stores the
  implementation is good for.
\<close>

locale string_table =
  fixes tab :: "nat \<Rightarrow> 'h \<Rightarrow> bool"
    and look :: "'h \<Rightarrow> string \<Rightarrow> 'v option"
    and cap :: nat
    and fetch :: "'h \<Rightarrow> string \<Rightarrow> 'v option res"
    and store :: "'h \<Rightarrow> string \<Rightarrow> 'v \<Rightarrow> (bool \<times> 'h) res"
    and remove :: "'h \<Rightarrow> string \<Rightarrow> (bool \<times> 'h) res"
    and count :: "'h \<Rightarrow> nat"
  assumes fetch_ok: "tab p h \<Longrightarrow> fetch h k = Inr (look h k)"
    and store_ok: "tab p h \<Longrightarrow> p < cap \<Longrightarrow>
      \<exists>h'. store h k v = Inr (look h k \<noteq> None, h') \<and> tab (Suc p) h' \<and> look h' = (look h)(k \<mapsto> v)"
    and remove_ok: "tab p h \<Longrightarrow>
      \<exists>h'. remove h k = Inr (look h k \<noteq> None, h') \<and> tab p h' \<and> look h' = (look h)(k := None)"
    and count_ok: "tab p h \<Longrightarrow> finite (dom (look h)) \<and> count h = card (dom (look h))"
begin

lemma run_refines_map:
  "tab p h \<Longrightarrow> p + stores ops \<le> cap \<Longrightarrow>
   \<exists>h'. table_run fetch store remove h ops = Inr (fst (map_run (look h) ops), h') \<and>
     tab (p + stores ops) h' \<and> look h' = snd (map_run (look h) ops) \<and> count h' = card (dom (look h'))"
proof (induction ops arbitrary: h p)
  case Nil
  then show ?case using count_ok [of p h] by (simp add: stores_def)
next
  case (Cons op ops)
  show ?case
  proof (cases op)
    case (Fetch k)
    with Cons.prems Cons.IH [of p h] show ?thesis
      using fetch_ok [of p h k] by (auto simp: stores_def split: prod.splits)
  next
    case (Store k v)
    with Cons.prems obtain h1 where
      "store h k v = Inr (look h k \<noteq> None, h1)" "tab (Suc p) h1" "look h1 = (look h)(k \<mapsto> v)"
      using store_ok [of p h k v] by (auto simp: stores_def)
    with Store Cons.prems Cons.IH [of "Suc p" h1] show ?thesis
      by (auto simp: stores_def simp del: fun_upd_apply)
  next
    case (Remove k)
    with Cons.prems obtain h1 where
      "remove h k = Inr (look h k \<noteq> None, h1)" "tab p h1" "look h1 = (look h)(k := None)"
      using remove_ok [of p h k] by auto
    with Remove Cons.prems Cons.IH [of p h1] show ?thesis
      by (auto simp: stores_def simp del: fun_upd_apply)
  qed
qed

end

section \<open>Insertion, complete\<close>

definition make_room ::
  "bool \<Rightarrow> bool \<Rightarrow> bool \<Rightarrow> 'v khash \<Rightarrow> (int \<times> 'v khash) res" where
  "make_room a b c h =
     (if n_occupied h \<ge> upper_bound h then
        (if n_buckets h > u32 (push_bit 1 (ksize h)) then kh_resize a b c h (n_buckets h - 1)
         else kh_resize a b c h (n_buckets h + 1))
      else Inr (0, h))"

lemma table_ok_ksize:
  assumes "table_ok h"
  shows "ksize h \<le> n_occupied h" "ksize h < 2 ^ 31" "4 \<le> n_buckets h"
proof -
  from assms obtain k where k: "2 \<le> k" "k \<le> 31" "n_buckets h = 2 ^ k"
    and occ: "card (placed (n_buckets h) (flags h)) < n_buckets h" by (rule table_okE)
  show "4 \<le> n_buckets h" using k power_increasing [of 2 k "2 :: nat"] by simp
  have "live h \<subseteq> placed (n_buckets h) (flags h)"
    by (auto simp: live_def live_slots_def placed_def ac_iseither_eq)
  from card_mono [OF _ this] assms show *: "ksize h \<le> n_occupied h" by (simp add: table_ok_def)
  have "n_buckets h \<le> 2 ^ 31" unfolding k(3) using k(2) by (intro power_increasing) auto
  with * occ assms show "ksize h < 2 ^ 31" by (simp add: table_ok_def)
qed

text \<open>
  A full table is rehashed in place when at most half of its buckets are live and doubled otherwise;
  the resize never refuses for lack of room.
\<close>

lemma make_room_target:
  assumes wf: "kh_wf h" and full: "n_occupied h \<ge> upper_bound h" and small: "n_buckets h < 2 ^ 31"
  shows "\<exists>m k. make_room a b c h = kh_resize a b c h m \<and> round_size m = 2 ^ k \<and> 2 \<le> k \<and> k \<le> 31 \<and>
    ksize h < hash_upper (2 ^ k) \<and> 2 ^ k \<le> max (n_buckets h) (4 * (ksize h + 1))"
proof (cases "table_ok h")
  case True
  then obtain k where k: "2 \<le> k" "k \<le> 31" "n_buckets h = 2 ^ k" by (rule table_okE)
  note size = table_ok_ksize [OF True]
  have double: "u32 (push_bit 1 (ksize h)) = 2 * ksize h" using size(2) by (simp add: u32_def)
  show ?thesis
  proof (cases "n_buckets h > 2 * ksize h")
    case True
    have "make_room a b c h = kh_resize a b c h (2 ^ k - 1)"
      using full True unfolding make_room_def double k(3) by simp
    moreover have "round_size (2 ^ k - 1) = 2 ^ k"
      using kroundup32_below [OF k(1,2)] size(3) k(3) by (simp add: round_size_def)
    ultimately show ?thesis
      using k True hash_upper_half [OF True size(3)] by (intro exI [of _ "2 ^ k - 1"] exI [of _ k]) simp
  next
    case False
    have k30: "k \<le> 30"
    proof (rule ccontr)
      assume "\<not> k \<le> 30"
      then have "(2 :: nat) ^ 31 \<le> 2 ^ k" by (intro power_increasing) auto
      with small k(3) show False by simp
    qed
    have "make_room a b c h = kh_resize a b c h (2 ^ k + 1)"
      using full False unfolding make_room_def double k(3) by simp
    moreover have "round_size (2 ^ k + 1) = 2 ^ Suc k"
      using kroundup32_above [OF k(1) k30] size(3) k(3) by (simp add: round_size_def)
    moreover have "ksize h \<le> hash_upper (n_buckets h)" using size(1) True by (simp add: table_ok_def)
    ultimately show ?thesis
      using k k30 False hash_upper_double [OF size(3)] by (intro exI [of _ "2 ^ k + 1"] exI [of _ "Suc k"]) simp
  qed
next
  case False
  with wf have "n_buckets h = 0" "ksize h = 0" "n_occupied h = 0" "upper_bound h = 0" by (auto simp: kh_wf_def)
  moreover have "round_size 1 = 2 ^ 2" by (simp add: round_size_def kroundup32_one)
  ultimately show ?thesis
    by (intro exI [of _ 1] exI [of _ 2]) (simp add: make_room_def hash_upper_def u32_def)
qed

lemma make_room_ok:
  assumes wf: "kh_wf h" and small: "n_buckets h < 2 ^ 31"
  shows "(\<exists>h'. make_room a b c h = Inr (0, h') \<and> table_ok h' \<and> n_occupied h' < upper_bound h' \<and>
      kh_lookup h' = kh_lookup h \<and> ksize h' = ksize h \<and>
      n_buckets h' \<le> max (n_buckets h) (4 * (ksize h + 1))) \<or>
    \<not> (a \<and> b \<and> c) \<and>
      (\<exists>h'. make_room a b c h = Inr (-1, h') \<and> kh_wf h' \<and> kh_lookup h' = kh_lookup h \<and>
        ksize h' = ksize h \<and> n_buckets h' = n_buckets h)"
proof (cases "n_occupied h \<ge> upper_bound h")
  case True
  from make_room_target [OF wf True small, of a b c] obtain m k where
    m: "make_room a b c h = kh_resize a b c h m" "round_size m = 2 ^ k" "2 \<le> k" "k \<le> 31"
    "ksize h < hash_upper (2 ^ k)" "2 ^ k \<le> max (n_buckets h) (4 * (ksize h + 1))" by blast
  from kh_resize_ok [OF wf m(2) refl m(3-5)] obtain h' where
    h': "kh_resize True True True h m = Inr (0, h')" "table_ok h'" "n_buckets h' = 2 ^ k"
    "ksize h' = ksize h" "n_occupied h' = ksize h"
    "entries (live h') (keys h') (vals h') = entries (live h) (keys h) (vals h)" by blast
  have "kh_lookup h' = kh_lookup h"
    using h'(2,6) wf by (intro kh_lookup_eqI) (simp_all add: kh_wf_def)
  moreover have "n_occupied h' < upper_bound h'" using h' m(5) by (simp add: table_ok_def)
  ultimately show ?thesis
    using kh_resize_alloc [OF wf, of a b c m] h' m by (cases "a \<and> b \<and> c") auto
next
  case False
  with wf show ?thesis by (auto simp: make_room_def kh_wf_def)
qed

lemma kh_put_make_room:
  "kh_put a b c h key = rbind (make_room a b c h) (\<lambda>(rc, h).
     if rc < 0 then Inr (n_buckets h, -1, h)
     else
       rbind (kh_put_slot h key) (\<lambda>x.
         if ac_isempty (flags h) x then
           Inr (x, 1, h\<lparr>keys := (keys h)[x := Some key], flags := ac_set_isboth_false (flags h) x,
                        ksize := u32 (ksize h + 1), n_occupied := u32 (n_occupied h + 1)\<rparr>)
         else if ac_isdel (flags h) x then
           Inr (x, 2, h\<lparr>keys := (keys h)[x := Some key], flags := ac_set_isboth_false (flags h) x,
                        ksize := u32 (ksize h + 1)\<rparr>)
         else Inr (x, 0, h)))"
  by (simp only: kh_put_def make_room_def)

definition put_result ::
  "'v khash \<Rightarrow> string \<Rightarrow> nat \<Rightarrow> int \<Rightarrow> 'v khash \<Rightarrow> bool" where
  \<comment> \<open>Bucket \<open>x\<close>, return code and table after a successful insertion.\<close>
  "put_result h key x ret h' \<longleftrightarrow>
     table_ok h' \<and> kh_find h' key = Some x \<and> (\<forall>k. k \<noteq> key \<longrightarrow> kh_lookup h' k = kh_lookup h k) \<and>
     (if kh_lookup h key = None then (ret = 1 \<or> ret = 2) \<and> ksize h' = ksize h + 1
      else ret = 0 \<and> kh_lookup h' key = kh_lookup h key \<and> ksize h' = ksize h)"

lemma kh_put_slot_step:
  assumes ok: "table_ok h" and room: "n_occupied h < upper_bound h"
  shows "\<exists>x ret h'. rbind (kh_put_slot h key) (\<lambda>x.
         if ac_isempty (flags h) x then
           Inr (x, 1, h\<lparr>keys := (keys h)[x := Some key], flags := ac_set_isboth_false (flags h) x,
                        ksize := u32 (ksize h + 1), n_occupied := u32 (n_occupied h + 1)\<rparr>)
         else if ac_isdel (flags h) x then
           Inr (x, 2, h\<lparr>keys := (keys h)[x := Some key], flags := ac_set_isboth_false (flags h) x,
                        ksize := u32 (ksize h + 1)\<rparr>)
         else Inr (x, 0, h)) = Inr (x, ret, h') \<and> put_result h key x ret h' \<and>
     n_buckets h' = n_buckets h"
proof (cases "kh_find h key")
  case None
  then have none: "kh_lookup h key = None" by (simp add: kh_lookup_def)
  from kh_put_slot_absent [OF ok None] obtain x t where
    slot: "kh_put_slot h key = Inr x" and x: "t < n_buckets h" "x = probe (n_buckets h) key t"
      "ac_iseither (flags h) x" "\<forall>u < t. \<not> ac_isempty (flags h) (probe (n_buckets h) key u)" by blast
  note ins = table_insert [OF ok room None x]
  show ?thesis
  proof (cases "ac_isempty (flags h) x")
    case True
    with ins none slot show ?thesis by (simp add: put_result_def)
  next
    case False
    moreover from False x(3) have "ac_isdel (flags h) x" by (simp add: ac_iseither_eq)
    ultimately show ?thesis using ins none slot by (simp add: put_result_def)
  qed
next
  case (Some i)
  from kh_find_SomeD [OF Some] have "\<not> ac_isempty (flags h) i" "\<not> ac_isdel (flags h) i"
    using live_table [OF live_less, of i h] by blast+
  with Some ok kh_put_slot_present [OF ok Some] show ?thesis
    by (simp add: put_result_def kh_lookup_def)
qed

lemma kh_put_correct:
  assumes wf: "kh_wf h" and small: "n_buckets h < 2 ^ 31"
  shows "\<exists>x ret h'. kh_put a b c h key = Inr (x, ret, h') \<and>
     (if ret = -1
      then \<not> (a \<and> b \<and> c) \<and> x = n_buckets h' \<and> kh_wf h' \<and> kh_lookup h' = kh_lookup h \<and> ksize h' = ksize h
      else put_result h key x ret h' \<and> n_buckets h' \<le> max (n_buckets h) (4 * (ksize h + 1)))"
  using make_room_ok [OF wf small, of a b c]
proof (elim disjE conjE exE)
  fix h1
  assume h1: "make_room a b c h = Inr (0, h1)" "table_ok h1" "n_occupied h1 < upper_bound h1"
    "kh_lookup h1 = kh_lookup h" "ksize h1 = ksize h" "n_buckets h1 \<le> max (n_buckets h) (4 * (ksize h + 1))"
  from kh_put_slot_step [OF h1(2,3), of key] obtain x ret h' where
    step: "kh_put a b c h key = Inr (x, ret, h')" "put_result h1 key x ret h'" "n_buckets h' = n_buckets h1"
    by (auto simp: kh_put_make_room h1(1))
  then have "put_result h key x ret h'" by (simp add: put_result_def h1)
  moreover from this have "ret \<noteq> -1" by (auto simp: put_result_def split: if_splits)
  ultimately show ?thesis using step h1(6) by auto
next
  fix h1
  assume "\<not> (a \<and> b \<and> c)" "make_room a b c h = Inr (-1, h1)" "kh_wf h1" "kh_lookup h1 = kh_lookup h"
    "ksize h1 = ksize h" "n_buckets h1 = n_buckets h"
  then show ?thesis by (auto simp: kh_put_make_room)
qed

section \<open>Khash provides the contract\<close>

definition kh_map :: "'v khash \<Rightarrow> string \<Rightarrow> 'v option" where
  "kh_map h key = (case kh_find h key of None \<Rightarrow> None | Some i \<Rightarrow> vals h ! i)"

definition kh_tab :: "nat \<Rightarrow> 'v khash \<Rightarrow> bool" where
  "kh_tab p h \<longleftrightarrow>
     kh_wf h \<and> (\<forall>k. kh_lookup h k \<noteq> Some None) \<and> ksize h \<le> p \<and> n_buckets h \<le> 4 * (p + 1)"

definition store_cap :: nat where
  "store_cap = 2 ^ 29 - 1"

lemma kh_map_lookup: "kh_map h k = Option.bind (kh_lookup h k) id"
  by (auto simp: kh_map_def kh_lookup_def split: option.split)

lemma kh_map_dom: "kh_tab p h \<Longrightarrow> kh_map h k = None \<longleftrightarrow> kh_lookup h k = None"
  unfolding kh_map_lookup kh_tab_def by (metis Option.bind_eq_None_conv bind.bind_lunit id_apply not_None_eq)

lemma kh_init_tab: "kh_tab 0 kh_init" "kh_map kh_init = Map.empty"
  by (auto simp: kh_tab_def kh_init_def kh_wf_def kh_lookup_def kh_map_def kh_find_def kh_slots_def)

lemma kh_fetch_ok: "kh_tab p h \<Longrightarrow> kh_fetch h k = Inr (kh_map h k)"
proof -
  assume tab: "kh_tab p h"
  then have get: "kh_get h k = Inr (case kh_find h k of Some i \<Rightarrow> i | None \<Rightarrow> n_buckets h)"
    by (intro kh_get_correct) (simp add: kh_tab_def)
  show ?thesis
  proof (cases "kh_find h k")
    case None
    with get show ?thesis by (simp add: kh_fetch_def kh_map_def)
  next
    case (Some i)
    moreover from this have "i \<noteq> n_buckets h" using kh_find_SomeD live_less by (metis less_irrefl)
    moreover from Some tab have "vals h ! i \<noteq> None" by (auto simp: kh_tab_def kh_lookup_def)
    ultimately show ?thesis using get by (auto simp: kh_fetch_def kh_map_def)
  qed
qed

lemma kh_store_ok:
  assumes tab: "kh_tab p h" and cap: "p < store_cap"
  shows "\<exists>h'. kh_store h k v = Inr (kh_map h k \<noteq> None, h') \<and> kh_tab (Suc p) h' \<and>
    kh_map h' = (kh_map h)(k \<mapsto> v)"
proof -
  have "kh_wf h" "n_buckets h < 2 ^ 31" using tab cap by (simp_all add: kh_tab_def store_cap_def)
  from kh_put_correct [OF this, of True True True k] obtain x ret h1 where
    put: "kh_put True True True h k = Inr (x, ret, h1)" "put_result h k x ret h1"
    "n_buckets h1 \<le> max (n_buckets h) (4 * (ksize h + 1))" by (metis (full_types))
  then have h1: "table_ok h1" "kh_find h1 k = Some x" by (simp_all add: put_result_def)
  let ?h = "kh_set_value (kh_set_key h1 x k) x v"
  note asg = table_assign [OF h1, of v]
  have "x < n_buckets h1" using h1(2) kh_find_SomeD live_less by blast
  moreover have "(ret = 0) = (kh_map h k \<noteq> None)"
    using put(2) kh_map_dom [OF tab, of k] by (auto simp: put_result_def split: if_splits)
  ultimately have "kh_store h k v = Inr (kh_map h k \<noteq> None, ?h)" by (simp add: kh_store_def put(1))
  moreover have look: "kh_lookup ?h = (kh_lookup h)(k \<mapsto> Some v)"
    unfolding asg(2) using put(2) by (auto simp: put_result_def fun_eq_iff)
  moreover have "kh_tab (Suc p) ?h"
  proof -
    have "n_buckets ?h = n_buckets h1" by (simp add: kh_set_value_def kh_set_key_def)
    moreover have "ksize h1 \<le> ksize h + 1" using put(2) by (auto simp: put_result_def split: if_splits)
    ultimately show ?thesis
      using asg(1,3) put(3) tab look by (auto simp: kh_tab_def kh_wf_def)
  qed
  moreover have "kh_map ?h = (kh_map h)(k \<mapsto> v)" by (auto simp: kh_map_lookup look fun_eq_iff)
  ultimately show ?thesis by blast
qed

lemma kh_remove_ok:
  assumes tab: "kh_tab p h"
  shows "\<exists>h'. kh_remove h k = Inr (kh_map h k \<noteq> None, h') \<and> kh_tab p h' \<and>
    kh_map h' = (kh_map h)(k := None)"
proof -
  have wf: "kh_wf h" using tab by (simp add: kh_tab_def)
  note get = kh_get_correct [OF wf, of k]
  show ?thesis
  proof (cases "kh_find h k")
    case None
    then have "kh_map h k = None" by (simp add: kh_map_def)
    with None get tab show ?thesis by (auto simp: kh_remove_def fun_eq_iff)
  next
    case (Some i)
    then have i: "i < n_buckets h" using kh_find_SomeD live_less by blast
    with wf have ok: "table_ok h" by (auto simp: kh_wf_def)
    note del = table_delete [OF ok Some]
    have "kh_map h k \<noteq> None" using Some kh_map_dom [OF tab] by (simp add: kh_lookup_def)
    moreover have "n_buckets (kh_del h i) = n_buckets h" by (simp add: kh_del_def)
    then have "kh_tab p (kh_del h i)"
      using del tab by (auto simp: kh_tab_def kh_wf_def)
    moreover have "kh_map (kh_del h i) = (kh_map h)(k := None)"
      by (auto simp: kh_map_lookup del(2) fun_eq_iff)
    ultimately show ?thesis using Some get i by (simp add: kh_remove_def)
  qed
qed

lemma kh_count_ok:
  assumes tab: "kh_tab p h"
  shows "finite (dom (kh_map h)) \<and> ksize h = card (dom (kh_map h))"
proof -
  have wf: "kh_wf h" using tab by (simp add: kh_tab_def)
  have "\<exists>k. keys h ! i = Some k" if "i \<in> live h" for i
    using that wf live_less [OF that] by (auto simp: kh_wf_def table_ok_def reachable_slot_def)
  then have "(\<lambda>i. keys h ! i) ` live h = Some ` dom (kh_map h)"
    unfolding dom_def mem_Collect_eq kh_map_dom [OF tab] using wf
    by (auto simp: image_iff kh_lookup_def kh_find_wf) (metis kh_find_wf)+
  then have "card (Some ` dom (kh_map h)) = ksize h" "finite (Some ` dom (kh_map h))"
    using card_image [OF kh_wf_inj [OF wf]] kh_wf_lengths(4) [OF wf] by (metis, metis finite_imageI finite_live)
  then show ?thesis by (simp add: card_image finite_image_iff)
qed

interpretation kh: string_table kh_tab kh_map store_cap kh_fetch kh_store kh_remove ksize
  by unfold_locales (fact kh_fetch_ok, fact kh_store_ok, fact kh_remove_ok, fact kh_count_ok)

section \<open>Properties\<close>

text \<open>
  C8 (refinement): any sequence of fetches, stores and removals on a fresh table, with fewer than
  \<open>2 ^ 29\<close> stores, terminates without fault, returns what the same sequence returns on a map, ends in
  a table that stands for the final map, and \<^verbatim>\<open>kh_size\<close> is the number of keys.
\<close>

theorem kh_refines_map:
  "stores ops \<le> store_cap \<Longrightarrow>
   \<exists>h. table_run kh_fetch kh_store kh_remove kh_init ops = Inr (fst (map_run Map.empty ops), h) \<and>
     kh_map h = snd (map_run Map.empty ops) \<and> ksize h = card (dom (kh_map h))"
  using kh.run_refines_map [OF kh_init_tab(1), of ops] by (auto simp: kh_init_tab(2))

theorem kh_refines_map_witness:
  "\<exists>h. table_run kh_fetch kh_store kh_remove kh_init
       [Store ''k'' (7 :: nat), Store ''l'' 8, Fetch ''k'', Remove ''k'', Fetch ''k'', Fetch ''l''] =
     Inr ([Some 7, None, Some 8], h) \<and> kh_map h ''k'' = None \<and> kh_map h ''l'' = Some 8"
  using kh_refines_map [of "[Store ''k'' (7 :: nat), Store ''l'' 8, Fetch ''k'', Remove ''k'', Fetch ''k'', Fetch ''l'']"]
  by (auto simp: stores_def store_cap_def)

text \<open>
  C19 (equivalence): the probing lookup finds exactly the bucket that a scan of the whole table
  finds, and returns \<^verbatim>\<open>n_buckets\<close> when there is none; it always terminates.
\<close>

theorem kh_get_is_scan:
  "kh_wf h \<Longrightarrow> kh_get h key = Inr (case kh_find h key of Some i \<Rightarrow> i | None \<Rightarrow> n_buckets h)"
  by (rule kh_get_correct)

theorem kh_get_is_scan_witness:
  "\<exists>h. kh_store kh_init ''a'' (1 :: nat) = Inr (False, h) \<and> kh_map h ''a'' = Some 1 \<and>
     (\<exists>i. kh_get h ''a'' = Inr i \<and> i < n_buckets h \<and> keys h ! i = Some ''a'')"
proof -
  from kh_store_ok [OF kh_init_tab(1), of "''a''" "1 :: nat"] obtain h where
    h: "kh_store kh_init ''a'' (1 :: nat) = Inr (False, h)" "kh_tab 1 h" "kh_map h ''a'' = Some 1"
    by (auto simp: store_cap_def kh_init_tab(2))
  then obtain i where i: "kh_find h ''a'' = Some i" by (auto simp: kh_map_def split: option.splits)
  have "kh_wf h" using h(2) by (simp add: kh_tab_def)
  from kh_get_is_scan [OF this, of "''a''"] h i kh_find_SomeD [OF i] live_less [of i h]
  show ?thesis by auto
qed

text \<open>
  C21 (error): whatever allocations fail, an insertion terminates; on failure it returns -1 and the
  end iterator and the table still stands for the same map, otherwise the key is in the returned
  bucket, all other keys are untouched, and the return code is 0 exactly when the key was there.
\<close>

theorem kh_put_total:
  "kh_wf h \<Longrightarrow> n_buckets h < 2 ^ 31 \<Longrightarrow>
   \<exists>x ret h'. kh_put a b c h key = Inr (x, ret, h') \<and>
     (if ret = -1
      then \<not> (a \<and> b \<and> c) \<and> x = n_buckets h' \<and> kh_wf h' \<and> kh_lookup h' = kh_lookup h \<and> ksize h' = ksize h
      else put_result h key x ret h')"
  using kh_put_correct [of h a b c key] by (auto split: if_splits)

theorem kh_put_total_witness:
  "\<exists>x ret h'. kh_put True False True (kh_init :: nat khash) ''k'' = Inr (x, ret, h') \<and> ret = -1 \<and>
     kh_lookup h' = kh_lookup (kh_init :: nat khash)"
proof -
  have "kh_put True False True (kh_init :: nat khash) ''k'' = Inr (0, -1, kh_init)"
    by (simp add: kh_put_def kh_resize_def kh_init_def kroundup32_def hash_upper_def Let_def u32_def)
  with kh_put_total [of "kh_init :: nat khash" True False True "''k''"] show ?thesis
    by (auto simp: kh_wf_def kh_init_def)
qed

text \<open>
  C20 (invariant): resizing to any power of two with room for the keys (the same size, larger or
  smaller) terminates, keeps the invariant and the map, and clears the deleted buckets.
\<close>

theorem kh_resize_keeps_map:
  assumes "kh_wf h" "round_size m = 2 ^ k" "2 \<le> k" "k \<le> 31" "ksize h < hash_upper (2 ^ k)"
  shows "\<exists>h'. kh_resize True True True h m = Inr (0, h') \<and> kh_wf h' \<and> n_buckets h' = 2 ^ k \<and>
    kh_lookup h' = kh_lookup h \<and> ksize h' = ksize h \<and> n_occupied h' = ksize h"
proof -
  from kh_resize_ok [OF assms(1,2) refl assms(3-5)] obtain h' where
    h': "kh_resize True True True h m = Inr (0, h')" "table_ok h'" "n_buckets h' = 2 ^ k"
    "ksize h' = ksize h" "n_occupied h' = ksize h"
    "entries (live h') (keys h') (vals h') = entries (live h) (keys h) (vals h)" by blast
  then have "kh_wf h'" by (simp add: kh_wf_def)
  with kh_lookup_eqI [OF this assms(1) h'(6)] h' show ?thesis by blast
qed

theorem kh_resize_keeps_map_witness:
  "round_size 100 = 2 ^ 7 \<and>
   (\<exists>h'. kh_resize True True True (kh_init :: nat khash) 100 = Inr (0, h') \<and> n_buckets h' = 128 \<and>
     kh_lookup h' = kh_lookup (kh_init :: nat khash))"
proof
  show round: "round_size 100 = 2 ^ 7" by (simp add: round_size_def kroundup32_def Let_def)
  have "kh_wf (kh_init :: nat khash)" by (simp add: kh_wf_def kh_init_def)
  from kh_resize_keeps_map [OF this round] show
    "\<exists>h'. kh_resize True True True (kh_init :: nat khash) 100 = Inr (0, h') \<and> n_buckets h' = 128 \<and>
     kh_lookup h' = kh_lookup (kh_init :: nat khash)"
    by (auto simp: kh_init_def hash_upper_def)
qed

end
