(* ===== verification/Linked_List.thy ===== *)
theory Linked_List
  imports Prelude
begin

text \<open>
  The doubly linked list of \<^verbatim>\<open>linked_list.c\<close>.  A list object owns its nodes: the model keeps them
  in a store from addresses to nodes, with the next address the allocator hands out.  Pointers
  are \<open>addr option\<close>, reading through a null or freed pointer is a fault, and \<open>malloc\<close> and
  \<open>strdup\<close> are given the outcome of the allocation as an argument.  The representation predicate
  \<open>list_rep\<close> relates the linked structure to the list of its strings.
\<close>

section \<open>State\<close>

type_synonym addr = nat

record Node =
  data :: string
  prev :: "addr option"
  next_node :: "addr option"

type_synonym store = "addr \<Rightarrow> Node option"

record list_struct =
  head :: "addr option"
  tail :: "addr option"
  len :: u64
  nodes :: store
  brk :: addr

definition deref :: "store \<Rightarrow> addr option \<Rightarrow> (addr \<times> Node) res" where
  "deref st p =
     (case p of
        None \<Rightarrow> Inl Null_Pointer
      | Some a \<Rightarrow> (case st a of None \<Rightarrow> Inl Use_After_Free | Some n \<Rightarrow> Inr (a, n)))"

definition int_of_size :: "u64 \<Rightarrow> int" where
  "int_of_size w = signed_take_bit 31 (uint w)"

definition size_of_int :: "int \<Rightarrow> u64" where
  "size_of_int i = word_of_int i"

section \<open>Operations\<close>

definition create_list :: "bool \<Rightarrow> u64 \<Rightarrow> list_struct option" where
  \<comment> \<open>\<open>garbage\<close>: the value of the field \<open>length\<close>, which the function does not set.\<close>
  "create_list malloc_ok garbage =
     (if \<not> malloc_ok then None
      else Some \<lparr>head = None, tail = None, len = garbage, nodes = Map.empty, brk = 0\<rparr>)"

partial_function (option) destroy_nodes :: "store \<Rightarrow> addr option \<Rightarrow> store res option" where
  "destroy_nodes st cur =
     (case cur of
        None \<Rightarrow> Some (Inr st)
      | Some a \<Rightarrow>
          (case st a of
             None \<Rightarrow> Some (Inl Use_After_Free)
           | Some n \<Rightarrow> destroy_nodes (st(a := None)) (next_node n)))"

definition destroy_list :: "list_struct option \<Rightarrow> store res option" where
  "destroy_list l =
     (case l of None \<Rightarrow> Some (Inr Map.empty) | Some L \<Rightarrow> destroy_nodes (nodes L) (head L))"

definition lpush ::
  "bool \<Rightarrow> bool \<Rightarrow> list_struct option \<Rightarrow> string option \<Rightarrow> int \<Rightarrow> (list_struct option \<times> int) res" where
  "lpush malloc_ok strdup_ok l d out =
     (case (l, d) of
        (Some L, Some x) \<Rightarrow>
          if \<not> malloc_ok then Inr (l, out)
          else if \<not> strdup_ok then Inr (l, out)
          else
            let a = brk L in
            if head L = None \<and> tail L = None then
              let L' = L\<lparr>head := Some a, tail := Some a, len := 1, brk := Suc a,
                         nodes := (nodes L)(a \<mapsto> \<lparr>data = x, prev = None, next_node = None\<rparr>)\<rparr>
              in Inr (Some L', int_of_size (len L'))
            else
              let st = (nodes L)(a \<mapsto> \<lparr>data = x, prev = None, next_node = head L\<rparr>) in
              rbind (deref st (head L)) (\<lambda>(h, n).
                let L' = L\<lparr>head := Some a, len := len L + 1, brk := Suc a,
                           nodes := st(h \<mapsto> n\<lparr>prev := Some a\<rparr>)\<rparr>
                in Inr (Some L', int_of_size (len L')))
      | _ \<Rightarrow> Inr (l, out))"

definition rpush ::
  "bool \<Rightarrow> bool \<Rightarrow> list_struct option \<Rightarrow> string option \<Rightarrow> int \<Rightarrow> (list_struct option \<times> int) res" where
  "rpush malloc_ok strdup_ok l d out =
     (case (l, d) of
        (Some L, Some x) \<Rightarrow>
          if \<not> malloc_ok then Inr (l, out)
          else if \<not> strdup_ok then Inr (l, out)
          else
            let a = brk L in
            if head L = None \<and> tail L = None then
              let L' = L\<lparr>head := Some a, tail := Some a, len := 1, brk := Suc a,
                         nodes := (nodes L)(a \<mapsto> \<lparr>data = x, prev = None, next_node = None\<rparr>)\<rparr>
              in Inr (Some L', int_of_size (len L'))
            else
              let st = (nodes L)(a \<mapsto> \<lparr>data = x, prev = tail L, next_node = None\<rparr>) in
              rbind (deref st (tail L)) (\<lambda>(t, n).
                let L' = L\<lparr>tail := Some a, len := len L + 1, brk := Suc a,
                           nodes := st(t \<mapsto> n\<lparr>next_node := Some a\<rparr>)\<rparr>
                in Inr (Some L', int_of_size (len L')))
      | _ \<Rightarrow> Inr (l, out))"

primrec skip_nodes :: "nat \<Rightarrow> store \<Rightarrow> addr option \<Rightarrow> addr option res" where
  "skip_nodes 0 st cur = Inr cur"
| "skip_nodes (Suc i) st cur =
     (if cur = None then Inr cur
      else rbind (deref st cur) (\<lambda>(_, n). skip_nodes i st (next_node n)))"

text \<open>
  The copying loop: \<open>None\<close> when a \<^verbatim>\<open>strdup\<close> fails, otherwise the copied strings and the final
  cursor.  \<open>strdup_ok i\<close> is the outcome of the allocation for element \<open>i\<close>.
\<close>

primrec copy_nodes ::
  "nat \<Rightarrow> (nat \<Rightarrow> bool) \<Rightarrow> nat \<Rightarrow> store \<Rightarrow> addr option \<Rightarrow> (string list \<times> addr option) option res" where
  "copy_nodes 0 strdup_ok i st cur = Inr (Some ([], cur))"
| "copy_nodes (Suc k) strdup_ok i st cur =
     (if cur = None then Inr (Some ([], cur))
      else rbind (deref st cur) (\<lambda>(_, n).
        if \<not> strdup_ok i then Inr None
        else rbind (copy_nodes k strdup_ok (Suc i) st (next_node n)) (\<lambda>r.
          Inr (map_option (\<lambda>(xs, c). (data n # xs, c)) r))))"

definition lrange ::
  "bool \<Rightarrow> (nat \<Rightarrow> bool) \<Rightarrow> list_struct option \<Rightarrow> int \<Rightarrow> int \<Rightarrow> (string list option \<times> int) res" where
  "lrange malloc_ok strdup_ok l start stop =
     (case l of
        None \<Rightarrow> Inr (None, 0)
      | Some L \<Rightarrow>
          let start = (if start < 0 then int_of_size (len L + size_of_int start) else start);
              stop = (if stop < 0 then int_of_size (len L + size_of_int stop) else stop)
          in
          if start < 0 \<or> size_of_int start \<ge> len L \<or> stop < start then Inr (None, 0)
          else
            let stop = (if size_of_int stop \<ge> len L then int_of_size (len L - 1) else stop);
                count = stop - start + 1
            in rbind (require Signed_Overflow (count \<le> INT_MAX)) (\<lambda>_.
              if \<not> malloc_ok then Inr (None, 0)
              else
                rbind (skip_nodes (nat start) (nodes L) (head L)) (\<lambda>cur.
                rbind (copy_nodes (nat count) strdup_ok 0 (nodes L) cur) (\<lambda>r.
                  case r of
                    None \<Rightarrow> Inr (None, count)
                  | Some (xs, cur) \<Rightarrow>
                      Inr (Some xs, if cur = None \<and> int (length xs) < count then int (length xs)
                                    else count)))))"

definition get_list_length :: "list_struct option \<Rightarrow> u64" where
  "get_list_length l = (case l of None \<Rightarrow> 0 | Some L \<Rightarrow> len L)"

definition cleanup_lrange_result :: "string list option \<Rightarrow> int \<Rightarrow> unit res" where
  "cleanup_lrange_result result range_length =
     (if range_length \<le> 0 then Inr ()
      else case result of
        None \<Rightarrow> Inl Null_Pointer
      | Some xs \<Rightarrow> require Out_Of_Bounds (range_length \<le> int (length xs)))"

section \<open>Representation\<close>

definition first_of :: "'a list \<Rightarrow> 'a option" where
  "first_of xs = (case xs of [] \<Rightarrow> None | x # _ \<Rightarrow> Some x)"

definition last_of :: "'a list \<Rightarrow> 'a option" where
  "last_of xs = (if xs = [] then None else Some (last xs))"

text \<open>\<open>dll st p as xs\<close>: the addresses \<open>as\<close> form a doubly linked chain holding \<open>xs\<close>, whose first
  node points back to \<open>p\<close> and whose last node points on to nothing.\<close>

fun dll :: "store \<Rightarrow> addr option \<Rightarrow> addr list \<Rightarrow> string list \<Rightarrow> bool" where
  "dll st p [] [] = True"
| "dll st p (a # as) (x # xs) =
     (st a = Some \<lparr>data = x, prev = p, next_node = first_of as\<rparr> \<and> dll st (Some a) as xs)"
| "dll st p _ _ = False"

definition list_rep_at :: "addr list \<Rightarrow> list_struct \<Rightarrow> string list \<Rightarrow> bool" where
  "list_rep_at as L xs \<longleftrightarrow>
     distinct as \<and> dll (nodes L) None as xs \<and> head L = first_of as \<and> tail L = last_of as \<and>
     dom (nodes L) = set as \<and> (\<forall>a \<in> set as. a < brk L) \<and>
     (xs \<noteq> [] \<longrightarrow> len L = of_nat (length xs))"

definition list_rep :: "list_struct \<Rightarrow> string list \<Rightarrow> bool" where
  "list_rep L xs \<longleftrightarrow> (\<exists>as. list_rep_at as L xs)"


definition lrange_spec :: "string list \<Rightarrow> int \<Rightarrow> int \<Rightarrow> string list" where
  "lrange_spec xs start stop =
     (let n = int (length xs);
          s = (if start < 0 then n + start else start);
          e = (if stop < 0 then n + stop else stop)
      in if s < 0 \<or> s \<ge> n \<or> e < s then []
         else take (nat (min e (n - 1) - s + 1)) (drop (nat s) xs))"

section \<open>Chains\<close>

lemma first_of_simps [simp]: "first_of [] = None" "first_of (x # xs) = Some x"
  by (simp_all add: first_of_def)

lemma last_of_simps [simp]: "last_of [] = None" "last_of (xs @ [x]) = Some x"
  by (simp_all add: last_of_def)

lemma first_of_eq_None [simp]: "first_of xs = None \<longleftrightarrow> xs = []"
  by (cases xs) simp_all

lemma last_of_eq_None [simp]: "last_of xs = None \<longleftrightarrow> xs = []"
  by (simp add: last_of_def)

lemma last_of_Cons [simp]: "last_of (x # xs) = (if xs = [] then Some x else last_of xs)"
  by (simp add: last_of_def)

lemma first_of_append [simp]: "first_of (xs @ ys) = (if xs = [] then first_of ys else first_of xs)"
  by (cases xs) simp_all

lemma dll_Nil_iff [simp]: "dll st p [] xs \<longleftrightarrow> xs = []" "dll st p as [] \<longleftrightarrow> as = []"
  by (cases xs; simp) (cases as; simp)

lemma dll_length: "dll st p as xs \<Longrightarrow> length as = length xs"
  by (induction st p as xs rule: dll.induct) simp_all

lemma dll_frame: "(\<And>a. a \<in> set as \<Longrightarrow> st' a = st a) \<Longrightarrow> dll st' p as xs = dll st p as xs"
  by (induction st p as xs rule: dll.induct) simp_all

lemma dll_snoc:
  "dll st p (as @ [t]) (xs @ [y]) \<Longrightarrow> a \<notin> set as \<Longrightarrow> a \<noteq> t \<Longrightarrow> t \<notin> set as \<Longrightarrow>
   \<exists>q. st t = Some \<lparr>data = y, prev = q, next_node = None\<rparr> \<and>
     dll (st(a \<mapsto> \<lparr>data = x, prev = Some t, next_node = None\<rparr>,
             t \<mapsto> \<lparr>data = y, prev = q, next_node = Some a\<rparr>)) p (as @ [t, a]) (xs @ [y, x])"
proof (induction as arbitrary: p xs)
  case Nil
  then have "xs = []" using dll_length [of st p "[t]" "xs @ [y]"] by simp
  with Nil show ?case by simp
next
  case (Cons b as)
  then obtain z zs where xs: "xs = z # zs"
    using dll_length [OF Cons.prems(1)] by (cases xs) auto
  from Cons.prems xs have rest: "dll st (Some b) (as @ [t]) (zs @ [y])" by simp
  have "a \<notin> set as" "t \<notin> set as" using Cons.prems by simp_all
  from Cons.IH [OF rest this(1) Cons.prems(3) this(2)] obtain q where
    "st t = Some \<lparr>data = y, prev = q, next_node = None\<rparr>"
    "dll (st(a \<mapsto> \<lparr>data = x, prev = Some t, next_node = None\<rparr>,
             t \<mapsto> \<lparr>data = y, prev = q, next_node = Some a\<rparr>)) (Some b) (as @ [t, a]) (zs @ [y, x])"
    by blast
  moreover define st' where "st' = st(a \<mapsto> \<lparr>data = x, prev = Some t, next_node = None\<rparr>,
             t \<mapsto> \<lparr>data = y, prev = q, next_node = Some a\<rparr>)"
  moreover have "st' b = st b" using Cons.prems by (simp add: st'_def)
  ultimately have "st t = Some \<lparr>data = y, prev = q, next_node = None\<rparr> \<and>
      dll st' p ((b # as) @ [t, a]) (xs @ [y, x])"
    using Cons.prems(1) xs by simp
  then show ?case unfolding st'_def by blast
qed

lemma skip_nodes_dll:
  "dll st p as xs \<Longrightarrow> \<exists>q. skip_nodes n st (first_of as) = Inr (first_of (drop n as)) \<and>
     dll st q (drop n as) (drop n xs)"
proof (induction n arbitrary: p as xs)
  case 0
  then show ?case by auto
next
  case (Suc n)
  show ?case
  proof (cases as)
    case Nil
    with Suc.prems show ?thesis by simp
  next
    case (Cons a as')
    with Suc.prems obtain x xs' where xs: "xs = x # xs'" by (cases xs) auto
    with Suc.prems Cons have "dll st (Some a) as' xs'" by simp
    from Suc.IH [OF this] Suc.prems Cons xs show ?thesis by (simp add: deref_def)
  qed
qed

lemma copy_nodes_dll:
  "dll st p as xs \<Longrightarrow>
   copy_nodes k (\<lambda>_. True) i st (first_of as) = Inr (Some (take k xs, first_of (drop k as)))"
proof (induction k arbitrary: p as xs i)
  case 0
  then show ?case by simp
next
  case (Suc k)
  show ?case
  proof (cases as)
    case Nil
    with Suc.prems show ?thesis by simp
  next
    case (Cons a as')
    with Suc.prems obtain x xs' where xs: "xs = x # xs'" by (cases xs) auto
    with Suc.prems Cons have "dll st (Some a) as' xs'" by simp
    from Suc.IH [OF this] Suc.prems Cons xs show ?thesis by (simp add: deref_def)
  qed
qed

lemma destroy_nodes_dll:
  "dll st p as xs \<Longrightarrow> distinct as \<Longrightarrow>
   destroy_nodes st (first_of as) = Some (Inr (\<lambda>a. if a \<in> set as then None else st a))"
proof (induction as arbitrary: st p xs)
  case Nil
  then show ?case by (subst destroy_nodes.simps) simp
next
  case (Cons a as)
  then obtain x xs' where xs: "xs = x # xs'" by (cases xs) auto
  with Cons.prems have "dll st (Some a) as xs'" by simp
  then have "dll (st(a := None)) (Some a) as xs'"
    using Cons.prems by (subst dll_frame [where st = st]) auto
  from Cons.IH [OF this] Cons.prems xs
  have "destroy_nodes st (first_of (a # as)) =
      Some (Inr (\<lambda>b. if b \<in> set as then None else (st(a := None)) b))"
    by (subst destroy_nodes.simps) (simp del: fun_upd_apply)
  moreover have "(\<lambda>b. if b \<in> set as then None else (st(a := None)) b) =
      (\<lambda>b. if b \<in> set (a # as) then None else st b)"
    by auto
  ultimately show ?case by (simp del: fun_upd_apply)
qed

section \<open>The operations on represented lists\<close>

lemma create_list_rep: "create_list True g = Some L \<Longrightarrow> list_rep L []"
  by (auto simp: create_list_def list_rep_def list_rep_at_def intro: exI [of _ "[]"])

lemma lpush_rep:
  assumes "list_rep L xs"
  shows "\<exists>L'. lpush True True (Some L) (Some x) out =
      Inr (Some L', int_of_size (of_nat (length (x # xs)))) \<and> list_rep L' (x # xs)"
proof -
  from assms obtain as where rep: "list_rep_at as L xs" by (auto simp: list_rep_def)
  then have fresh: "brk L \<notin> set as" by (auto simp: list_rep_at_def)
  show ?thesis
  proof (cases as)
    case Nil
    with rep have "xs = []" by (simp add: list_rep_at_def)
    with Nil rep show ?thesis
      by (auto simp: list_rep_at_def list_rep_def lpush_def Let_def intro!: exI [of _ "[brk L]"])
  next
    case (Cons b bs)
    with rep obtain y ys where xs: "xs = y # ys" by (cases xs) (auto simp: list_rep_at_def)
    let ?a = "brk L"
    let ?n = "\<lparr>data = y, prev = Some ?a, next_node = first_of bs\<rparr>"
    let ?st = "(nodes L)(?a \<mapsto> \<lparr>data = x, prev = None, next_node = Some b\<rparr>, b \<mapsto> ?n)"
    let ?L = "L\<lparr>head := Some ?a, len := len L + 1, brk := Suc ?a, nodes := ?st\<rparr>"
    from rep Cons xs have b: "nodes L b = Some \<lparr>data = y, prev = None, next_node = first_of bs\<rparr>"
      and bs: "dll (nodes L) (Some b) bs ys" and dist: "distinct (b # bs)"
      by (auto simp: list_rep_at_def)
    have "dll ?st (Some b) bs ys"
      using bs dist fresh Cons by (subst dll_frame [where st = "nodes L"]) auto
    with rep Cons xs fresh b have "list_rep_at (?a # as) ?L (x # xs)"
      by (auto simp: list_rep_at_def less_SucI)
    moreover have "lpush True True (Some L) (Some x) out =
        Inr (Some ?L, int_of_size (of_nat (length (x # xs))))"
      using rep Cons xs fresh b
      by (auto simp: lpush_def Let_def deref_def list_rep_at_def ac_simps)
    ultimately show ?thesis by (auto simp: list_rep_def)
  qed
qed

lemma rpush_rep:
  assumes "list_rep L xs"
  shows "\<exists>L'. rpush True True (Some L) (Some x) out =
      Inr (Some L', int_of_size (of_nat (length (xs @ [x])))) \<and> list_rep L' (xs @ [x])"
proof -
  from assms obtain as where rep: "list_rep_at as L xs" by (auto simp: list_rep_def)
  then have fresh: "brk L \<notin> set as" by (auto simp: list_rep_at_def)
  show ?thesis
  proof (cases as rule: rev_cases)
    case Nil
    with rep have "xs = []" by (simp add: list_rep_at_def)
    with Nil rep show ?thesis
      by (auto simp: list_rep_at_def list_rep_def rpush_def Let_def intro!: exI [of _ "[brk L]"])
  next
    case (snoc bs t)
    with rep have dll: "dll (nodes L) None (bs @ [t]) xs" by (simp add: list_rep_at_def)
    from dll_length [OF dll] obtain ys y where xs: "xs = ys @ [y]"
      by (cases xs rule: rev_cases) auto
    let ?a = "brk L"
    from dll_snoc [of "nodes L" None bs t ys y ?a x] dll xs fresh snoc rep
    obtain q where t: "nodes L t = Some \<lparr>data = y, prev = q, next_node = None\<rparr>"
      and chain: "dll ((nodes L)(?a \<mapsto> \<lparr>data = x, prev = Some t, next_node = None\<rparr>,
             t \<mapsto> \<lparr>data = y, prev = q, next_node = Some ?a\<rparr>)) None (bs @ [t, ?a]) (ys @ [y, x])"
      by (auto simp: list_rep_at_def)
    let ?st = "(nodes L)(?a \<mapsto> \<lparr>data = x, prev = Some t, next_node = None\<rparr>,
             t \<mapsto> \<lparr>data = y, prev = q, next_node = Some ?a\<rparr>)"
    let ?L = "L\<lparr>tail := Some ?a, len := len L + 1, brk := Suc ?a, nodes := ?st\<rparr>"
    have "list_rep_at (bs @ [t, ?a]) ?L (xs @ [x])"
      using rep snoc xs fresh chain
      by (auto simp: list_rep_at_def less_SucI last_of_def)
    moreover have "rpush True True (Some L) (Some x) out =
        Inr (Some ?L, int_of_size (of_nat (length (xs @ [x]))))"
      using rep snoc xs fresh t
      by (auto simp: rpush_def Let_def deref_def list_rep_at_def ac_simps)
    ultimately show ?thesis by (auto simp: list_rep_def)
  qed
qed


lemma int_of_size_of_int:
  "INT_MIN \<le> i \<Longrightarrow> i \<le> INT_MAX \<Longrightarrow> int_of_size (word_of_int i) = i"
  by (simp add: int_of_size_def unsigned_of_int signed_take_bit_take_bit
      signed_take_bit_int_eq_self_iff c_limits)

lemma int_of_size_add:
  assumes "INT_MIN \<le> int n + i" "int n + i \<le> INT_MAX"
  shows "int_of_size (of_nat n + size_of_int i) = int n + i"
proof -
  have "(of_nat n + size_of_int i :: u64) = word_of_int (int n + i)"
    by (simp add: size_of_int_def)
  with assms show ?thesis by (simp only: int_of_size_of_int)
qed

lemma size_of_int_le_iff:
  assumes "0 \<le> i" "i < 2 ^ 63" "n < 2 ^ 63"
  shows "(of_nat n :: u64) \<le> size_of_int i \<longleftrightarrow> int n \<le> i"
proof -
  have "size_of_int i = (of_nat (nat i) :: u64)"
    using assms(1) by (simp add: size_of_int_def)
  moreover have "unat (of_nat n :: u64) = n" using assms(3) by (intro unat_of_nat_64) simp
  moreover have "unat (of_nat (nat i) :: u64) = nat i"
    using assms(1,2) by (intro unat_of_nat_64) simp
  ultimately show ?thesis using assms(1) by (simp add: word_le_nat_alt nat_le_iff le_nat_iff)
qed

lemma lrange_rep:
  assumes rep: "list_rep L xs" and ne: "xs \<noteq> []" and len: "int (length xs) \<le> INT_MAX"
    and start: "INT_MIN \<le> start" "start \<le> INT_MAX" and stop: "INT_MIN \<le> stop" "stop \<le> INT_MAX"
  shows "\<exists>r. lrange True (\<lambda>_. True) (Some L) start stop =
      Inr (r, int (length (lrange_spec xs start stop))) \<and>
    (case r of None \<Rightarrow> lrange_spec xs start stop = [] | Some ys \<Rightarrow> ys = lrange_spec xs start stop)"
proof -
  from rep obtain as where "list_rep_at as L xs" by (auto simp: list_rep_def)
  with ne have dll: "dll (nodes L) None as xs" and hd: "head L = first_of as"
    and lenL: "len L = of_nat (length xs)" by (auto simp: list_rep_at_def)
  let ?n = "int (length xs)"
  define s where "s = (if start < 0 then ?n + start else start)"
  define e where "e = (if stop < 0 then ?n + stop else stop)"
  have n0: "0 < ?n" using ne by simp
  have s_eq: "(if start < 0 then int_of_size (len L + size_of_int start) else start) = s"
    and e_eq: "(if stop < 0 then int_of_size (len L + size_of_int stop) else stop) = e"
    using start stop len n0 by (auto simp: s_def e_def lenL c_limits intro!: int_of_size_add)
  have bnd: "s \<le> INT_MAX" "e \<le> INT_MAX" using start stop len by (auto simp: s_def e_def)
  have last: "int_of_size (len L - 1) = ?n - 1"
    using int_of_size_add [of "length xs" "-1"] len n0
    by (simp add: lenL size_of_int_def c_limits)
  note limits = c_limits bnd
  have spec: "lrange_spec xs start stop =
      (if s < 0 \<or> s \<ge> ?n \<or> e < s then [] else take (nat (min e (?n - 1) - s + 1)) (drop (nat s) xs))"
    by (simp add: lrange_spec_def s_def e_def Let_def)
  show ?thesis
  proof (cases "s < 0 \<or> s \<ge> ?n \<or> e < s")
    case True
    then have "s < 0 \<or> size_of_int s \<ge> len L \<or> e < s"
      using size_of_int_le_iff [of s "length xs"] len bnd by (auto simp: lenL c_limits)
    then show ?thesis using True spec
      by (auto simp: lrange_def s_eq e_eq Let_def)
  next
    case False
    then have ok: "\<not> (s < 0 \<or> size_of_int s \<ge> len L \<or> e < s)"
      using size_of_int_le_iff [of s "length xs"] len bnd by (auto simp: lenL c_limits)
    have clamp: "(if size_of_int e \<ge> len L then int_of_size (len L - 1) else e) = min e (?n - 1)"
      using False size_of_int_le_iff [of e "length xs"] len bnd last by (auto simp: lenL c_limits)
    let ?c = "min e (?n - 1) - s + 1"
    have c: "0 < ?c" "?c \<le> INT_MAX" "s + ?c \<le> ?n" using False len by auto
    from skip_nodes_dll [OF dll, of "nat s"] obtain q where
      skip: "skip_nodes (nat s) (nodes L) (head L) = Inr (first_of (drop (nat s) as))"
      and rest: "dll (nodes L) q (drop (nat s) as) (drop (nat s) xs)" using hd by auto
    have "length (take (nat ?c) (drop (nat s) xs)) = nat ?c" using c False by auto
    then show ?thesis
      using False spec c ok
      by (auto simp: lrange_def s_eq e_eq clamp Let_def skip copy_nodes_dll [OF rest])
  qed
qed


section \<open>The interface the database uses\<close>

datatype push_op = PushLeft string | PushRight string

fun push_spec :: "string list \<Rightarrow> push_op list \<Rightarrow> string list" where
  "push_spec xs [] = xs"
| "push_spec xs (PushLeft x # ops) = push_spec (x # xs) ops"
| "push_spec xs (PushRight x # ops) = push_spec (xs @ [x]) ops"

fun push_run ::
  "('l \<Rightarrow> string \<Rightarrow> int \<Rightarrow> ('l \<times> int) res) \<Rightarrow> ('l \<Rightarrow> string \<Rightarrow> int \<Rightarrow> ('l \<times> int) res) \<Rightarrow>
   'l \<times> int \<Rightarrow> push_op list \<Rightarrow> ('l \<times> int) res" where
  "push_run pl pr (l, out) [] = Inr (l, out)"
| "push_run pl pr (l, out) (PushLeft x # ops) = rbind (pl l x out) (\<lambda>r. push_run pl pr r ops)"
| "push_run pl pr (l, out) (PushRight x # ops) = rbind (pr l x out) (\<lambda>r. push_run pl pr r ops)"

lemma push_spec_left: "push_spec xs (map PushLeft ys) = rev ys @ xs"
  by (induction ys arbitrary: xs) simp_all

lemma push_spec_right: "push_spec xs (map PushRight ys) = xs @ ys"
  by (induction ys arbitrary: xs) simp_all

lemma length_push_spec: "length (push_spec xs ops) = length xs + length ops"
  by (induction xs ops rule: push_spec.induct) simp_all

locale list_object =
  fixes rep :: "'l \<Rightarrow> string list \<Rightarrow> bool"
    and push_left :: "'l \<Rightarrow> string \<Rightarrow> int \<Rightarrow> ('l \<times> int) res"
    and push_right :: "'l \<Rightarrow> string \<Rightarrow> int \<Rightarrow> ('l \<times> int) res"
  assumes left_ok: "rep l xs \<Longrightarrow>
      \<exists>l'. push_left l x out = Inr (l', int_of_size (of_nat (Suc (length xs)))) \<and> rep l' (x # xs)"
    and right_ok: "rep l xs \<Longrightarrow>
      \<exists>l'. push_right l x out = Inr (l', int_of_size (of_nat (Suc (length xs)))) \<and> rep l' (xs @ [x])"
begin

lemma pushes_ok:
  "rep l xs \<Longrightarrow>
   \<exists>l'. push_run push_left push_right (l, out) ops =
       Inr (l', if ops = [] then out else int_of_size (of_nat (length xs + length ops))) \<and>
     rep l' (push_spec xs ops)"
proof (induction ops arbitrary: l xs out)
  case Nil
  then show ?case by simp
next
  case (Cons op ops)
  obtain x where "op = PushLeft x \<or> op = PushRight x" by (cases op) auto
  moreover have ?case if op: "op = PushLeft x"
  proof -
    from left_ok [OF Cons.prems] obtain l1 where
      l1: "push_left l x out = Inr (l1, int_of_size (of_nat (Suc (length xs))))" "rep l1 (x # xs)"
      by blast
    with Cons.IH [OF l1(2), of "int_of_size (of_nat (Suc (length xs)))"] op show ?thesis
      by (auto simp: ac_simps)
  qed
  moreover have ?case if op: "op = PushRight x"
  proof -
    from right_ok [OF Cons.prems] obtain l1 where
      l1: "push_right l x out = Inr (l1, int_of_size (of_nat (Suc (length xs))))" "rep l1 (xs @ [x])"
      by blast
    with Cons.IH [OF l1(2), of "int_of_size (of_nat (Suc (length xs)))"] op show ?thesis
      by (auto simp: ac_simps)
  qed
  ultimately show ?case by blast
qed

end

definition list_repo :: "list_struct option \<Rightarrow> string list \<Rightarrow> bool" where
  "list_repo l xs = (case l of None \<Rightarrow> False | Some L \<Rightarrow> list_rep L xs)"

interpretation ll: list_object list_repo
  "\<lambda>l x out. lpush True True l (Some x) out" "\<lambda>l x out. rpush True True l (Some x) out"
proof unfold_locales
  fix l xs x out
  assume "list_repo l xs"
  then obtain L where l: "l = Some L" "list_rep L xs" by (auto simp: list_repo_def split: option.splits)
  from lpush_rep [OF l(2), of x out] l(1)
  show "\<exists>l'. lpush True True l (Some x) out = Inr (l', int_of_size (of_nat (Suc (length xs)))) \<and>
      list_repo l' (x # xs)"
    by (auto simp: list_repo_def)
  from rpush_rep [OF l(2), of x out] l(1)
  show "\<exists>l'. rpush True True l (Some x) out = Inr (l', int_of_size (of_nat (Suc (length xs)))) \<and>
      list_repo l' (xs @ [x])"
    by (auto simp: list_repo_def)
qed

section \<open>Properties\<close>

text \<open>
  C13 (refinement): from a freshly created list, every sequence of \<open>lpush\<close> and \<open>rpush\<close> calls
  (allocations succeeding) runs without touching a null or freed node and leaves a well-linked
  chain, in both directions, that holds exactly the strings pushed, in deque order; the length
  reported by the last call is the number of elements (as an \<^verbatim>\<open>int\<close>), whatever value the
  uninitialised length field of the new list had.
\<close>

theorem pushes_refine_deque:
  assumes "create_list True garbage = Some L"
  shows "\<exists>L'. push_run (\<lambda>l x out. lpush True True l (Some x) out)
        (\<lambda>l x out. rpush True True l (Some x) out) (Some L, 0) ops =
      Inr (Some L', if ops = [] then 0 else int_of_size (of_nat (length ops))) \<and>
    list_rep L' (push_spec [] ops)"
proof -
  from create_list_rep [OF assms] have "list_repo (Some L) []" by (simp add: list_repo_def)
  from ll.pushes_ok [OF this, of 0 ops] show ?thesis
    by (auto simp: list_repo_def split: option.splits)
qed

definition empty_example :: list_struct where
  "empty_example = \<lparr>head = None, tail = None, len = 77, nodes = Map.empty, brk = 0\<rparr>"

theorem pushes_refine_deque_witness:
  "\<exists>L'. push_run (\<lambda>l x out. lpush True True l (Some x) out)
        (\<lambda>l x out. rpush True True l (Some x) out) (Some empty_example, 0)
        [PushLeft ''b'', PushRight ''c'', PushLeft ''a''] = Inr (Some L', 3) \<and>
    list_rep L' [''a'', ''b'', ''c'']"
  using pushes_refine_deque [of 77 empty_example
      "[PushLeft ''b'', PushRight ''c'', PushLeft ''a'']"]
  by (simp add: create_list_def empty_example_def int_of_size_def)

text \<open>
  C24 (functional): on a well-linked, non-empty list of at most \<open>INT_MAX\<close> elements \<open>lrange\<close> returns
  the elements from position start to position stop inclusive, negative positions counted from the
  end and stop clamped to the last element, and the number of elements returned; a start that is
  out of range (also after counting from the end) or a stop before start gives no elements.
\<close>

theorem lrange_returns_slice:
  assumes "list_rep L xs" "xs \<noteq> []" "int (length xs) \<le> INT_MAX"
    "INT_MIN \<le> start" "start \<le> INT_MAX" "INT_MIN \<le> stop" "stop \<le> INT_MAX"
  shows "\<exists>r. lrange True (\<lambda>_. True) (Some L) start stop =
      Inr (r, int (length (lrange_spec xs start stop))) \<and>
    (case r of None \<Rightarrow> lrange_spec xs start stop = [] | Some ys \<Rightarrow> ys = lrange_spec xs start stop)"
  using assms by (rule lrange_rep)

definition pair_example :: list_struct where
  "pair_example = \<lparr>head = Some 4, tail = Some 2, len = 2,
     nodes = [4 \<mapsto> \<lparr>data = ''x'', prev = None, next_node = Some 2\<rparr>,
              2 \<mapsto> \<lparr>data = ''y'', prev = Some 4, next_node = None\<rparr>], brk = 5\<rparr>"

lemma pair_example_rep: "list_rep pair_example [''x'', ''y'']"
  by (auto simp: list_rep_def list_rep_at_def pair_example_def last_of_def intro!: exI [of _ "[4, 2]"])

theorem lrange_returns_slice_witness:
  "\<exists>r. lrange True (\<lambda>_. True) (Some pair_example) (-1) 9 =
      Inr (r, int (length (lrange_spec [''x'', ''y''] (-1) 9))) \<and>
    (case r of None \<Rightarrow> lrange_spec [''x'', ''y''] (-1) 9 = []
     | Some ys \<Rightarrow> ys = lrange_spec [''x'', ''y''] (-1) 9)"
  by (rule lrange_returns_slice) (simp_all add: pair_example_rep c_limits)

lemma destroy_list_all:
  assumes "list_rep L xs"
  shows "destroy_list (Some L) = Some (Inr Map.empty)"
proof -
  from assms obtain as where rep: "list_rep_at as L xs" by (auto simp: list_rep_def)
  then have "destroy_nodes (nodes L) (first_of as) =
      Some (Inr (\<lambda>a. if a \<in> set as then None else nodes L a))"
    by (auto simp: list_rep_at_def intro: destroy_nodes_dll)
  moreover have "(\<lambda>a. if a \<in> set as then None else nodes L a) = Map.empty"
    using rep by (auto simp: list_rep_at_def fun_eq_iff dom_def set_eq_iff)
  ultimately show ?thesis using rep by (simp add: destroy_list_def list_rep_at_def)
qed

text \<open>
  C25 (termination): destroying a well-linked list terminates, reads no freed node, and frees every
  node of the list.
\<close>

theorem destroy_list_frees_all:
  assumes "list_rep L xs"
  shows "destroy_list (Some L) = Some (Inr Map.empty)"
  using assms by (rule destroy_list_all)

theorem destroy_list_frees_all_witness: "destroy_list (Some pair_example) = Some (Inr Map.empty)"
  by (rule destroy_list_frees_all) (rule pair_example_rep)

end
