(* ===== verification/C_Library.thy ===== *)
theory C_Library
  imports Prelude
begin

text \<open>
  The parts of the C library whose results the sources branch on: \<^verbatim>\<open>strtol\<close> and \<^verbatim>\<open>strtoll\<close> in
  base 10 (the two agree on LP64), the decimal conversions of \<^verbatim>\<open>printf\<close>, and the truncating
  \<^verbatim>\<open>snprintf\<close>.
\<close>

section \<open>Decimal numerals\<close>

definition is_digit :: "char \<Rightarrow> bool" where
  "is_digit c \<longleftrightarrow> 48 \<le> (of_char c :: nat) \<and> (of_char c :: nat) \<le> 57"

definition digit_val :: "char \<Rightarrow> nat" where
  "digit_val c = of_char c - 48"

definition digit_char :: "nat \<Rightarrow> char" where
  "digit_char d = char_of (d + 48)"

definition digits_val :: "string \<Rightarrow> nat" where
  "digits_val s = foldl (\<lambda>a c. 10 * a + digit_val c) 0 s"

fun show_nat :: "nat \<Rightarrow> string" where
  "show_nat n = (if n < 10 then [digit_char n] else show_nat (n div 10) @ [digit_char (n mod 10)])"

declare show_nat.simps [simp del]

definition show_int :: "int \<Rightarrow> string" where
  "show_int i = (if i < 0 then CHR ''-'' # show_nat (nat (- i)) else show_nat (nat i))"

lemma digit_char_facts:
  assumes "d < 10"
  shows "is_digit (digit_char d)" "digit_val (digit_char d) = d"
proof -
  have "(of_char (digit_char d) :: nat) = d + 48"
    using assms by (simp add: digit_char_def of_char_of)
  then show "is_digit (digit_char d)" "digit_val (digit_char d) = d"
    using assms by (simp_all add: is_digit_def digit_val_def)
qed

lemma show_nat_digits: "\<forall>c \<in> set (show_nat n). is_digit c"
proof (induction n rule: show_nat.induct)
  case (1 n)
  then show ?case
    by (subst show_nat.simps) (auto simp: digit_char_facts)
qed

lemma show_nat_ne [simp]: "show_nat n \<noteq> []"
  by (subst show_nat.simps) simp

lemma digits_val_snoc: "digits_val (s @ [c]) = 10 * digits_val s + digit_val c"
  by (simp add: digits_val_def)

lemma digits_val_show_nat [simp]: "digits_val (show_nat n) = n"
proof (induction n rule: show_nat.induct)
  case (1 n)
  show ?case
  proof (cases "n < 10")
    case True
    then show ?thesis
      by (subst show_nat.simps) (simp add: digits_val_def digit_char_facts)
  next
    case False
    with "1.IH" show ?thesis
      by (subst show_nat.simps) (simp add: digits_val_snoc digit_char_facts)
  qed
qed

lemma length_show_nat: "n < 10 ^ Suc k \<Longrightarrow> length (show_nat n) \<le> Suc k"
proof (induction k arbitrary: n)
  case 0
  then show ?case by (subst show_nat.simps) simp
next
  case (Suc k)
  show ?case
  proof (cases "n < 10")
    case True
    then show ?thesis by (subst show_nat.simps) simp
  next
    case False
    from Suc.prems have "n div 10 < 10 ^ Suc k" by (simp add: less_mult_imp_div_less mult.commute)
    from Suc.IH [OF this] False show ?thesis by (subst show_nat.simps) simp
  qed
qed

lemma not_digit_facts [simp]:
  "\<not> is_digit (CHR ''-'')" "\<not> is_digit (CHR ''+'')" "\<not> is_digit NUL" "\<not> is_digit CR" "\<not> is_digit LF"
  by (simp_all add: is_digit_def)

lemma nul_free_show_nat [simp]: "nul_free (show_nat n)"
  using show_nat_digits [of n] by (auto simp: nul_free_def)

lemma nul_free_show_int [simp]: "nul_free (show_int i)"
  by (simp add: show_int_def)

section \<open>strtol\<close>

definition is_space :: "char \<Rightarrow> bool" where
  "is_space c \<longleftrightarrow> c = CHR '' '' \<or> (9 \<le> (of_char c :: nat) \<and> (of_char c :: nat) \<le> 13)"

text \<open>
  \<open>strtol s\<close> gives the value, the offset of the first character not converted (0 when there is no
  number) and whether \<^verbatim>\<open>errno\<close> is set to \<^verbatim>\<open>ERANGE\<close>.
\<close>

definition strtol :: "bytes \<Rightarrow> int \<times> nat \<times> bool" where
  "strtol s =
     (let ws = takeWhile is_space s;
          r = drop (length ws) s;
          neg = (case r of c # _ \<Rightarrow> c = CHR ''-'' | [] \<Rightarrow> False);
          sgn_len = (case r of c # _ \<Rightarrow> if c = CHR ''-'' \<or> c = CHR ''+'' then 1 else 0 | [] \<Rightarrow> 0);
          ds = takeWhile is_digit (drop sgn_len r)
      in if ds = [] then (0, 0, False)
         else
           let v = (if neg then - int (digits_val ds) else int (digits_val ds));
               e = length ws + sgn_len + length ds
           in if v > LONG_MAX then (LONG_MAX, e, True)
              else if v < LONG_MIN then (LONG_MIN, e, True)
              else (v, e, False))"

lemma takeWhile_digits_append:
  "(\<forall>c \<in> set ds. is_digit c) \<Longrightarrow> (rest = [] \<or> \<not> is_digit (hd rest)) \<Longrightarrow>
   takeWhile is_digit (ds @ rest) = ds"
  by (induction ds) (auto simp: takeWhile_eq_Nil_iff)

lemma digit_not_space: "is_digit c \<Longrightarrow> \<not> is_space c"
  by (auto simp: is_digit_def is_space_def)

lemma strtol_show_nat:
  assumes "rest = [] \<or> \<not> is_digit (hd rest)"
  shows "strtol (show_nat n @ rest) =
    (if int n > LONG_MAX then (LONG_MAX, length (show_nat n), True)
     else (int n, length (show_nat n), False))"
proof -
  obtain d ds where ds: "show_nat n = d # ds" by (cases "show_nat n") simp_all
  have d: "is_digit d" using show_nat_digits [of n] ds by simp
  then have "\<not> is_space d" "d \<noteq> CHR ''-''" "d \<noteq> CHR ''+''"
    by (auto dest: digit_not_space)
  moreover have "takeWhile is_digit (show_nat n @ rest) = show_nat n"
    using assms show_nat_digits by (rule takeWhile_digits_append [rotated])
  ultimately show ?thesis
    using digits_val_show_nat [of n] by (simp add: strtol_def ds Let_def LONG_MIN_def LONG_MAX_def)
qed

lemma strtol_show_int_full:
  assumes "rest = [] \<or> \<not> is_digit (hd rest)"
  shows "strtol (show_int i @ rest) =
    (if i > LONG_MAX then (LONG_MAX, length (show_int i), True)
     else if i < LONG_MIN then (LONG_MIN, length (show_int i), True)
     else (i, length (show_int i), False))"
proof (cases "i < 0")
  case False
  then show ?thesis
    using strtol_show_nat [OF assms(1), of "nat i"] by (simp add: show_int_def LONG_MIN_def)
next
  case True
  have "takeWhile is_digit (show_nat (nat (- i)) @ rest) = show_nat (nat (- i))"
    using assms(1) show_nat_digits by (rule takeWhile_digits_append [rotated])
  with True show ?thesis
    by (simp add: strtol_def show_int_def is_space_def Let_def LONG_MAX_def)
qed

lemma strtol_show_int:
  assumes "rest = [] \<or> \<not> is_digit (hd rest)" "LONG_MIN \<le> i" "i \<le> LONG_MAX"
  shows "strtol (show_int i @ rest) = (i, length (show_int i), False)"
  using strtol_show_int_full [OF assms(1), of i] assms(2,3) by simp

lemma show_int_ne [simp]: "show_int i \<noteq> []"
  by (simp add: show_int_def)

section \<open>snprintf\<close>

text \<open>
  \<open>snprintf size s\<close> is what \<^verbatim>\<open>snprintf(buf, size, ...)\<close> stores for the formatted text \<open>s\<close>: at most
  \<open>size - 1\<close> characters and the terminating NUL, nothing when \<open>size\<close> is 0.  The value returned by
  the call is the length of \<open>s\<close>.
\<close>

definition snprintf :: "nat \<Rightarrow> string \<Rightarrow> bytes" where
  "snprintf n s = (if n = 0 then [] else take (n - 1) s @ [NUL])"

lemma length_snprintf: "length (snprintf n s) = (if n = 0 then 0 else min (n - 1) (length s) + 1)"
  by (simp add: snprintf_def min.commute)

lemma snprintf_fits: "length s < n \<Longrightarrow> snprintf n s = s @ [NUL]"
  by (simp add: snprintf_def)

end
