(* ===== verification/Util.thy ===== *)
theory Util
  imports C_Library
begin

text \<open>
  The helpers of \<^verbatim>\<open>util.c\<close>: the error codes, the wall clock, integer parsing, path construction and the
  non-blocking mode of a descriptor.
\<close>

definition ERR_NONE :: int where "ERR_NONE = 0"
definition ERR_SYNTAX :: int where "ERR_SYNTAX = -1"
definition ERR_VALUE :: int where "ERR_VALUE = -2"
definition ERR_TYPE_MISMATCH :: int where "ERR_TYPE_MISMATCH = -3"
definition ERR_KEY_NOT_FOUND :: int where "ERR_KEY_NOT_FOUND = -4"

lemmas err_codes = ERR_NONE_def ERR_SYNTAX_def ERR_VALUE_def ERR_TYPE_MISMATCH_def
  ERR_KEY_NOT_FOUND_def

definition current_time_millis :: "int \<Rightarrow> int \<Rightarrow> int" where
  \<comment> \<open>From the fields \<open>tv_sec\<close> and \<open>tv_usec\<close> that \<^verbatim>\<open>gettimeofday\<close> stores.\<close>
  "current_time_millis tv_sec tv_usec = tv_sec * 1000 + tv_usec div 1000"

text \<open>
  The parsers return the error code and the new value of \<^verbatim>\<open>*result\<close>.  The string is a C string, so
  the end pointer is at the terminator exactly when every character was converted.
\<close>

definition parse_integer :: "string \<Rightarrow> int \<Rightarrow> int \<times> int" where
  "parse_integer str result =
     (case strtol str of (value, endptr, erange) \<Rightarrow>
        if endptr = 0 \<or> endptr \<noteq> length str \<or> erange then (ERR_VALUE, result)
        else (ERR_NONE, value))"

definition parse_long_long :: "string \<Rightarrow> int \<Rightarrow> int \<times> int" where
  "parse_long_long str result =
     (case strtol str of (value, endptr, erange) \<Rightarrow>
        if endptr = 0 \<or> endptr \<noteq> length str \<or> erange then (ERR_VALUE, result)
        else (ERR_NONE, value))"

definition construct_file_path :: "bool \<Rightarrow> string \<Rightarrow> string \<Rightarrow> bytes option" where
  "construct_file_path malloc_ok dir filename =
     (let path_len = length dir + length filename + 2 in
      if \<not> malloc_ok then None
      else if (dir @ [NUL]) ! (length dir - 0) = CHR ''/'' then Some (snprintf path_len (dir @ filename))
      else Some (snprintf path_len (dir @ ''/'' @ filename)))"

unbundle bit_operations_syntax

text \<open>The two calls of \<^verbatim>\<open>fcntl\<close>: the flags that the first returns and whether the second succeeds.\<close>

record fcntl_os =
  getfl :: "32 word option"
  setfl_ok :: bool

definition O_NONBLOCK :: "32 word" where "O_NONBLOCK = 2048"

definition set_non_blocking :: "fcntl_os \<Rightarrow> 32 word res" where
  \<comment> \<open>The flags that the descriptor has afterwards.\<close>
  "set_non_blocking os =
     (case getfl os of
        None \<Rightarrow> Inl Exit_Failure
      | Some flags \<Rightarrow> if setfl_ok os then Inr (flags OR O_NONBLOCK) else Inl Exit_Failure)"

section \<open>Properties\<close>

text \<open>
  C30 (roundtrip): \<open>parse_integer\<close> reads back every \<^verbatim>\<open>long\<close> from its decimal rendering, and rejects
  the decimal rendering of every number that does not fit, leaving the result variable untouched.
\<close>

theorem parse_integer_decimal:
  "parse_integer (show_int i) r =
     (if LONG_MIN \<le> i \<and> i \<le> LONG_MAX then (ERR_NONE, i) else (ERR_VALUE, r))"
  using strtol_show_int_full [of "[]" i] by (auto simp: parse_integer_def)

text \<open>
  C40 (functional): \<open>construct_file_path\<close> always yields the directory, a slash and the file name,
  NUL-terminated inside the buffer it allocated; the test for a trailing slash looks at the
  terminator and never fires, so a directory that already ends in a slash gets a second one.
\<close>

theorem construct_file_path_result:
  "construct_file_path True dir filename = Some (dir @ ''/'' @ filename @ [NUL])"
  by (simp add: construct_file_path_def Let_def snprintf_def)

end
