(* ===== verification/Database.thy ===== *)
theory Database
  imports String_Table Linked_List Util
begin

text \<open>
  The key space of \<^verbatim>\<open>database.c\<close>: string and list values with an optional expiration time, stored in
  the hash table, and the two counters.  A stored value owns its string or list, so the pointer the
  code keeps in the table is modelled by the value itself; a list reached through that pointer is
  written back by \<open>write_list\<close>.  \<open>malloc\<close> and \<open>strdup\<close> succeed here, as the code does not check them.
  \<open>now\<close> is the result of \<open>current_time_millis\<close> and \<open>g\<close> the unset length field of a new list.
\<close>

section \<open>State\<close>

datatype value_data = Str string | Lst list_struct

record RedisValue =
  rdata :: value_data
  expiration :: int

record redis_db =
  dbh :: "RedisValue khash"
  key_count :: u64
  expiry_count :: u64

section \<open>Operations\<close>

definition db_set :: "redis_db \<Rightarrow> string \<Rightarrow> value_data \<Rightarrow> int \<Rightarrow> redis_db res" where
  \<comment> \<open>The value that was stored before is read for its type tag and freed.\<close>
  "db_set db key val expi =
     rbind (kh_fetch (dbh db) key) (\<lambda>old.
     rbind (kh_store (dbh db) key \<lparr>rdata = val, expiration = expi\<rparr>) (\<lambda>(present, h).
       if present then Inr (db\<lparr>dbh := h\<rparr>)
       else Inr (db\<lparr>dbh := h, key_count := key_count db + 1,
                    expiry_count := (if expi > 0 then expiry_count db + 1 else expiry_count db)\<rparr>)))"

definition db_get :: "int \<Rightarrow> redis_db \<Rightarrow> string \<Rightarrow> (RedisValue option \<times> redis_db) res" where
  "db_get now db key =
     (let h = dbh db in
      rbind (kh_get h key) (\<lambda>k.
        if k \<noteq> n_buckets h then
          (case vals h ! k of
             None \<Rightarrow> Inl Uninitialised
           | Some v \<Rightarrow>
               if expiration v > 0 \<and> expiration v < now then
                 Inr (None, db\<lparr>key_count := key_count db - 1, expiry_count := expiry_count db - 1,
                               dbh := kh_del h k\<rparr>)
               else Inr (Some v, db))
        else Inr (None, db)))"

definition db_exist :: "redis_db \<Rightarrow> string \<Rightarrow> bool res" where
  "db_exist db key =
     rbind (kh_get (dbh db) key) (\<lambda>k. Inr (k \<noteq> n_buckets (dbh db) \<and> kh_exist (dbh db) k))"

text \<open>
  The blocks of memory of a database: for a key its string, the string or the list under it, and the
  structure of the value; then the blocks of the table and the structure of the database.  A freed list
  comes with what is left of its nodes.
\<close>

datatype db_block =
    Key_Block string
  | String_Block string
  | List_Block string store
  | Value_Block string
  | Table kh_block
  | Db_Struct

definition free_value :: "string \<Rightarrow> RedisValue \<Rightarrow> db_block list res" where
  \<comment> \<open>What is freed of the value under a key, in the order of the calls.\<close>
  "free_value key v =
     (case rdata v of
        Str s \<Rightarrow> Inr [String_Block key, Value_Block key]
      | Lst L \<Rightarrow>
          (case destroy_list (Some L) of
             None \<Rightarrow> Inl Out_Of_Fuel
           | Some (Inl e) \<Rightarrow> Inl e
           | Some (Inr left) \<Rightarrow> Inr [List_Block key left, Value_Block key]))"

definition db_delete :: "redis_db \<Rightarrow> string \<Rightarrow> redis_db res" where
  "db_delete db key =
     (let h = dbh db in
      rbind (kh_get h key) (\<lambda>k.
        if k \<noteq> n_buckets h then
          (case vals h ! k of
             None \<Rightarrow> Inl Uninitialised
           | Some v \<Rightarrow>
               rbind (free_value key v) (\<lambda>_.
                 Inr (db\<lparr>dbh := kh_del h k, key_count := key_count db - 1\<rparr>)))
        else Inr db))"

text \<open>The destruction of the table: the result lists what is freed, in the order of the calls.\<close>

primrec free_slots :: "RedisValue khash \<Rightarrow> nat list \<Rightarrow> db_block list res" where
  "free_slots h [] = Inr []"
| "free_slots h (k # ks) =
     (case (keys h ! k, vals h ! k) of
        (Some key, Some v) \<Rightarrow>
          rbind (free_value key v) (\<lambda>blocks. rbind (free_slots h ks) (\<lambda>freed. Inr (Key_Block key # blocks @ freed)))
      | _ \<Rightarrow> Inl Uninitialised)"

definition destroy_redis_hash :: "RedisValue khash \<Rightarrow> db_block list res" where
  "destroy_redis_hash h =
     rbind (free_slots h (kh_slots h)) (\<lambda>freed. Inr (freed @ map Table (kh_destroy (Some h))))"

definition redis_db_create :: "bool \<Rightarrow> redis_db option" where
  "redis_db_create malloc_ok =
     (if \<not> malloc_ok then None else Some \<lparr>dbh = kh_init, key_count = 0, expiry_count = 0\<rparr>)"

definition redis_db_destroy :: "redis_db option \<Rightarrow> db_block list res" where
  "redis_db_destroy db =
     (case db of
        None \<Rightarrow> Inr []
      | Some db \<Rightarrow> rbind (destroy_redis_hash (dbh db)) (\<lambda>freed. Inr (freed @ [Db_Struct])))"

definition redis_db_set :: "redis_db \<Rightarrow> string \<Rightarrow> value_data \<Rightarrow> int \<Rightarrow> redis_db res" where
  "redis_db_set db key val expi = db_set db key val expi"

definition redis_db_get :: "int \<Rightarrow> redis_db \<Rightarrow> string \<Rightarrow> (RedisValue option \<times> redis_db) res" where
  "redis_db_get now db key = db_get now db key"

definition redis_db_exist :: "redis_db \<Rightarrow> string \<Rightarrow> bool res" where
  "redis_db_exist db key = db_exist db key"

definition redis_db_delete :: "redis_db \<Rightarrow> string \<Rightarrow> redis_db res" where
  "redis_db_delete db key = db_delete db key"

text \<open>The list object that the table's value points to, after it was changed through the pointer.\<close>

definition write_list :: "redis_db \<Rightarrow> string \<Rightarrow> list_struct option \<Rightarrow> redis_db res" where
  "write_list db key l =
     (case l of
        None \<Rightarrow> Inl Null_Pointer
      | Some L \<Rightarrow>
          rbind (kh_fetch (dbh db) key) (\<lambda>old.
            case old of
              None \<Rightarrow> Inl Use_After_Free
            | Some v \<Rightarrow>
                rbind (kh_get (dbh db) key) (\<lambda>k.
                  Inr (db\<lparr>dbh := kh_set_value (dbh db) k (v\<lparr>rdata := Lst L\<rparr>)\<rparr>))))"

definition redis_db_lpush ::
  "int \<Rightarrow> u64 \<Rightarrow> redis_db \<Rightarrow> string \<Rightarrow> string \<Rightarrow> int \<Rightarrow> (int \<times> int \<times> redis_db) res" where
  \<comment> \<open>Return code, \<^verbatim>\<open>*length\<close> and the database.\<close>
  "redis_db_lpush now g db key item out =
     rbind (redis_db_get now db key) (\<lambda>(existing_value, db).
       case existing_value of
         Some v \<Rightarrow>
           (case rdata v of
              Str s \<Rightarrow> Inr (ERR_TYPE_MISMATCH, out, db)
            | Lst L \<Rightarrow>
                rbind (lpush True True (Some L) (Some item) out) (\<lambda>(l, out).
                rbind (write_list db key l) (\<lambda>db. Inr (0, out, db))))
       | None \<Rightarrow>
           (case create_list True g of
              None \<Rightarrow> Inl Null_Pointer
            | Some L \<Rightarrow>
                rbind (db_set db key (Lst L) (-1)) (\<lambda>db.
                rbind (lpush True True (Some L) (Some item) out) (\<lambda>(l, out).
                rbind (write_list db key l) (\<lambda>db. Inr (0, out, db))))))"

definition redis_db_rpush ::
  "int \<Rightarrow> u64 \<Rightarrow> redis_db \<Rightarrow> string \<Rightarrow> string \<Rightarrow> int \<Rightarrow> (int \<times> int \<times> redis_db) res" where
  "redis_db_rpush now g db key item out =
     rbind (redis_db_get now db key) (\<lambda>(existing_value, db).
       case existing_value of
         Some v \<Rightarrow>
           (case rdata v of
              Str s \<Rightarrow> Inr (ERR_TYPE_MISMATCH, out, db)
            | Lst L \<Rightarrow>
                rbind (rpush True True (Some L) (Some item) out) (\<lambda>(l, out).
                rbind (write_list db key l) (\<lambda>db. Inr (0, out, db))))
       | None \<Rightarrow>
           (case create_list True g of
              None \<Rightarrow> Inl Null_Pointer
            | Some L \<Rightarrow>
                rbind (db_set db key (Lst L) 0) (\<lambda>db.
                rbind (rpush True True (Some L) (Some item) out) (\<lambda>(l, out).
                rbind (write_list db key l) (\<lambda>db. Inr (0, out, db))))))"

definition redis_db_lrange ::
  "int \<Rightarrow> redis_db \<Rightarrow> string \<Rightarrow> int \<Rightarrow> int \<Rightarrow>
   (int \<times> string list option \<times> int \<times> redis_db) res" where
  \<comment> \<open>Return code, \<^verbatim>\<open>*range\<close> (null when it is not set), \<^verbatim>\<open>*range_length\<close> and the database.  On a
    type mismatch \<^verbatim>\<open>*range_length\<close> is not set; the callers do not read it then.\<close>
  "redis_db_lrange now db key start stop =
     rbind (db_get now db key) (\<lambda>(existing_value, db).
       case existing_value of
         Some v \<Rightarrow>
           (case rdata v of
              Str s \<Rightarrow> Inr (ERR_TYPE_MISMATCH, None, 0, db)
            | Lst L \<Rightarrow>
                rbind (lrange True (\<lambda>_. True) (Some L) start stop) (\<lambda>(range, range_length).
                  Inr (0, range, range_length, db)))
       | None \<Rightarrow> Inr (ERR_KEY_NOT_FOUND, None, 0, db))"

definition redis_db_dbsize :: "redis_db \<Rightarrow> u64" where
  "redis_db_dbsize db = key_count db"

definition redis_db_expiry_count :: "redis_db \<Rightarrow> u64" where
  "redis_db_expiry_count db = expiry_count db"

section \<open>Abstract key space\<close>

datatype aval = AStr string | AList "string list"

type_synonym keyspace = "string \<Rightarrow> (aval \<times> int) option"

fun data_rep :: "value_data \<Rightarrow> aval \<Rightarrow> bool" where
  "data_rep (Str s) (AStr t) = (s = t)"
| "data_rep (Lst L) (AList xs) = (list_rep L xs \<and> xs \<noteq> [])"
| "data_rep _ _ = False"

definition val_rep :: "RedisValue \<Rightarrow> aval \<times> int \<Rightarrow> bool" where
  "val_rep v a \<longleftrightarrow> data_rep (rdata v) (fst a) \<and> expiration v = snd a"

text \<open>
  \<open>db_rep p db m\<close>: after at most \<open>p\<close> insertions \<open>db\<close> stands for the key space \<open>m\<close>, and \<^verbatim>\<open>key_count\<close> is
  its number of keys.
\<close>

definition db_rep :: "nat \<Rightarrow> redis_db \<Rightarrow> keyspace \<Rightarrow> bool" where
  "db_rep p db m \<longleftrightarrow>
     kh_tab p (dbh db) \<and> (\<forall>k. rel_option val_rep (kh_map (dbh db) k) (m k)) \<and>
     key_count db = of_nat (card (dom m))"

definition expired :: "int \<Rightarrow> aval \<times> int \<Rightarrow> bool" where
  "expired now a \<longleftrightarrow> snd a > 0 \<and> snd a < now"

definition purge :: "int \<Rightarrow> string \<Rightarrow> keyspace \<Rightarrow> keyspace" where
  "purge now k m = (case m k of Some a \<Rightarrow> if expired now a then m(k := None) else m | None \<Rightarrow> m)"

section \<open>The table operations behind the database\<close>

lemma db_get_eq:
  "db_get now db key =
     rbind (kh_fetch (dbh db) key) (\<lambda>r.
       case r of
         None \<Rightarrow> Inr (None, db)
       | Some v \<Rightarrow>
           if expiration v > 0 \<and> expiration v < now then
             rbind (kh_remove (dbh db) key) (\<lambda>(_, h).
               Inr (None, db\<lparr>key_count := key_count db - 1, expiry_count := expiry_count db - 1, dbh := h\<rparr>))
           else Inr (Some v, db))"
  by (cases "kh_get (dbh db) key")
    (auto simp: db_get_def kh_fetch_def kh_remove_def Let_def split: option.split)

lemma db_delete_eq:
  "db_delete db key =
     rbind (kh_fetch (dbh db) key) (\<lambda>r.
       case r of
         None \<Rightarrow> Inr db
       | Some v \<Rightarrow>
           rbind (free_value key v) (\<lambda>_.
           rbind (kh_remove (dbh db) key) (\<lambda>(_, h).
             Inr (db\<lparr>dbh := h, key_count := key_count db - 1\<rparr>))))"
  by (cases "kh_get (dbh db) key")
    (auto simp: db_delete_def kh_fetch_def kh_remove_def Let_def split: option.split)

lemma db_rep_dom:
  assumes "db_rep p db m"
  shows "kh_map (dbh db) k = None \<longleftrightarrow> m k = None" "dom (kh_map (dbh db)) = dom m"
proof -
  have *: "rel_option val_rep (kh_map (dbh db) k) (m k)" for k using assms by (simp add: db_rep_def)
  have **: "kh_map (dbh db) k = None \<longleftrightarrow> m k = None" for k
    using * [of k] by (metis option.rel_distinct(1,2) option.exhaust)
  then show "kh_map (dbh db) k = None \<longleftrightarrow> m k = None" "dom (kh_map (dbh db)) = dom m"
    by (auto simp: dom_def)
qed

lemma db_rep_card:
  assumes "db_rep p db m"
  shows "finite (dom m)" "card (dom m) \<le> p"
  using kh.count_ok [of p "dbh db"] db_rep_dom(2) [OF assms] assms by (auto simp: db_rep_def kh_tab_def)

lemma db_set_raw:
  assumes rep: "db_rep p db m" and cap: "p < store_cap"
  shows "\<exists>db'. db_set db k val e = Inr db' \<and> kh_tab (Suc p) (dbh db') \<and>
    kh_map (dbh db') = (kh_map (dbh db))(k \<mapsto> \<lparr>rdata = val, expiration = e\<rparr>) \<and>
    key_count db' = of_nat (card (insert k (dom m))) \<and>
    expiry_count db' = (if k \<in> dom m \<or> e \<le> 0 then expiry_count db else expiry_count db + 1)"
proof -
  have tab: "kh_tab p (dbh db)" using rep by (simp add: db_rep_def)
  from kh.store_ok [OF this cap] obtain h' where
    h': "kh_store (dbh db) k \<lparr>rdata = val, expiration = e\<rparr> = Inr (kh_map (dbh db) k \<noteq> None, h')"
    "kh_tab (Suc p) h'" "kh_map h' = (kh_map (dbh db))(k \<mapsto> \<lparr>rdata = val, expiration = e\<rparr>)" by blast
  show ?thesis
    using h' rep db_rep_card(1) [OF rep] db_rep_dom(1) [OF rep, of k]
    by (auto simp: db_set_def kh.fetch_ok [OF tab] db_rep_def card_insert_if insert_absorb domIff)
qed

lemma kh_set_key_same: "kh_find h key = Some i \<Longrightarrow> kh_set_key h i key = h"
proof -
  assume "kh_find h key = Some i"
  then have "keys h ! i = Some key" by (simp add: kh_find_SomeD)
  then have "(keys h)[i := Some key] = keys h" by (metis list_update_id)
  then show ?thesis by (simp add: kh_set_key_def)
qed

lemma write_list_raw:
  assumes tab: "kh_tab p (dbh db)" and v: "kh_map (dbh db) k = Some v"
  shows "\<exists>h'. write_list db k (Some L) = Inr (db\<lparr>dbh := h'\<rparr>) \<and> kh_tab p h' \<and>
    kh_map h' = (kh_map (dbh db))(k \<mapsto> v\<lparr>rdata := Lst L\<rparr>)"
proof -
  let ?h = "dbh db" and ?v = "v\<lparr>rdata := Lst L\<rparr>"
  have wf: "kh_wf ?h" using tab by (simp add: kh_tab_def)
  from v obtain i where i: "kh_find ?h k = Some i" by (auto simp: kh_map_def split: option.splits)
  then have "i < n_buckets ?h" using kh_find_SomeD live_less by blast
  with wf have ok: "table_ok ?h" by (auto simp: kh_wf_def)
  let ?h' = "kh_set_value ?h i ?v"
  note asg = table_assign [OF ok i, of ?v, unfolded kh_set_key_same [OF i]]
  have "write_list db k (Some L) = Inr (db\<lparr>dbh := ?h'\<rparr>)"
    using kh.fetch_ok [OF tab, of k] v kh_get_correct [OF wf, of k] i by (simp add: write_list_def)
  moreover have "kh_tab p ?h'"
  proof -
    have "n_buckets ?h' = n_buckets ?h" by (simp add: kh_set_value_def)
    with tab asg show ?thesis by (simp add: kh_tab_def kh_wf_def)
  qed
  moreover have "kh_map ?h' = (kh_map ?h)(k \<mapsto> ?v)"
    by (auto simp: kh_map_lookup asg(2) fun_eq_iff)
  ultimately show ?thesis by blast
qed

section \<open>Laws of the database operations\<close>

lemma db_create_rep: "redis_db_create True = Some db \<Longrightarrow> db_rep 0 db Map.empty"
  by (auto simp: redis_db_create_def db_rep_def kh_init_tab)

lemma db_set_ok:
  assumes rep: "db_rep p db m" and cap: "p < store_cap" and val: "data_rep val a"
  shows "\<exists>db'. redis_db_set db k val e = Inr db' \<and> db_rep (Suc p) db' (m(k \<mapsto> (a, e)))"
proof -
  from db_set_raw [OF rep cap, of k val e] obtain db' where
    db': "db_set db k val e = Inr db'" "kh_tab (Suc p) (dbh db')"
    "kh_map (dbh db') = (kh_map (dbh db))(k \<mapsto> \<lparr>rdata = val, expiration = e\<rparr>)"
    "key_count db' = of_nat (card (insert k (dom m)))" by blast
  then show ?thesis using rep val by (auto simp: redis_db_set_def db_rep_def val_rep_def)
qed

lemma db_remove_rep:
  assumes rep: "db_rep p db m" and k: "m k = Some a"
  shows "\<exists>h. kh_remove (dbh db) k = Inr (True, h) \<and>
    (\<forall>ec. db_rep p (db\<lparr>key_count := key_count db - 1, expiry_count := ec, dbh := h\<rparr>) (m(k := None)))"
proof -
  have tab: "kh_tab p (dbh db)" using rep by (simp add: db_rep_def)
  have "kh_map (dbh db) k \<noteq> None" using db_rep_dom(1) [OF rep, of k] k by simp
  then obtain h where h: "kh_remove (dbh db) k = Inr (True, h)" "kh_tab p h"
    "kh_map h = (kh_map (dbh db))(k := None)" using kh.remove_ok [OF tab, of k] by auto
  have "card (dom m) = Suc (card (dom m - {k}))"
    using db_rep_card(1) [OF rep] k by (intro card.remove) auto
  then have "key_count db - 1 = of_nat (card (dom (m(k := None))))" using rep by (simp add: db_rep_def)
  then show ?thesis using h rep by (auto simp: db_rep_def)
qed

lemma db_get_ok:
  assumes rep: "db_rep p db m"
  shows "\<exists>v db'. redis_db_get now db k = Inr (v, db') \<and> db_rep p db' (purge now k m) \<and>
    rel_option val_rep v (purge now k m k) \<and> kh_map (dbh db') k = v"
proof -
  have tab: "kh_tab p (dbh db)" using rep by (simp add: db_rep_def)
  have rel: "rel_option val_rep (kh_map (dbh db) k) (m k)" using rep by (simp add: db_rep_def)
  show ?thesis
  proof (cases "m k")
    case None
    with rel have "kh_map (dbh db) k = None" by (cases "kh_map (dbh db) k") auto
    with None rep show ?thesis
      by (simp add: redis_db_get_def db_get_eq kh.fetch_ok [OF tab] purge_def)
  next
    case (Some a)
    with rel obtain v where v: "kh_map (dbh db) k = Some v" "val_rep v a"
      by (cases "kh_map (dbh db) k") auto
    show ?thesis
    proof (cases "expired now a")
      case True
      from db_remove_rep [OF rep Some] obtain h where
        "kh_remove (dbh db) k = Inr (True, h)"
        "db_rep p (db\<lparr>key_count := key_count db - 1, expiry_count := expiry_count db - 1, dbh := h\<rparr>) (m(k := None))"
        by blast
      moreover from this(2) have "kh_map h k = None" using db_rep_dom(1) by fastforce
      ultimately show ?thesis
        using True v Some
        by (simp add: redis_db_get_def db_get_eq kh.fetch_ok [OF tab] purge_def val_rep_def expired_def)
    next
      case False
      then show ?thesis
        using v Some rep
        by (auto simp: redis_db_get_def db_get_eq kh.fetch_ok [OF tab] purge_def val_rep_def expired_def)
    qed
  qed
qed

lemma db_exist_ok:
  assumes "db_rep p db m"
  shows "redis_db_exist db k = Inr (m k \<noteq> None)"
proof -
  have wf: "kh_wf (dbh db)" using assms by (simp add: db_rep_def kh_tab_def)
  have dom: "kh_find (dbh db) k = None \<longleftrightarrow> m k = None"
    using db_rep_dom(1) [OF assms, of k] kh_map_dom [of p "dbh db" k] assms
    by (simp add: db_rep_def kh_lookup_def)
  show ?thesis
  proof (cases "kh_find (dbh db) k")
    case None
    with dom kh_get_correct [OF wf, of k] show ?thesis by (simp add: redis_db_exist_def db_exist_def)
  next
    case (Some i)
    with kh_find_SomeD [OF Some] live_less [of i "dbh db"] dom kh_get_correct [OF wf, of k] show ?thesis
      by (auto simp: redis_db_exist_def db_exist_def kh_exist_def live_def live_slots_def)
  qed
qed

fun data_blocks :: "string \<Rightarrow> aval \<Rightarrow> db_block list" where
  \<comment> \<open>What a value under \<open>key\<close> owns; of a freed list no node is left.\<close>
  "data_blocks key (AStr s) = [String_Block key, Value_Block key]"
| "data_blocks key (AList xs) = [List_Block key Map.empty, Value_Block key]"

lemma free_value_ok: "data_rep (rdata v) a \<Longrightarrow> free_value key v = Inr (data_blocks key a)"
  by (cases "rdata v"; cases a) (auto simp: free_value_def dest: destroy_list_all)

lemma db_delete_ok:
  assumes rep: "db_rep p db m"
  shows "\<exists>db'. redis_db_delete db k = Inr db' \<and> db_rep p db' (m(k := None)) \<and>
    expiry_count db' = expiry_count db"
proof -
  have tab: "kh_tab p (dbh db)" using rep by (simp add: db_rep_def)
  have rel: "rel_option val_rep (kh_map (dbh db) k) (m k)" using rep by (simp add: db_rep_def)
  show ?thesis
  proof (cases "m k")
    case None
    with rel have "kh_map (dbh db) k = None" by (cases "kh_map (dbh db) k") auto
    moreover have "m(k := None) = m" using None by auto
    ultimately show ?thesis
      using rep by (simp add: redis_db_delete_def db_delete_eq kh.fetch_ok [OF tab])
  next
    case (Some a)
    with rel obtain v where v: "kh_map (dbh db) k = Some v" "val_rep v a"
      by (cases "kh_map (dbh db) k") auto
    from db_remove_rep [OF rep Some] obtain h where
      h: "kh_remove (dbh db) k = Inr (True, h)"
      "db_rep p (db\<lparr>key_count := key_count db - 1, expiry_count := expiry_count db, dbh := h\<rparr>) (m(k := None))"
      by blast
    then show ?thesis using v free_value_ok [of v "fst a"]
      by (simp add: redis_db_delete_def db_delete_eq kh.fetch_ok [OF tab] val_rep_def db_rep_def)
  qed
qed

end
