(* ===== verification/Rdb.thy ===== *)
theory Rdb
  imports Database
begin

text \<open>
  The snapshot files of \<^verbatim>\<open>rdb.c\<close>.  A file is its list of bytes; writing appends, reading returns the
  bytes left.  The file system is a map from paths to files, and the outcomes of \<^verbatim>\<open>mkdir\<close> and
  \<^verbatim>\<open>fopen\<close> are arguments.
\<close>

section \<open>Bytes of a file\<close>

definition byte_of :: "int \<Rightarrow> byte" where
  \<comment> \<open>\<^verbatim>\<open>fputc\<close> converts its argument to \<^verbatim>\<open>unsigned char\<close>.\<close>
  "byte_of i = char_of (nat (i mod 256))"

definition EOF :: int where "EOF = -1"

fun fgetc :: "bytes \<Rightarrow> int \<times> bytes" where
  "fgetc [] = (EOF, [])"
| "fgetc (c # cs) = (int (of_char c), cs)"

definition le_bytes :: "nat \<Rightarrow> int \<Rightarrow> bytes" where
  \<comment> \<open>\<open>n\<close> bytes, least significant first.\<close>
  "le_bytes n v = map (\<lambda>i. byte_of (v div 2 ^ (8 * i))) [0..<n]"

definition be_bytes :: "nat \<Rightarrow> int \<Rightarrow> bytes" where
  "be_bytes n v = rev (le_bytes n v)"

section \<open>Writing\<close>

definition write_rdb_string :: "string \<Rightarrow> bytes" where
  \<comment> \<open>The bytes written; the returned count is their number.\<close>
  "write_rdb_string str =
     (let l = int (length str) in
      case strtol str of (value, endptr, _) \<Rightarrow>
        if endptr = length str \<and> -128 \<le> value \<and> value \<le> 127 then byte_of 0xC0 # le_bytes 1 value
        else if endptr = length str \<and> -32768 \<le> value \<and> value \<le> 32767 then byte_of 0xC1 # le_bytes 2 value
        else if endptr = length str \<and> INT_MIN \<le> value \<and> value \<le> INT_MAX then
          byte_of 0xC2 # le_bytes 4 value
        else if l \<le> 63 then byte_of l # str
        else if l \<le> 16383 then be_bytes 2 (0x4000 + l) @ str
        else byte_of 0x80 # be_bytes 4 l @ str)"

definition rdb_entry :: "RedisValue khash \<Rightarrow> nat \<Rightarrow> bytes res" where
  "rdb_entry h k =
     (case (keys h ! k, vals h ! k) of
        (Some key, Some v) \<Rightarrow>
          let expiry = (if expiration v > 0 then byte_of 0xFC # le_bytes 8 (expiration v) else []) in
          Inr (expiry @
            (case rdata v of
               Str s \<Rightarrow> byte_of 0 # write_rdb_string key @ write_rdb_string s
             | Lst _ \<Rightarrow> []))
      | _ \<Rightarrow> Inl Uninitialised)"

primrec rdb_entries :: "RedisValue khash \<Rightarrow> nat list \<Rightarrow> bytes res" where
  "rdb_entries h [] = Inr []"
| "rdb_entries h (k # ks) =
     rbind (rdb_entry h k) (\<lambda>bs. rbind (rdb_entries h ks) (\<lambda>rest. Inr (bs @ rest)))"

definition rdb_file :: "redis_db \<Rightarrow> bytes res" where
  "rdb_file db =
     rbind (rdb_entries (dbh db) (kh_slots (dbh db))) (\<lambda>entries.
       Inr (''REDIS0012'' @ [byte_of 0xFA, byte_of 0xFE, byte_of 0xFB,
            byte_of (uint (key_count db)), byte_of (uint (expiry_count db))] @ entries @ [byte_of 0xFF]))"

type_synonym file_system = "string \<Rightarrow> bytes option"

record file_ops =
  mkdir_ok :: bool
  fopen_write_ok :: bool

definition rdb_path :: "string \<Rightarrow> string \<Rightarrow> string" where
  "rdb_path dir filename =
     (case construct_file_path True dir filename of None \<Rightarrow> [] | Some bs \<Rightarrow> cstr bs)"

definition rdb_save_data_to_file ::
  "file_ops \<Rightarrow> file_system \<Rightarrow> redis_db \<Rightarrow> string \<Rightarrow> string \<Rightarrow> (bool \<times> file_system) res" where
  "rdb_save_data_to_file os fs db dir filename =
     (let path = rdb_path dir filename in
      if \<not> mkdir_ok os then Inr (False, fs)
      else if \<not> fopen_write_ok os then Inl Null_Pointer
      else rbind (rdb_file db) (\<lambda>bs. Inr (True, fs(path \<mapsto> bs))))"

section \<open>Reading\<close>

fun read_be_length :: "nat \<Rightarrow> int \<Rightarrow> bytes \<Rightarrow> int option \<times> bytes" where
  \<comment> \<open>The byte is stored in a \<^verbatim>\<open>char\<close> before it is compared with \<^verbatim>\<open>EOF\<close>.\<close>
  "read_be_length 0 acc f = (Some acc, f)"
| "read_be_length (Suc n) acc f =
     (case fgetc f of (b, f) \<Rightarrow>
        if signed_take_bit 7 b = EOF then (None, f)
        else read_be_length n (int_of_long (acc * 256 + b mod 256)) f)"

definition read_counted :: "int \<Rightarrow> bytes \<Rightarrow> (string option \<times> bytes) res" where
  \<comment> \<open>\<^verbatim>\<open>malloc(len + 1)\<close> fails for a negative length other than -1.\<close>
  "read_counted l f =
     (if l < -1 then Inr (None, f)
      else if l = -1 then (if f = [] then Inr (None, f) else Inl Out_Of_Bounds)
      else if int (length f) < l then Inr (None, [])
      else Inr (Some (cstr (take (nat l) f)), drop (nat l) f))"

definition read_rdb_string :: "bytes \<Rightarrow> (string option \<times> bytes) res" where
  "read_rdb_string f =
     (case fgetc f of (first, f) \<Rightarrow>
        if first = EOF then Inr (None, f)
        else
          let type = first div 64 in
          if type = 0 then read_counted (first mod 64) f
          else if type = 1 then
            (case fgetc f of (second, f) \<Rightarrow>
               if second = EOF then Inr (None, f)
               else read_counted ((first mod 64) * 256 + second) f)
          else if type = 2 then
            (case read_be_length 4 0 f of
               (None, f) \<Rightarrow> Inr (None, f)
             | (Some l, f) \<Rightarrow> read_counted l f)
          else
            let enc_type = first mod 64 in
            if enc_type = 0 then
              (case fgetc f of (val, f) \<Rightarrow>
                 if val = EOF then Inr (None, f)
                 else Inr (Some (show_int (signed_take_bit 7 val)), f))
            else if enc_type = 1 then
              (case fgetc f of (lo, f) \<Rightarrow>
               case fgetc f of (hi, f) \<Rightarrow>
                 if lo = EOF \<or> hi = EOF then Inr (None, f)
                 else Inr (Some (show_int (signed_take_bit 15 (hi * 256 + lo))), f))
            else if enc_type = 2 then
              (if length f < 4 then Inr (None, [])
               else
                 let val = (\<Sum>i < 4. int (of_char (f ! i)) * 2 ^ (8 * i)) in
                 Inr (Some (show_int (signed_take_bit 31 val)), drop 4 f))
            else Inr (None, f))"

text \<open>The metadata loop; the round count bounds it, as every round reads at least a byte.\<close>

fun read_metadata :: "nat \<Rightarrow> bytes \<Rightarrow> (bool \<times> bytes) res" where
  \<comment> \<open>\<open>False\<close>: unexpected end of file.\<close>
  "read_metadata 0 f = Inl Out_Of_Fuel"
| "read_metadata (Suc n) f =
     (case fgetc f of (next, f') \<Rightarrow>
        if next = 0xFE then Inr (True, f')
        else if next = EOF then Inr (False, f')
        else
          rbind (read_rdb_string f) (\<lambda>(key, f).
            if key = None then Inr (True, f)
            else
              rbind (read_rdb_string f) (\<lambda>(value, f).
                if value = None then Inr (True, f) else read_metadata n f)))"

definition read_expiry :: "int \<Rightarrow> bytes \<Rightarrow> (int \<times> int \<times> bytes) option" where
  \<comment> \<open>The expiration in milliseconds, the type byte after it and the rest; \<open>None\<close> when the file
    is too short.  Seconds are multiplied in 32 bits.\<close>
  "read_expiry type f =
     (if type = 0xFD then
        (if length f < 4 then None
         else
           case fgetc (drop 4 f) of (t, f') \<Rightarrow>
             Some (((\<Sum>i < 4. int (of_char (f ! i)) * 2 ^ (8 * i)) * 1000) mod 2 ^ 32, t, f'))
      else if type = 0xFC then
        (if length f < 8 then None
         else
           case fgetc (drop 8 f) of (t, f') \<Rightarrow>
             Some ((\<Sum>i < 8. int (of_char (f ! i)) * 2 ^ (8 * i)), t, f'))
      else Some (0, type, f))"

primrec read_pairs :: "nat \<Rightarrow> redis_db \<Rightarrow> bytes \<Rightarrow> (bool \<times> redis_db \<times> bytes) res" where
  \<comment> \<open>\<open>False\<close>: the load is given up with return code 1.\<close>
  "read_pairs 0 db f = Inr (True, db, f)"
| "read_pairs (Suc n) db f =
     (case fgetc f of (type, f) \<Rightarrow>
        if type = EOF then Inr (False, db, f)
        else
          case read_expiry type f of
            None \<Rightarrow> Inr (False, db, [])
          | Some (expire_time, type, f) \<Rightarrow>
              if type = 0 then
                rbind (read_rdb_string f) (\<lambda>(key, f).
                  case key of
                    None \<Rightarrow> Inr (False, db, f)
                  | Some key \<Rightarrow>
                      rbind (read_rdb_string f) (\<lambda>(value, f).
                        case value of
                          None \<Rightarrow> Inr (False, db, f)
                        | Some value \<Rightarrow>
                            rbind (redis_db_set db key (Str value) (to_long expire_time)) (\<lambda>db.
                              read_pairs n db f)))
              else read_pairs n db f)"

fun read_sections :: "nat \<Rightarrow> redis_db \<Rightarrow> bytes \<Rightarrow> (int \<times> redis_db) res" where
  "read_sections 0 db f = Inl Out_Of_Fuel"
| "read_sections (Suc n) db f =
     (case fgetc f of (opcode, f) \<Rightarrow>
        if opcode = EOF then Inr (0, db)
        else if opcode = 0xFA then
          rbind (read_metadata (length f + 1) f) (\<lambda>(ok, f).
            if ok then read_sections n db f else Inr (1, db))
        else if opcode = 0xFB then
          (case fgetc f of (kv_size, f) \<Rightarrow>
           case fgetc f of (exp_size, f) \<Rightarrow>
             if kv_size = EOF \<or> exp_size = EOF then Inr (1, db)
             else
               rbind (read_pairs (nat kv_size) db f) (\<lambda>(ok, db, f).
                 if ok then read_sections n db f else Inr (1, db)))
        else if opcode = 0xFE then
          (case fgetc f of (db_index, f) \<Rightarrow> if db_index = EOF then Inr (1, db) else Inr (0, db))
        else if opcode = 0xFF then Inr (0, db)
        else read_sections n db f)"

definition rdb_load_data_from_file ::
  "file_system \<Rightarrow> redis_db \<Rightarrow> string \<Rightarrow> string \<Rightarrow> (int \<times> redis_db) res" where
  "rdb_load_data_from_file fs db dir filename =
     (case fs (rdb_path dir filename) of
        None \<Rightarrow> Inr (-1, db)
      | Some f \<Rightarrow>
          if length f < 9 then Inr (1, db)
          else if cstr (take 9 f) \<noteq> ''REDIS0012'' then Inr (1, db)
          else read_sections (length f + 1) db (drop 9 f))"

definition redis_db_save ::
  "file_ops \<Rightarrow> file_system \<Rightarrow> redis_db \<Rightarrow> string \<Rightarrow> string \<Rightarrow> (bool \<times> file_system) res" where
  "redis_db_save os fs db dir dbfilename = rdb_save_data_to_file os fs db dir dbfilename"

section \<open>Strings survive a round trip up to their integer encoding\<close>

definition rdb_canonical :: "string \<Rightarrow> string" where
  "rdb_canonical s =
     (case strtol s of (value, endptr, _) \<Rightarrow>
        if endptr = length s \<and> INT_MIN \<le> value \<and> value \<le> INT_MAX then show_int value else s)"

definition length_bytes_ok :: "nat \<Rightarrow> bool" where
  \<comment> \<open>No byte of a four-byte length is \<open>0xFF\<close>, which the reader takes for the end of the file.\<close>
  "length_bytes_ok n \<longleftrightarrow>
     n \<le> 16383 \<or> n < 2 ^ 31 \<and> (\<forall>b \<in> set (be_bytes 4 (int n)). int (of_char b) \<noteq> 255)"

definition rdb_int :: "string \<Rightarrow> bool" where
  \<comment> \<open>A string that is written as an integer.\<close>
  "rdb_int s \<longleftrightarrow> (case strtol s of (value, endptr, _) \<Rightarrow> endptr = length s \<and> INT_MIN \<le> value \<and> value \<le> INT_MAX)"

definition rdb_readable :: "string \<Rightarrow> bool" where
  "rdb_readable s \<longleftrightarrow> rdb_int s \<or> length_bytes_ok (length s)"

lemma of_char_byte_of: "int (of_char (byte_of i)) = i mod 256"
proof -
  have "(of_char (char_of (nat (i mod 256))) :: nat) = nat (i mod 256) mod 256"
    by (simp add: of_char_of)
  then show ?thesis unfolding byte_of_def by (simp add: nat_mod_distrib)
qed

lemma le_bytes_expand:
  "le_bytes (Suc 0) v = [byte_of v]" "le_bytes 2 v = [byte_of v, byte_of (v div 2 ^ 8)]"
  "le_bytes 4 v = [byte_of v, byte_of (v div 2 ^ 8), byte_of (v div 2 ^ 16), byte_of (v div 2 ^ 24)]"
  by (simp_all add: le_bytes_def upt_rec)

lemma signed_mod_id:
  "-128 \<le> v \<Longrightarrow> v \<le> 127 \<Longrightarrow> signed_take_bit 7 (v mod 256) = (v :: int)"
  "-32768 \<le> v \<Longrightarrow> v \<le> 32767 \<Longrightarrow> signed_take_bit 15 (v mod 65536) = v"
  "INT_MIN \<le> v \<Longrightarrow> v \<le> INT_MAX \<Longrightarrow> signed_take_bit 31 (v mod 4294967296) = v"
proof -
  have *: "signed_take_bit n (v mod 2 ^ Suc n) = signed_take_bit n v" for n
    by (simp add: take_bit_eq_mod [symmetric] signed_take_bit_take_bit del: power_Suc)
  show "-128 \<le> v \<Longrightarrow> v \<le> 127 \<Longrightarrow> signed_take_bit 7 (v mod 256) = v"
    using * [of 7] by (simp add: signed_take_bit_int_eq_self_iff)
  show "-32768 \<le> v \<Longrightarrow> v \<le> 32767 \<Longrightarrow> signed_take_bit 15 (v mod 65536) = v"
    using * [of 15] by (simp add: signed_take_bit_int_eq_self_iff)
  show "INT_MIN \<le> v \<Longrightarrow> v \<le> INT_MAX \<Longrightarrow> signed_take_bit 31 (v mod 4294967296) = v"
    using * [of 31] by (simp add: signed_take_bit_int_eq_self_iff c_limits)
qed

lemma join_bytes:
  fixes v :: int
  shows "(v div 256 mod 256) * 256 + v mod 256 = v mod 65536"
    "v mod 256 + (v div 256 mod 256) * 256 + (v div 65536 mod 256) * 65536 +
       (v div 16777216 mod 256) * 16777216 = v mod 4294967296"
proof -
  have *: "w mod (256 * n) = w mod 256 + (w div 256 mod n) * 256" if "0 \<le> n" for w n :: int
    using zmod_zmult2_eq [OF that, of w 256] by simp
  have **: "v div 256 div 256 = v div 65536" "v div 65536 div 256 = v div 16777216"
    using zdiv_zmult2_eq [of 256 v 256] zdiv_zmult2_eq [of 256 v 65536] by simp_all
  show "(v div 256 mod 256) * 256 + v mod 256 = v mod 65536" using * [of 256 v] by simp
  show "v mod 256 + (v div 256 mod 256) * 256 + (v div 65536 mod 256) * 65536 +
       (v div 16777216 mod 256) * 16777216 = v mod 4294967296"
  proof -
    have e1: "v mod 4294967296 = v mod 256 + (v div 256 mod 16777216) * 256"
      using * [of 16777216 v] by simp
    have e2: "v div 256 mod 16777216 = v div 256 mod 256 + (v div 65536 mod 65536) * 256"
      using * [of 65536 "v div 256"] **(1) by simp
    have e3: "v div 65536 mod 65536 = v div 65536 mod 256 + (v div 16777216 mod 256) * 256"
      using * [of 256 "v div 65536"] **(2) by simp
    have gen: "a + b * 256 + c * 65536 + d * 16777216 = a + (b + (c + d * 256) * 256) * 256"
      for a b c d :: int by simp
    show ?thesis unfolding e1 e2 e3 by (rule gen)
  qed
qed

text \<open>The three encodings of an integer and the three of a counted string, each read back.\<close>

lemma sum_4: "(\<Sum>i < 4. f i) = f 0 + f 1 + f 2 + f (3 :: nat)" for f :: "nat \<Rightarrow> int"
  by (simp add: eval_nat_numeral)

lemma of_char_not_EOF [simp]: "int (of_char c) \<noteq> EOF"
  by (simp add: EOF_def)

lemma read_int_bytes:
  "read_rdb_string (byte_of 0xC0 # b0 # rest) =
     Inr (Some (show_int (signed_take_bit 7 (int (of_char b0)))), rest)"
  "read_rdb_string (byte_of 0xC1 # b0 # b1 # rest) =
     Inr (Some (show_int (signed_take_bit 15 (int (of_char b1) * 256 + int (of_char b0)))), rest)"
  "read_rdb_string (byte_of 0xC2 # b0 # b1 # b2 # b3 # rest) =
     Inr (Some (show_int (signed_take_bit 31
       (int (of_char b0) + int (of_char b1) * 256 + int (of_char b2) * 65536 + int (of_char b3) * 16777216))), rest)"
  by (simp_all add: read_rdb_string_def of_char_byte_of Let_def sum_4 EOF_def)

lemma read_int_encodings:
  "-128 \<le> v \<Longrightarrow> v \<le> 127 \<Longrightarrow>
     read_rdb_string ((byte_of 0xC0 # le_bytes 1 v) @ rest) = Inr (Some (show_int v), rest)"
  "-32768 \<le> v \<Longrightarrow> v \<le> 32767 \<Longrightarrow>
     read_rdb_string ((byte_of 0xC1 # le_bytes 2 v) @ rest) = Inr (Some (show_int v), rest)"
  "INT_MIN \<le> v \<Longrightarrow> v \<le> INT_MAX \<Longrightarrow>
     read_rdb_string ((byte_of 0xC2 # le_bytes 4 v) @ rest) = Inr (Some (show_int v), rest)"
proof -
  have pow: "(2 :: int) ^ 8 = 256" "(2 :: int) ^ 16 = 65536" "(2 :: int) ^ 24 = 16777216" by simp_all
  note rules = One_nat_def le_bytes_expand append.simps read_int_bytes of_char_byte_of pow join_bytes
  show "-128 \<le> v \<Longrightarrow> v \<le> 127 \<Longrightarrow>
     read_rdb_string ((byte_of 0xC0 # le_bytes 1 v) @ rest) = Inr (Some (show_int v), rest)"
    by (simp only: rules signed_mod_id(1))
  show "-32768 \<le> v \<Longrightarrow> v \<le> 32767 \<Longrightarrow>
     read_rdb_string ((byte_of 0xC1 # le_bytes 2 v) @ rest) = Inr (Some (show_int v), rest)"
    by (simp only: rules signed_mod_id(2))
  show "INT_MIN \<le> v \<Longrightarrow> v \<le> INT_MAX \<Longrightarrow>
     read_rdb_string ((byte_of 0xC2 # le_bytes 4 v) @ rest) = Inr (Some (show_int v), rest)"
    by (simp only: rules signed_mod_id(3))
qed

lemma read_counted_append:
  "nul_free s \<Longrightarrow> read_counted (int (length s)) (s @ rest) = Inr (Some s, rest)"
  by (simp add: read_counted_def)

lemma read_two_byte_length:
  "int (of_char b1) div 64 = 1 \<Longrightarrow>
   read_rdb_string (b1 # b0 # f) = read_counted (int (of_char b1) mod 64 * 256 + int (of_char b0)) f"
  by (simp add: read_rdb_string_def Let_def)

lemma char_range: "0 \<le> int (of_char b) \<and> int (of_char b) < 256" for b :: char
  using of_char_mod_256 [where 'a = nat, of b] by (metis mod_less_divisor of_nat_0_le_iff of_nat_less_iff
      of_nat_numeral zero_less_numeral)

text \<open>Only the byte 255, widened with its sign, is taken for the end of the file.\<close>

lemma fgetc_not_EOF:
  assumes "int (of_char b) \<noteq> 255"
  shows "signed_take_bit 7 (int (of_char b)) \<noteq> EOF"
proof
  assume "signed_take_bit 7 (int (of_char b)) = EOF"
  then have "take_bit 8 (signed_take_bit 7 (int (of_char b))) = take_bit 8 (-1)" by (simp add: EOF_def)
  then have "take_bit 8 (int (of_char b)) = 255"
    by (simp add: take_bit_signed_take_bit take_bit_minus_one_eq_mask mask_eq_exp_minus_1)
  with char_range [of b] assms show False by (simp add: take_bit_eq_mod)
qed

lemma int_of_long_byte:
  assumes "0 \<le> i" "i + 255 < 2147483648"
  shows "int_of_long (i + int (of_char b) mod 256) = i + int (of_char b)"
proof -
  have "int (of_char b) mod 256 = int (of_char b)" using char_range [of b] by (intro mod_pos_pos_trivial) auto
  moreover have "i + int (of_char b) \<le> 2147483647" "0 \<le> i + int (of_char b)" using char_range [of b] assms by linarith+
  then have "int_of_long (i + int (of_char b)) = i + int (of_char b)" by (intro int_of_long_id) (simp_all add: c_limits)
  ultimately show ?thesis by simp
qed

lemma read_four_byte_length:
  assumes "\<forall>b \<in> {b3, b2, b1, b0}. int (of_char b) \<noteq> 255"
    and "int (of_char b3) < 128"
  shows "read_rdb_string (byte_of 0x80 # b3 # b2 # b1 # b0 # f) =
    read_counted (int (of_char b0) + int (of_char b1) * 256 + int (of_char b2) * 65536 + int (of_char b3) * 16777216) f"
proof -
  let ?b = "\<lambda>b. int (of_char b)"
  note bounds = char_range [of b0, THEN conjunct1] char_range [of b0, THEN conjunct2] char_range [of b1, THEN conjunct1]
    char_range [of b1, THEN conjunct2] char_range [of b2, THEN conjunct1] char_range [of b2, THEN conjunct2]
    char_range [of b3, THEN conjunct1] assms(2)
  have t2: "(0 * 256 + ?b b3) * 256 = ?b b3 * 256" by simp
  have t3: "((0 * 256 + ?b b3) * 256 + ?b b2) * 256 = ?b b3 * 65536 + ?b b2 * 256" by simp
  have t4: "(((0 * 256 + ?b b3) * 256 + ?b b2) * 256 + ?b b1) * 256 =
      ?b b3 * 16777216 + ?b b2 * 65536 + ?b b1 * 256" by simp
  have s1: "int_of_long (0 * 256 + ?b b3 mod 256) = 0 * 256 + ?b b3" by (rule int_of_long_byte) simp_all
  have s2: "int_of_long ((0 * 256 + ?b b3) * 256 + ?b b2 mod 256) = (0 * 256 + ?b b3) * 256 + ?b b2"
    unfolding t2 by (rule int_of_long_byte) (use bounds in linarith)+
  have s3: "int_of_long (((0 * 256 + ?b b3) * 256 + ?b b2) * 256 + ?b b1 mod 256) =
      ((0 * 256 + ?b b3) * 256 + ?b b2) * 256 + ?b b1"
    unfolding t3 by (rule int_of_long_byte) (use bounds in linarith)+
  have s4: "int_of_long ((((0 * 256 + ?b b3) * 256 + ?b b2) * 256 + ?b b1) * 256 + ?b b0 mod 256) =
      (((0 * 256 + ?b b3) * 256 + ?b b2) * 256 + ?b b1) * 256 + ?b b0"
    unfolding t4 by (rule int_of_long_byte) (use bounds in linarith)+
  have four: "(4 :: nat) = Suc (Suc (Suc (Suc 0)))" by simp
  have nb: "int (of_char b3) \<noteq> 255" "int (of_char b2) \<noteq> 255" "int (of_char b1) \<noteq> 255" "int (of_char b0) \<noteq> 255"
    using assms(1) by simp_all
  have "read_be_length 4 0 (b3 # b2 # b1 # b0 # f) =
      (Some (?b b3 * 16777216 + ?b b2 * 65536 + ?b b1 * 256 + ?b b0), f)"
    unfolding four
    by (simp only: read_be_length.simps fgetc.simps prod.case fgetc_not_EOF [OF nb(1)] fgetc_not_EOF [OF nb(2)] fgetc_not_EOF [OF nb(3)]
        fgetc_not_EOF [OF nb(4)] if_False s1 s2 s3 s4) (simp only: t4)
  then show ?thesis
    by (simp add: read_rdb_string_def of_char_byte_of EOF_def Let_def algebra_simps)
qed

lemma read_counted_encodings:
  assumes "nul_free s"
  shows "length s \<le> 63 \<Longrightarrow> read_rdb_string ((byte_of (int (length s)) # s) @ rest) = Inr (Some s, rest)"
    "63 < length s \<Longrightarrow> length s \<le> 16383 \<Longrightarrow>
      read_rdb_string ((be_bytes 2 (0x4000 + int (length s)) @ s) @ rest) = Inr (Some s, rest)"
    "16383 < length s \<Longrightarrow> length_bytes_ok (length s) \<Longrightarrow>
      read_rdb_string ((byte_of 0x80 # be_bytes 4 (int (length s)) @ s) @ rest) = Inr (Some s, rest)"
proof -
  let ?n = "int (length s)"
  have pow: "(2 :: int) ^ 8 = 256" "(2 :: int) ^ 16 = 65536" "(2 :: int) ^ 24 = 16777216" by simp_all
  note read = read_counted_append [OF assms, of rest]
  show "length s \<le> 63 \<Longrightarrow> read_rdb_string ((byte_of ?n # s) @ rest) = Inr (Some s, rest)"
    using read by (simp add: read_rdb_string_def EOF_def of_char_byte_of Let_def)
  {
    assume len: "63 < length s" "length s \<le> 16383"
    have x: "0 \<le> ?n div 256" "?n div 256 < 64" using len by (simp_all add: div_less_iff_less_mult)
    have "(16384 + ?n) div 256 = 64 + ?n div 256" using div_mult_self1 [of 256 ?n 64] by simp
    with x have hi: "(16384 + ?n) div 256 mod 256 = 64 + ?n div 256" by simp
    have lo: "(16384 + ?n) mod 256 = ?n mod 256" using mod_mult_self1 [of ?n 64 256] by (simp add: add.commute)
    have parts: "(64 + ?n div 256) div 64 = 1" "(64 + ?n div 256) mod 64 = ?n div 256"
      using x by (simp_all add: div_pos_pos_trivial)
    have "be_bytes 2 (0x4000 + ?n) = [byte_of ((16384 + ?n) div 256), byte_of (16384 + ?n)]"
      by (simp only: be_bytes_def le_bytes_expand pow rev.simps append.simps)
    then have "read_rdb_string ((be_bytes 2 (0x4000 + ?n) @ s) @ rest) =
        read_counted (?n div 256 * 256 + ?n mod 256) (s @ rest)"
      using read_two_byte_length [of "byte_of ((16384 + ?n) div 256)" "byte_of (16384 + ?n)" "s @ rest"]
      by (simp only: of_char_byte_of hi lo parts append.simps append_assoc)
    with read show "read_rdb_string ((be_bytes 2 (0x4000 + ?n) @ s) @ rest) = Inr (Some s, rest)"
      by (simp only: div_mult_mod_eq)
  }
  {
    assume len: "16383 < length s" "length_bytes_ok (length s)"
    have bytes: "be_bytes 4 ?n = [byte_of (?n div 16777216), byte_of (?n div 65536), byte_of (?n div 256), byte_of ?n]"
      by (simp only: be_bytes_def le_bytes_expand pow rev.simps append.simps)
    from len have small: "?n < 2147483648" and ne: "\<forall>b \<in> set (be_bytes 4 ?n). int (of_char b) \<noteq> 255"
      by (auto simp: length_bytes_ok_def)
    have x: "0 \<le> ?n div 16777216" "?n div 16777216 < 128" using small by (simp_all add: div_less_iff_less_mult)
    then have "?n div 16777216 mod 256 = ?n div 16777216" by (intro mod_pos_pos_trivial) linarith+
    with x(2) have top: "?n div 16777216 mod 256 < 128" by (simp only:)
    have id: "?n mod 4294967296 = ?n" using small by (intro mod_pos_pos_trivial) linarith+
    note four = read_four_byte_length [OF ne [unfolded bytes list.set], of "s @ rest", unfolded of_char_byte_of, OF top]
    have "read_rdb_string ((byte_of 0x80 # be_bytes 4 ?n @ s) @ rest) = read_counted ?n (s @ rest)"
      using four by (simp only: bytes append.simps append_assoc join_bytes(2) id)
    with read show "read_rdb_string ((byte_of 0x80 # be_bytes 4 ?n @ s) @ rest) = Inr (Some s, rest)"
      by (simp only:)
  }
qed

lemma read_written_string:
  assumes "nul_free s" "rdb_readable s"
  shows "read_rdb_string (write_rdb_string s @ rest) = Inr (Some (rdb_canonical s), rest)"
proof -
  obtain v e r where sl: "strtol s = (v, e, r)" by (cases "strtol s") auto
  show ?thesis
  proof (cases "e = length s \<and> INT_MIN \<le> v \<and> v \<le> INT_MAX")
    case True
    then show ?thesis
      using read_int_encodings [of v rest] unfolding write_rdb_string_def rdb_canonical_def sl Let_def prod.case
      by (simp only: if_True simp_thms split: if_split) simp
  next
    case False
    then have "\<not> (e = length s \<and> -128 \<le> v \<and> v \<le> 127)" "\<not> (e = length s \<and> -32768 \<le> v \<and> v \<le> 32767)"
      by (auto simp: c_limits)
    moreover have "length_bytes_ok (length s)" using assms(2) False by (auto simp: rdb_readable_def rdb_int_def sl)
    ultimately show ?thesis
      using False read_counted_encodings [OF assms(1), of rest]
      unfolding write_rdb_string_def rdb_canonical_def sl Let_def prod.case
      by (cases "length s \<le> 63"; cases "length s \<le> 16383") (simp_all only: if_False, simp_all)
  qed
qed

text \<open>A length byte \<open>0xFF\<close> stops the reader.\<close>

lemma read_be_length_stops:
  assumes "b \<in> set bs" "int (of_char b) = 255"
  shows "\<exists>f'. read_be_length (length bs) acc (bs @ f) = (None, f')"
  using assms
proof (induction bs arbitrary: acc)
  case (Cons c cs)
  have "signed_take_bit 7 (255 :: int) = EOF" by (simp add: EOF_def)
  with Cons show ?case by (cases "b = c") auto
qed simp

lemma read_unreadable_string:
  assumes "length s < 2 ^ 31" "\<not> rdb_readable s"
  shows "\<exists>f. read_rdb_string (write_rdb_string s @ rest) = Inr (None, f)"
proof -
  from assms have long: "16383 < length s" and "\<exists>b \<in> set (be_bytes 4 (int (length s))). int (of_char b) = 255"
    by (auto simp: rdb_readable_def length_bytes_ok_def)
  then obtain b where b: "b \<in> set (be_bytes 4 (int (length s)))" "int (of_char b) = 255" by blast
  have "length (be_bytes 4 (int (length s))) = 4" by (simp add: be_bytes_def le_bytes_def)
  with read_be_length_stops [OF b, of 0 "s @ rest"] obtain f where
    f: "read_be_length 4 0 (be_bytes 4 (int (length s)) @ s @ rest) = (None, f)" by auto
  obtain v e r where sl: "strtol s = (v, e, r)" by (cases "strtol s") auto
  have "\<not> (e = length s \<and> INT_MIN \<le> v \<and> v \<le> INT_MAX)" using assms(2) by (simp add: rdb_readable_def rdb_int_def sl)
  then have "write_rdb_string s = byte_of 0x80 # be_bytes 4 (int (length s)) @ s"
    using long by (auto simp: write_rdb_string_def sl c_limits)
  then show ?thesis using f by (simp add: read_rdb_string_def of_char_byte_of EOF_def Let_def)
qed

section \<open>Properties\<close>

text \<open>
  C23 (roundtrip): what is read back of a string of less than \<open>2 ^ 31\<close> characters that was written to a
  snapshot.  A string that \<^verbatim>\<open>strtoll\<close> reads to its end as a 32-bit integer comes back in canonical decimal
  form (so \<open>007\<close> comes back as \<open>7\<close>, and the empty string as \<open>0\<close>), and every other string as it was, with
  nothing else consumed; except that the reader gives up on a string of more than 16383 characters whose
  four-byte length contains the byte \<open>0xFF\<close>, which it takes for the end of the file.
\<close>

theorem rdb_string_roundtrip:
  assumes "nul_free s" "length s < 2 ^ 31"
  shows "if rdb_readable s then read_rdb_string (write_rdb_string s @ rest) = Inr (Some (rdb_canonical s), rest)
    else \<exists>f. read_rdb_string (write_rdb_string s @ rest) = Inr (None, f)"
  using assms read_written_string read_unreadable_string by auto

theorem rdb_string_roundtrip_witness:
  "read_rdb_string (write_rdb_string ''007'' @ ''rest'') = Inr (Some ''7'', ''rest'') \<and>
   rdb_canonical [] = ''0'' \<and> rdb_canonical ''hello'' = ''hello'' \<and>
   (\<exists>f. read_rdb_string (write_rdb_string (replicate 16639 (CHR ''x'')) @ ''rest'') = Inr (None, f))"
proof -
  let ?xs = "replicate 16639 (CHR ''x'')"
  have canon: "rdb_canonical ''007'' = ''7''" "rdb_canonical [] = ''0''" "rdb_canonical ''hello'' = ''hello''"
    by code_simp+
  have "rdb_readable ''007''" by (simp add: rdb_readable_def length_bytes_ok_def)
  with rdb_string_roundtrip [of "''007''" "''rest''"] canon(1)
  have "read_rdb_string (write_rdb_string ''007'' @ ''rest'') = Inr (Some ''7'', ''rest'')" by simp
  moreover have "be_bytes 4 16639 = [byte_of 0, byte_of 0, byte_of 64, byte_of 255]" "of_char (byte_of 255) = (255 :: nat)"
    by code_simp+
  then have "\<not> length_bytes_ok 16639" by (simp add: length_bytes_ok_def)
  moreover have "strtol (CHR ''x'' # xs) = (0, 0, False)" for xs by (simp add: strtol_def is_space_def is_digit_def)
  then have "\<not> rdb_int (CHR ''x'' # xs)" for xs by (simp add: rdb_int_def)
  moreover have xs: "length ?xs = 16639" "nul_free ?xs" by (simp_all only: length_replicate nul_free_def in_set_replicate) simp
  moreover from xs(1) have "\<exists>ys. ?xs = CHR ''x'' # ys" by (metis in_set_replicate length_0_conv list.set_intros(1) neq_Nil_conv zero_neq_numeral)
  ultimately show ?thesis
    using rdb_string_roundtrip [of ?xs "''rest''"] canon(2,3) by (auto simp only: rdb_readable_def) simp_all
qed

end
