(* ===== verification/Ring_Buffer.thy ===== *)
theory Ring_Buffer
  imports Prelude
begin

text \<open>
  The ring buffer of \<^verbatim>\<open>ring_buffer.c\<close>: a shared-memory object of \<open>size\<close> bytes mapped twice in
  a row, a read index and a write index that only grow.  The model keeps the two 64-bit indices
  and the bytes of the shared object; a pointer into the region is its offset from the region's
  start, and the double mapping makes offset \<open>o\<close> denote byte \<open>o mod size\<close>.  The abstraction
  \<open>contents\<close> is the byte sequence between the two indices, and the operations refine a bounded
  first-in first-out queue of bytes (locale \<open>byte_fifo\<close>).
\<close>

section \<open>State\<close>

record ring_buffer =
  read_index :: u64
  write_index :: u64
  region :: "bytes option"
  rb_size :: u64
  rb_fd :: int

definition assert_state :: "ring_buffer \<Rightarrow> bool" where
  "assert_state rb \<longleftrightarrow>
     rb_fd rb \<noteq> -1 \<and> region rb \<noteq> None \<and>
     read_index rb \<le> write_index rb \<and>
     write_index rb - read_index rb \<le> rb_size rb"

definition readable_len :: "ring_buffer \<Rightarrow> u64" where
  "readable_len rb = write_index rb - read_index rb"

definition writable_len :: "ring_buffer \<Rightarrow> u64" where
  "writable_len rb = rb_size rb - readable_len rb"

section \<open>Operations\<close>

text \<open>
  The operating system as \<open>rb_create\<close> sees it: the page size, whether \<^verbatim>\<open>malloc\<close>, \<^verbatim>\<open>shm_unlink\<close>,
  \<^verbatim>\<open>ftruncate\<close> and the two \<^verbatim>\<open>mmap\<close> calls succeed, what \<^verbatim>\<open>snprintf\<close> and \<^verbatim>\<open>shm_open\<close> return.
  \<open>os_call\<close> records the resources that \<open>rb_destroy\<close> gives back.
\<close>

record rb_os =
  page_size :: u64
  malloc_ok :: bool
  name_len :: int
  shm_fd :: int
  unlink_ok :: bool
  ftruncate_ok :: bool
  map1_ok :: bool
  map2_ok :: bool

datatype os_call = Close int | Munmap u64 | Free_rb

definition rb_destroy :: "ring_buffer option \<Rightarrow> int \<times> os_call list" where
  "rb_destroy p =
     (case p of
        None \<Rightarrow> (-1, [])
      | Some rb \<Rightarrow>
          (0, (if rb_fd rb \<noteq> -1 then [Close (rb_fd rb)] else []) @
              (if region rb \<noteq> None then [Munmap (rb_size rb * 2)] else []) @ [Free_rb]))"

definition rb_create ::
  "rb_os \<Rightarrow> u64 \<Rightarrow> (int \<times> ring_buffer option \<times> os_call list) res" where
  "rb_create os sz =
     (let fail = (\<lambda>rb. Inr (-1, None, snd (rb_destroy (Some rb)))) in
      if sz mod page_size os \<noteq> 0 then Inr (-1, None, [])
      else if \<not> malloc_ok os then Inr (-1, None, [])
      else
        let rb = \<lparr>read_index = 0, write_index = 0, region = None, rb_size = sz, rb_fd = -1\<rparr> in
        if name_len os < 0 \<or> 64 \<le> name_len os then fail rb
        else
          let rb = rb\<lparr>rb_fd := shm_fd os\<rparr> in
          if rb_fd rb = -1 then fail rb
          else if \<not> unlink_ok os then fail rb
          else if \<not> ftruncate_ok os then fail rb
          else if \<not> map1_ok os then fail rb
          else
            let rb = rb\<lparr>region := Some (replicate (unat sz) NUL)\<rparr> in
            if \<not> map2_ok os then fail rb
            else rbind (require Assertion_Failed (assert_state rb)) (\<lambda>_. Inr (0, Some rb, [])))"

definition rb_readable :: "ring_buffer \<Rightarrow> (nat \<times> u64) res" where
  "rb_readable rb =
     rbind (require Assertion_Failed (assert_state rb)) (\<lambda>_.
       Inr (unat (read_index rb mod rb_size rb), readable_len rb))"

definition rb_writable :: "ring_buffer \<Rightarrow> (nat \<times> u64) res" where
  "rb_writable rb =
     rbind (require Assertion_Failed (assert_state rb)) (\<lambda>_.
       Inr (unat (write_index rb mod rb_size rb), writable_len rb))"

definition rb_read :: "ring_buffer \<Rightarrow> u64 \<Rightarrow> (int \<times> ring_buffer) res" where
  "rb_read rb len =
     rbind (require Assertion_Failed (assert_state rb)) (\<lambda>_.
       if readable_len rb < len then Inr (-1, rb)
       else
         let rb' = rb\<lparr>read_index := read_index rb + len\<rparr> in
         rbind (require Assertion_Failed (assert_state rb')) (\<lambda>_. Inr (0, rb')))"

definition rb_write :: "ring_buffer \<Rightarrow> u64 \<Rightarrow> (int \<times> ring_buffer) res" where
  "rb_write rb len =
     rbind (require Assertion_Failed (assert_state rb)) (\<lambda>_.
       if writable_len rb < len then Inr (-1, rb)
       else
         let rb' = rb\<lparr>write_index := write_index rb + len\<rparr> in
         rbind (require Assertion_Failed (assert_state rb')) (\<lambda>_. Inr (0, rb')))"

text \<open>
  Loads and stores through a pointer into the region, one byte at a time.  The region is
  \<open>2 * size\<close> bytes long and its second half is the first half again.
\<close>

primrec store_bytes :: "nat \<Rightarrow> bytes \<Rightarrow> bytes \<Rightarrow> bytes" where
  "store_bytes off [] m = m"
| "store_bytes off (b # bs) m = store_bytes (Suc off) bs (m[off mod length m := b])"

definition load_bytes :: "nat \<Rightarrow> nat \<Rightarrow> bytes \<Rightarrow> bytes" where
  "load_bytes off n m = map (\<lambda>i. m ! ((off + i) mod length m)) [0..<n]"

definition region_store :: "ring_buffer \<Rightarrow> nat \<Rightarrow> bytes \<Rightarrow> ring_buffer res" where
  "region_store rb off bs =
     (case region rb of
        None \<Rightarrow> Inl Null_Pointer
      | Some m \<Rightarrow>
          if off + length bs \<le> 2 * unat (rb_size rb)
          then Inr (rb\<lparr>region := Some (store_bytes off bs m)\<rparr>)
          else Inl Out_Of_Bounds)"

definition region_load :: "ring_buffer \<Rightarrow> nat \<Rightarrow> nat \<Rightarrow> bytes res" where
  "region_load rb off n =
     (case region rb of
        None \<Rightarrow> Inl Null_Pointer
      | Some m \<Rightarrow>
          if off + n \<le> 2 * unat (rb_size rb) then Inr (load_bytes off n m)
          else Inl Out_Of_Bounds)"

text \<open>
  The idioms of the callers: copy bytes to the writable pointer and advance the write index
  (\<open>rb_put\<close>); look at the readable bytes (\<open>rb_peek\<close>); advance the read index (\<open>rb_skip\<close>).
\<close>

definition rb_put :: "ring_buffer \<Rightarrow> bytes \<Rightarrow> ring_buffer res" where
  "rb_put rb bs =
     rbind (rb_writable rb) (\<lambda>(off, _).
     rbind (region_store rb off bs) (\<lambda>rb.
     rbind (rb_write rb (of_nat (length bs))) (\<lambda>(_, rb). Inr rb)))"

definition rb_peek :: "ring_buffer \<Rightarrow> bytes res" where
  "rb_peek rb = rbind (rb_readable rb) (\<lambda>(off, len). region_load rb off (unat len))"

definition rb_skip :: "ring_buffer \<Rightarrow> nat \<Rightarrow> ring_buffer res" where
  "rb_skip rb n = rbind (rb_read rb (of_nat n)) (\<lambda>(_, rb). Inr rb)"

section \<open>Abstraction and invariant\<close>

definition mem :: "ring_buffer \<Rightarrow> bytes" where
  "mem rb = (case region rb of None \<Rightarrow> [] | Some m \<Rightarrow> m)"

definition rb_inv :: "ring_buffer \<Rightarrow> bool" where
  "rb_inv rb \<longleftrightarrow> assert_state rb \<and> 0 < rb_size rb \<and> length (mem rb) = unat (rb_size rb)"

definition contents :: "ring_buffer \<Rightarrow> bytes" where
  "contents rb = load_bytes (unat (read_index rb)) (unat (readable_len rb)) (mem rb)"

definition capacity :: "ring_buffer \<Rightarrow> nat" where
  "capacity rb = unat (rb_size rb)"

definition index_budget :: "ring_buffer \<Rightarrow> nat" where
  "index_budget rb = 2 ^ 64 - 1 - unat (write_index rb)"


section \<open>The double mapping\<close>

lemma mod_add_inj:
  fixes a i j n :: nat
  assumes "(a + i) mod n = (a + j) mod n" "i < n" "j < n"
  shows "i = j"
proof -
  have "\<And>i j. (a + i) mod n = (a + j) mod n \<Longrightarrow> i \<le> j \<Longrightarrow> j < n \<Longrightarrow> i = j"
  proof -
    fix i j assume eq: "(a + i) mod n = (a + j) mod n" and le: "i \<le> j" and "j < n"
    from eq le have "n dvd (a + j) - (a + i)" by (metis mod_eq_dvd_iff_nat nat_add_left_cancel_le)
    then have "n dvd j - i" by simp
    with \<open>j < n\<close> le show "i = j" by (metis diff_less dvd_imp_le leD le_eq_less_or_eq less_imp_diff_less zero_less_diff)
  qed
  then show ?thesis using assms by (metis nat_le_linear)
qed

lemma length_store_bytes [simp]: "length (store_bytes off bs m) = length m"
  by (induction bs arbitrary: off m) simp_all

lemma store_bytes_other:
  "(\<And>j. j < length bs \<Longrightarrow> (off + j) mod length m \<noteq> k) \<Longrightarrow> store_bytes off bs m ! k = m ! k"
proof (induction bs arbitrary: off m)
  case Nil
  then show ?case by simp
next
  case (Cons b bs)
  have "store_bytes (Suc off) bs (m[off mod length m := b]) ! k = m[off mod length m := b] ! k"
  proof (rule Cons.IH)
    fix j assume "j < length bs"
    with Cons.prems [of "Suc j"] show "(Suc off + j) mod length (m[off mod length m := b]) \<noteq> k"
      by simp
  qed
  with Cons.prems [of 0] show ?case by simp
qed

lemma store_bytes_same:
  "length bs \<le> length m \<Longrightarrow> j < length bs \<Longrightarrow>
   store_bytes off bs m ! ((off + j) mod length m) = bs ! j"
proof (induction bs arbitrary: off m j)
  case Nil
  then show ?case by simp
next
  case (Cons b bs)
  let ?m = "m[off mod length m := b]"
  from Cons.prems have pos: "0 < length m" by auto
  show ?case
  proof (cases j)
    case 0
    have "store_bytes (Suc off) bs ?m ! (off mod length m) = ?m ! (off mod length m)"
    proof (rule store_bytes_other)
      fix i assume "i < length bs"
      show "(Suc off + i) mod length ?m \<noteq> off mod length m"
      proof
        assume "(Suc off + i) mod length ?m = off mod length m"
        then have "(off + Suc i) mod length m = (off + 0) mod length m" by simp
        from mod_add_inj [OF this] \<open>i < length bs\<close> Cons.prems pos show False by simp
      qed
    qed
    with 0 pos show ?thesis by simp
  next
    case (Suc i)
    with Cons.prems Cons.IH [of ?m i "Suc off"] show ?thesis by simp
  qed
qed

lemma load_bytes_append:
  "load_bytes off (n + k) m = load_bytes off n m @ load_bytes (off + n) k m"
  by (simp add: load_bytes_def map_upt_append add.assoc)

lemma length_load_bytes [simp]: "length (load_bytes off n m) = n"
  by (simp add: load_bytes_def)

lemma load_bytes_mod: "load_bytes (off mod length m) n m = load_bytes off n m"
  by (simp add: load_bytes_def mod_add_left_eq)

lemma store_bytes_mod: "store_bytes (off mod length m) bs m = store_bytes off bs m"
proof (induction bs arbitrary: off m)
  case Nil
  then show ?case by simp
next
  case (Cons b bs)
  let ?m = "m[off mod length m := b]"
  have "store_bytes (Suc (off mod length m)) bs ?m = store_bytes (Suc off) bs ?m"
    using Cons.IH [of "Suc (off mod length m)" ?m] Cons.IH [of "Suc off" ?m]
    by (simp add: mod_Suc_eq)
  then show ?case by simp
qed

lemma load_store_same:
  "length bs \<le> length m \<Longrightarrow> load_bytes off (length bs) (store_bytes off bs m) = bs"
  by (rule nth_equalityI) (simp_all add: load_bytes_def store_bytes_same)

lemma load_store_before:
  assumes "n + length bs \<le> length m"
  shows "load_bytes off n (store_bytes (off + n) bs m) = load_bytes off n m"
proof (rule nth_equalityI)
  fix i assume "i < length (load_bytes off n (store_bytes (off + n) bs m))"
  then have i: "i < n" by simp
  have "store_bytes (off + n) bs m ! ((off + i) mod length m) = m ! ((off + i) mod length m)"
  proof (rule store_bytes_other)
    fix j assume "j < length bs"
    with i assms show "(off + n + j) mod length m \<noteq> (off + i) mod length m"
      using mod_add_inj [of off "n + j" "length m" i] by (auto simp: add.assoc)
  qed
  with i show "load_bytes off n (store_bytes (off + n) bs m) ! i = load_bytes off n m ! i"
    by (simp add: load_bytes_def)
qed simp

section \<open>Facts of the invariant\<close>

lemma rb_invD:
  assumes "rb_inv rb"
  shows "assert_state rb" "0 < unat (rb_size rb)" "region rb = Some (mem rb)"
    "length (mem rb) = unat (rb_size rb)" "read_index rb \<le> write_index rb"
    "unat (readable_len rb) \<le> unat (rb_size rb)"
    "unat (readable_len rb) = unat (write_index rb) - unat (read_index rb)"
    "unat (writable_len rb) = unat (rb_size rb) - unat (readable_len rb)"
  using assms
  by (auto simp: rb_inv_def assert_state_def mem_def readable_len_def writable_len_def
      word_le_nat_alt unat_gt_0 unat_sub split: option.splits)

lemma length_contents [simp]: "length (contents rb) = unat (readable_len rb)"
  by (simp add: contents_def)

lemma contents_bounded: "rb_inv rb \<Longrightarrow> length (contents rb) \<le> capacity rb"
  using rb_invD(6) by (simp add: capacity_def)

lemma writable_len_room:
  "rb_inv rb \<Longrightarrow> unat (writable_len rb) = capacity rb - length (contents rb)"
  using rb_invD(8) by (simp add: capacity_def)

lemma region_store_inv:
  assumes "rb_inv rb" "off + length bs \<le> 2 * capacity rb"
  shows "region_store rb off bs = Inr (rb\<lparr>region := Some (store_bytes off bs (mem rb))\<rparr>)"
    "rb_inv (rb\<lparr>region := Some (store_bytes off bs (mem rb))\<rparr>)"
proof -
  from rb_invD(3) [OF assms(1)] assms(2)
  show "region_store rb off bs = Inr (rb\<lparr>region := Some (store_bytes off bs (mem rb))\<rparr>)"
    by (simp add: region_store_def capacity_def)
  from assms(1) show "rb_inv (rb\<lparr>region := Some (store_bytes off bs (mem rb))\<rparr>)"
    by (simp add: rb_inv_def assert_state_def mem_def [of "rb\<lparr>region := _\<rparr>"])
qed

lemma rb_writable_inv:
  assumes "rb_inv rb"
  shows "rb_writable rb = Inr (unat (write_index rb) mod unat (rb_size rb), writable_len rb)"
  using rb_invD [OF assms] by (simp add: rb_writable_def unat_mod_distrib)

lemma rb_readable_inv:
  assumes "rb_inv rb"
  shows "rb_readable rb = Inr (unat (read_index rb) mod unat (rb_size rb), readable_len rb)"
  using rb_invD [OF assms] by (simp add: rb_readable_def unat_mod_distrib)


section \<open>The operations on the abstract contents\<close>

lemma rb_peek_inv: "rb_inv rb \<Longrightarrow> rb_peek rb = Inr (contents rb)"
proof -
  assume inv: "rb_inv rb"
  note facts = rb_invD [OF inv]
  have "unat (read_index rb) mod unat (rb_size rb) < unat (rb_size rb)"
    using facts(2) by (rule mod_less_divisor)
  then have "unat (read_index rb) mod unat (rb_size rb) + unat (readable_len rb)
      \<le> 2 * unat (rb_size rb)"
    using facts(6) by linarith
  then show ?thesis
    using facts(3,4) load_bytes_mod [of "unat (read_index rb)" "mem rb"]
    by (simp add: rb_peek_def rb_readable_inv [OF inv] region_load_def contents_def)
qed

lemma rb_read_ok:
  assumes inv: "rb_inv rb" and n: "n \<le> length (contents rb)"
  defines "rb' \<equiv> rb\<lparr>read_index := read_index rb + of_nat n\<rparr>"
  shows "rb_read rb (of_nat n) = Inr (0, rb')" "rb_inv rb'" "contents rb' = drop n (contents rb)"
    "capacity rb' = capacity rb" "index_budget rb' = index_budget rb"
proof -
  note facts = rb_invD [OF inv]
  have nle: "n \<le> unat (readable_len rb)" using n by simp
  then have n64: "unat (of_nat n :: u64) = n"
    by (metis le_less_trans unat_lt_2p64 unat_of_nat_64)
  have idx: "unat (read_index rb + of_nat n) = unat (read_index rb) + n"
  proof -
    have "unat (read_index rb) + n \<le> unat (write_index rb)"
      using nle facts(5,7) by (simp add: word_le_nat_alt)
    then have "unat (read_index rb) + unat (of_nat n :: u64) < 2 ^ 64"
      using unat_lt_2p64 [of "write_index rb"] n64 by linarith
    then show ?thesis using unat_add_no_wrap n64 by metis
  qed
  have le': "read_index rb' \<le> write_index rb'"
    using nle facts(5,7) idx by (simp add: rb'_def word_le_nat_alt)
  have len': "unat (readable_len rb') = unat (readable_len rb) - n"
    using le' facts(7) idx unat_sub_le [of "read_index rb'" "write_index rb'"]
    by (simp add: readable_len_def rb'_def)
  have st': "assert_state rb'"
    using facts(1,6) le' len' by (auto simp: assert_state_def rb'_def readable_len_def word_le_nat_alt)
  have "\<not> readable_len rb < of_nat n" using nle n64 by (simp add: word_less_nat_alt)
  with facts(1) st' show "rb_read rb (of_nat n) = Inr (0, rb')"
    by (simp add: rb_read_def rb'_def Let_def)
  show "rb_inv rb'"
    using inv st' by (simp add: rb_inv_def rb'_def mem_def)
  show "contents rb' = drop n (contents rb)"
    using load_bytes_append [of "unat (read_index rb)" n "unat (readable_len rb) - n" "mem rb"]
      nle idx len' by (simp add: contents_def rb'_def mem_def)
  show "capacity rb' = capacity rb" "index_budget rb' = index_budget rb"
    by (simp_all add: capacity_def index_budget_def rb'_def)
qed

lemma rb_skip_ok:
  assumes "rb_inv rb" "n \<le> length (contents rb)"
  shows "\<exists>rb'. rb_skip rb n = Inr rb' \<and> rb_inv rb' \<and> contents rb' = drop n (contents rb) \<and>
    capacity rb' = capacity rb \<and> index_budget rb' = index_budget rb"
  using rb_read_ok [OF assms] by (simp add: rb_skip_def)

lemma rb_write_ok:
  assumes inv: "rb_inv rb" and room: "length (contents rb) + n \<le> capacity rb"
    and budget: "n \<le> index_budget rb"
  defines "rb' \<equiv> rb\<lparr>write_index := write_index rb + of_nat n\<rparr>"
  shows "rb_write rb (of_nat n) = Inr (0, rb')" "rb_inv rb'"
    "contents rb' = contents rb @ load_bytes (unat (write_index rb)) n (mem rb)"
    "capacity rb' = capacity rb" "index_budget rb' = index_budget rb - n"
proof -
  note facts = rb_invD [OF inv]
  have n64: "unat (of_nat n :: u64) = n"
    using budget by (simp add: index_budget_def unat_of_nat)
  have idx: "unat (write_index rb + of_nat n) = unat (write_index rb) + n"
  proof -
    have "unat (write_index rb) + unat (of_nat n :: u64) < 2 ^ 64"
      using budget n64 unat_lt_2p64 [of "write_index rb"] by (simp add: index_budget_def)
    then show ?thesis using unat_add_no_wrap n64 by metis
  qed
  have le': "read_index rb' \<le> write_index rb'"
    using facts(5) idx by (simp add: rb'_def word_le_nat_alt)
  have len': "unat (readable_len rb') = unat (readable_len rb) + n"
    using le' facts(5,7) idx unat_sub_le [of "read_index rb'" "write_index rb'"]
    by (simp add: readable_len_def rb'_def word_le_nat_alt)
  have st': "assert_state rb'"
    using facts(1) le' len' room
    by (simp add: assert_state_def rb'_def readable_len_def word_le_nat_alt capacity_def)
  have "\<not> writable_len rb < of_nat n"
    using writable_len_room [OF inv] room n64 by (simp add: word_less_nat_alt)
  with facts(1) st' show "rb_write rb (of_nat n) = Inr (0, rb')"
    by (simp add: rb_write_def rb'_def Let_def)
  show "rb_inv rb'" using inv st' by (simp add: rb_inv_def rb'_def mem_def)
  have "unat (read_index rb) + unat (readable_len rb) = unat (write_index rb)"
    using facts(5,7) by (simp add: word_le_nat_alt)
  then show "contents rb' = contents rb @ load_bytes (unat (write_index rb)) n (mem rb)"
    using load_bytes_append [of "unat (read_index rb)" "unat (readable_len rb)" n "mem rb"] len'
    by (simp add: contents_def rb'_def mem_def)
  show "capacity rb' = capacity rb" "index_budget rb' = index_budget rb - n"
    using idx by (simp_all add: capacity_def index_budget_def rb'_def)
qed

lemma rb_put_ok:
  assumes inv: "rb_inv rb" and room: "length (contents rb) + length bs \<le> capacity rb"
    and budget: "length bs \<le> index_budget rb"
  shows "\<exists>rb'. rb_put rb bs = Inr rb' \<and> rb_inv rb' \<and> contents rb' = contents rb @ bs \<and>
    capacity rb' = capacity rb \<and> index_budget rb' = index_budget rb - length bs"
proof -
  note facts = rb_invD [OF inv]
  let ?off = "unat (write_index rb) mod unat (rb_size rb)"
  let ?m = "store_bytes (unat (write_index rb)) bs (mem rb)"
  let ?rb = "rb\<lparr>region := Some ?m\<rparr>"
  have m: "store_bytes ?off bs (mem rb) = ?m"
    using store_bytes_mod [of "unat (write_index rb)" "mem rb" bs] facts(4) by simp
  have "?off < unat (rb_size rb)" using facts(2) by (rule mod_less_divisor)
  then have off: "?off + length bs \<le> 2 * capacity rb" using room by (simp add: capacity_def)
  have inv1: "rb_inv ?rb" and st: "region_store rb ?off bs = Inr ?rb"
    using region_store_inv [OF inv off] by (simp_all add: m)
  have idx: "unat (read_index rb) + unat (readable_len rb) = unat (write_index rb)"
    using facts(5,7) by (simp add: word_le_nat_alt)
  have fits: "length bs + unat (readable_len rb) \<le> length (mem rb)"
    using room facts(4) by (simp add: capacity_def)
  have c1: "contents ?rb = contents rb"
    using load_store_before [of "unat (readable_len rb)" bs "mem rb" "unat (read_index rb)"] idx fits
    by (simp add: contents_def mem_def readable_len_def add.commute)
  have len1: "unat (readable_len ?rb) = unat (readable_len rb)"
    by (simp add: readable_len_def)
  have c2: "load_bytes (unat (write_index ?rb)) (length bs) (mem ?rb) = bs"
    using load_store_same [of bs "mem rb"] fits by (simp add: mem_def)
  have "length (contents ?rb) + length bs \<le> capacity ?rb" "length bs \<le> index_budget ?rb"
    using room budget len1 by (simp_all add: capacity_def index_budget_def)
  from rb_write_ok [OF inv1 this] c1 c2 show ?thesis
    by (simp add: rb_put_def rb_writable_inv [OF inv] st capacity_def index_budget_def)
qed

section \<open>The queue interface\<close>

text \<open>
  What the users of a buffer rely on.  \<open>budget\<close> is the number of bytes that may still be written
  before the 64-bit write index would wrap.
\<close>

datatype fifo_op = Put bytes | Skip nat

fun fifo_spec :: "nat \<Rightarrow> bytes \<Rightarrow> fifo_op list \<Rightarrow> bytes option" where
  "fifo_spec cap xs [] = Some xs"
| "fifo_spec cap xs (Put bs # ops) =
     (if length xs + length bs \<le> cap then fifo_spec cap (xs @ bs) ops else None)"
| "fifo_spec cap xs (Skip n # ops) =
     (if n \<le> length xs then fifo_spec cap (drop n xs) ops else None)"

fun fifo_run ::
  "('q \<Rightarrow> bytes \<Rightarrow> 'q res) \<Rightarrow> ('q \<Rightarrow> nat \<Rightarrow> 'q res) \<Rightarrow> 'q \<Rightarrow> fifo_op list \<Rightarrow> 'q res" where
  "fifo_run put skip q [] = Inr q"
| "fifo_run put skip q (Put bs # ops) = rbind (put q bs) (\<lambda>q. fifo_run put skip q ops)"
| "fifo_run put skip q (Skip n # ops) = rbind (skip q n) (\<lambda>q. fifo_run put skip q ops)"

fun put_total :: "fifo_op list \<Rightarrow> nat" where
  "put_total [] = 0"
| "put_total (Put bs # ops) = length bs + put_total ops"
| "put_total (Skip n # ops) = put_total ops"

fun put_all :: "('q \<Rightarrow> bytes \<Rightarrow> 'q res) \<Rightarrow> 'q \<Rightarrow> bytes list \<Rightarrow> 'q res" where
  "put_all put q [] = Inr q"
| "put_all put q (bs # bss) = rbind (put q bs) (\<lambda>q. put_all put q bss)"

locale byte_fifo =
  fixes inv :: "'q \<Rightarrow> bool"
    and items :: "'q \<Rightarrow> bytes"
    and cap :: "'q \<Rightarrow> nat"
    and budget :: "'q \<Rightarrow> nat"
    and put :: "'q \<Rightarrow> bytes \<Rightarrow> 'q res"
    and peek :: "'q \<Rightarrow> bytes res"
    and skip :: "'q \<Rightarrow> nat \<Rightarrow> 'q res"
  assumes items_le_cap: "inv q \<Longrightarrow> length (items q) \<le> cap q"
    and put_ok: "inv q \<Longrightarrow> length (items q) + length bs \<le> cap q \<Longrightarrow> length bs \<le> budget q \<Longrightarrow>
      \<exists>q'. put q bs = Inr q' \<and> inv q' \<and> items q' = items q @ bs \<and> cap q' = cap q \<and>
        budget q' = budget q - length bs"
    and peek_ok: "inv q \<Longrightarrow> peek q = Inr (items q)"
    and skip_ok: "inv q \<Longrightarrow> n \<le> length (items q) \<Longrightarrow>
      \<exists>q'. skip q n = Inr q' \<and> inv q' \<and> items q' = drop n (items q) \<and> cap q' = cap q \<and>
        budget q' = budget q"
begin

lemma run_refines:
  "inv q \<Longrightarrow> fifo_spec (cap q) (items q) ops = Some xs \<Longrightarrow> put_total ops \<le> budget q \<Longrightarrow>
   \<exists>q'. fifo_run put skip q ops = Inr q' \<and> inv q' \<and> items q' = xs \<and> peek q' = Inr xs"
proof (induction ops arbitrary: q)
  case Nil
  then show ?case by (simp add: peek_ok)
next
  case (Cons op ops)
  show ?case
  proof (cases op)
    case (Put bs)
    with Cons.prems have "length (items q) + length bs \<le> cap q" "length bs \<le> budget q"
      by (simp_all split: if_splits)
    from put_ok [OF Cons.prems(1) this] Cons.IH Cons.prems Put show ?thesis
      by (fastforce split: if_splits)
  next
    case (Skip n)
    with Cons.prems have "n \<le> length (items q)" by (simp split: if_splits)
    from skip_ok [OF Cons.prems(1) this] Cons.IH Cons.prems Skip show ?thesis
      by (fastforce split: if_splits)
  qed
qed

lemma put_all_ok:
  "inv q \<Longrightarrow> length (items q) + length (concat bss) \<le> cap q \<Longrightarrow>
   length (concat bss) \<le> budget q \<Longrightarrow>
   \<exists>q'. put_all put q bss = Inr q' \<and> inv q' \<and> items q' = items q @ concat bss \<and>
     cap q' = cap q \<and> budget q' = budget q - length (concat bss)"
proof (induction bss arbitrary: q)
  case Nil
  then show ?case by simp
next
  case (Cons bs bss)
  then have "length (items q) + length bs \<le> cap q" "length bs \<le> budget q" by simp_all
  from put_ok [OF Cons.prems(1) this] obtain q1 where q1: "put q bs = Inr q1" "inv q1"
    "items q1 = items q @ bs" "cap q1 = cap q" "budget q1 = budget q - length bs" by blast
  with Cons.IH [of q1] Cons.prems show ?case by auto
qed

end

interpretation rb: byte_fifo rb_inv contents capacity index_budget rb_put rb_peek rb_skip
  by unfold_locales (rule contents_bounded rb_put_ok rb_peek_inv rb_skip_ok; assumption)+


section \<open>Properties\<close>

text \<open>
  C9 (refinement): for every sequence of writes and reads that a bounded first-in first-out byte
  queue accepts, the ring buffer performs the sequence without a fault, keeps its invariant and
  ends holding exactly the queue's bytes, wherever the indices stand relative to the end of the
  region, as long as the 64-bit write index does not wrap.
\<close>

theorem rb_refines_fifo:
  assumes "rb_inv rb" "fifo_spec (capacity rb) (contents rb) ops = Some xs"
    and "put_total ops \<le> index_budget rb"
  shows "\<exists>rb'. fifo_run rb_put rb_skip rb ops = Inr rb' \<and> rb_inv rb' \<and>
    contents rb' = xs \<and> rb_peek rb' = Inr xs"
  using assms by (rule rb.run_refines)

definition rb_example :: ring_buffer where
  "rb_example = \<lparr>read_index = 3, write_index = 5, region = Some ''bxxa'', rb_size = 4, rb_fd = 7\<rparr>"

lemma rb_example_facts:
  "rb_inv rb_example" "capacity rb_example = 4" "contents rb_example = ''ab''"
  "index_budget rb_example = 2 ^ 64 - 6"
  by (simp_all add: rb_example_def rb_inv_def assert_state_def mem_def capacity_def contents_def
      load_bytes_def readable_len_def index_budget_def upt_rec)

theorem rb_refines_fifo_witness:
  "\<exists>rb'. fifo_run rb_put rb_skip rb_example [Put ''cd'', Skip 3, Put ''e''] = Inr rb' \<and>
     rb_inv rb' \<and> contents rb' = ''de'' \<and> rb_peek rb' = Inr ''de''"
  by (rule rb_refines_fifo) (simp_all add: rb_example_facts)

text \<open>
  C27 (error): \<open>rb_read\<close> and \<open>rb_write\<close> refuse a length beyond the readable or writable bytes with
  -1 and leave the buffer as it was.
\<close>

theorem rb_refuses_too_long:
  assumes "rb_inv rb" "len' + length (contents rb) > capacity rb" "len > length (contents rb)"
    "len < 2 ^ 64" "len' < 2 ^ 64"
  shows "rb_read rb (of_nat len) = Inr (-1, rb) \<and> rb_write rb (of_nat len') = Inr (-1, rb)"
  using rb_invD(1) [OF assms(1)] writable_len_room [OF assms(1)] contents_bounded [OF assms(1)]
    assms(2-)
  by (auto simp: rb_read_def rb_write_def word_less_nat_alt unat_of_nat_64)

theorem rb_refuses_too_long_witness:
  "rb_read rb_example (of_nat 3) = Inr (-1, rb_example) \<and>
   rb_write rb_example (of_nat 3) = Inr (-1, rb_example)"
  by (rule rb_refuses_too_long) (simp_all add: rb_example_facts)

text \<open>How far a creation gets: the structure is allocated, the descriptor is open, the region is mapped.\<close>

definition rb_allocated :: "rb_os \<Rightarrow> u64 \<Rightarrow> bool" where
  "rb_allocated os sz \<longleftrightarrow> sz mod page_size os = 0 \<and> malloc_ok os"

definition rb_opened :: "rb_os \<Rightarrow> u64 \<Rightarrow> bool" where
  "rb_opened os sz \<longleftrightarrow> rb_allocated os sz \<and> 0 \<le> name_len os \<and> name_len os < 64 \<and> shm_fd os \<noteq> -1"

definition rb_mapped :: "rb_os \<Rightarrow> u64 \<Rightarrow> bool" where
  "rb_mapped os sz \<longleftrightarrow> rb_opened os sz \<and> unlink_ok os \<and> ftruncate_ok os \<and> map1_ok os"

text \<open>
  C28 (functional): \<open>rb_create\<close> succeeds exactly when every call it makes succeeds (and the size is a
  multiple of the page size), and then gives an empty buffer of the requested size on the descriptor
  it opened, with the invariant.  Otherwise it returns -1 and has given back exactly what it had
  acquired up to the call that failed: the descriptor, the mapping and the block, each when it had it.
\<close>

theorem rb_create_spec:
  assumes "0 < sz"
  shows "if rb_mapped os sz \<and> map2_ok os
    then \<exists>rb. rb_create os sz = Inr (0, Some rb, []) \<and> rb_inv rb \<and> contents rb = [] \<and> capacity rb = unat sz \<and>
      rb_size rb = sz \<and> rb_fd rb = shm_fd os
    else rb_create os sz = Inr (-1, None,
      (if rb_opened os sz then [Close (shm_fd os)] else []) @ (if rb_mapped os sz then [Munmap (sz * 2)] else []) @
      (if rb_allocated os sz then [Free_rb] else []))"
  using assms
  by (auto simp: rb_create_def rb_destroy_def Let_def assert_state_def rb_inv_def mem_def rb_allocated_def rb_opened_def
      rb_mapped_def contents_def load_bytes_def readable_len_def capacity_def)

definition os_example :: rb_os where
  "os_example = \<lparr>page_size = 4096, malloc_ok = True, name_len = 30, shm_fd = 5, unlink_ok = True,
     ftruncate_ok = True, map1_ok = True, map2_ok = False\<rparr>"

theorem rb_create_spec_witness:
  "(\<exists>rb. rb_create (os_example\<lparr>map2_ok := True\<rparr>) 65536 = Inr (0, Some rb, []) \<and> contents rb = [] \<and> rb_fd rb = 5) \<and>
   rb_create os_example 65536 = Inr (-1, None, [Close 5, Munmap 131072, Free_rb]) \<and>
   rb_create (os_example\<lparr>unlink_ok := False\<rparr>) 65536 = Inr (-1, None, [Close 5, Free_rb]) \<and>
   rb_create (os_example\<lparr>malloc_ok := False\<rparr>) 65536 = Inr (-1, None, [])"
  using rb_create_spec [of 65536 "os_example\<lparr>map2_ok := True\<rparr>"] rb_create_spec [of 65536 os_example]
    rb_create_spec [of 65536 "os_example\<lparr>unlink_ok := False\<rparr>"] rb_create_spec [of 65536 "os_example\<lparr>malloc_ok := False\<rparr>"]
  by (auto simp: os_example_def rb_allocated_def rb_opened_def rb_mapped_def)

text \<open>
  C29 (bounds): for a buffer of at most \<open>2 ^ 62\<close> bytes, a write that fits the buffer but would carry the
  write index past \<open>2 ^ 64 - 1\<close> is stopped by the assertion at the end of this very \<open>rb_write\<close>.
\<close>

theorem rb_write_index_wrap:
  assumes inv: "rb_inv rb" and cap: "capacity rb \<le> 2 ^ 62"
    and wrap: "index_budget rb < len" and room: "length (contents rb) + len \<le> capacity rb"
  shows "rb_write rb (of_nat len) = Inl Assertion_Failed"
proof -
  note facts = rb_invD [OF inv]
  have len64: "unat (of_nat len :: u64) = len"
    using room cap by (intro unat_of_nat_64) simp
  have "2 ^ 64 \<le> unat (write_index rb) + unat (of_nat len :: u64)"
    using wrap len64 unat_lt_2p64 [of "write_index rb"] by (simp add: index_budget_def)
  then have idx: "unat (write_index rb + of_nat len) = unat (write_index rb) + len - 2 ^ 64"
    using len64 room cap unat_lt_2p64 [of "write_index rb"]
    by (simp add: unat_word_ariths mod_if le_mod_geq)
  have "unat (write_index rb) - unat (read_index rb) \<le> 2 ^ 62"
    using facts(6,7) cap by (simp add: capacity_def)
  then have "unat (write_index rb + of_nat len) < unat (read_index rb)"
    using idx room cap wrap len64 unat_lt_2p64 [of "write_index rb"] unat_lt_2p64 [of "read_index rb"]
    by (simp add: index_budget_def)
  then have "\<not> assert_state (rb\<lparr>write_index := write_index rb + of_nat len\<rparr>)"
    by (simp add: assert_state_def word_le_nat_alt)
  moreover have "\<not> writable_len rb < of_nat len"
    using writable_len_room [OF inv] room len64 by (simp add: word_less_nat_alt)
  ultimately show ?thesis using facts(1) by (simp add: rb_write_def Let_def)
qed

definition rb_old_example :: ring_buffer where
  "rb_old_example = \<lparr>read_index = 18446744073709551614, write_index = 18446744073709551614,
     region = Some ''xxxx'', rb_size = 4, rb_fd = 7\<rparr>"

theorem rb_write_index_wrap_witness: "rb_write rb_old_example (of_nat 2) = Inl Assertion_Failed"
  by (rule rb_write_index_wrap)
    (simp_all add: rb_old_example_def rb_inv_def assert_state_def mem_def capacity_def contents_def
      load_bytes_def readable_len_def index_budget_def)

end
