(* ===== verification/Resp_Writer.thy ===== *)
theory Resp_Writer
  imports Ring_Buffer C_Library
begin

text \<open>
  The output side of \<^verbatim>\<open>resp.c\<close> and the reply helpers of \<^verbatim>\<open>commands.c\<close>: tokens of the protocol
  written into the ring buffer of a client.  A writer asks for the writable region, checks its
  length, stores its bytes there and advances the write index; what \<^verbatim>\<open>snprintf\<close> stores besides the
  text (its terminator, or a truncated text) is part of the model.
\<close>

section \<open>Writers\<close>

definition rb_commit :: "ring_buffer \<Rightarrow> nat \<Rightarrow> bytes \<Rightarrow> nat \<Rightarrow> ring_buffer res" where
  \<comment> \<open>Store \<open>bs\<close> at the region offset \<open>off\<close>, then \<^verbatim>\<open>rb_write(rb, n)\<close> with its result ignored.\<close>
  "rb_commit rb off bs n =
     rbind (region_store rb off bs) (\<lambda>rb.
     rbind (rb_write rb (of_nat n)) (\<lambda>(_, rb). Inr rb))"

definition write_fixed :: "ring_buffer \<Rightarrow> bytes \<Rightarrow> ring_buffer res" where
  "write_fixed rb bs =
     rbind (rb_writable rb) (\<lambda>(off, wl).
       if unat wl < length bs then Inr rb else rb_commit rb off bs (length bs))"

definition write_begin_simple_string :: "ring_buffer \<Rightarrow> ring_buffer res" where
  "write_begin_simple_string rb = write_fixed rb ''+''"

definition write_end_simple_string :: "ring_buffer \<Rightarrow> ring_buffer res" where
  "write_end_simple_string rb = write_fixed rb crlf"

definition write_begin_error :: "ring_buffer \<Rightarrow> ring_buffer res" where
  "write_begin_error rb = write_fixed rb ''-''"

definition write_end_error :: "ring_buffer \<Rightarrow> ring_buffer res" where
  "write_end_error rb = write_fixed rb crlf"

definition write_begin_integer :: "ring_buffer \<Rightarrow> ring_buffer res" where
  "write_begin_integer rb = write_fixed rb '':''"

definition write_end_integer :: "ring_buffer \<Rightarrow> ring_buffer res" where
  "write_end_integer rb = write_fixed rb crlf"

definition write_begin_bulk_string :: "ring_buffer \<Rightarrow> int \<Rightarrow> ring_buffer res" where
  "write_begin_bulk_string rb len =
     (let text = ''$'' @ show_int len; needed_length = length text in
      rbind (rb_writable rb) (\<lambda>(off, wl).
        if unat wl < needed_length + (if len \<noteq> -1 then 2 else 0) then Inr rb
        else
          rbind (rb_commit rb off (snprintf (unat wl) text) needed_length) (\<lambda>rb.
            if len \<noteq> -1 then rb_commit rb (off + needed_length) crlf 2 else Inr rb)))"

definition write_end_bulk_string :: "ring_buffer \<Rightarrow> ring_buffer res" where
  "write_end_bulk_string rb = write_fixed rb crlf"

definition write_begin_array :: "ring_buffer \<Rightarrow> int \<Rightarrow> ring_buffer res" where
  "write_begin_array rb len =
     (let text = ''*'' @ show_int len @ crlf; needed_length = length text in
      rbind (rb_writable rb) (\<lambda>(off, wl).
        if unat wl < needed_length then Inr rb
        else rb_commit rb off (snprintf (unat wl) text) needed_length))"

definition write_end_array :: "ring_buffer \<Rightarrow> ring_buffer res" where
  "write_end_array rb = Inr rb"

definition write_chars :: "ring_buffer \<Rightarrow> string \<Rightarrow> ring_buffer res" where
  \<comment> \<open>When the space is too short the code reports it and goes on.\<close>
  "write_chars rb str =
     rbind (rb_writable rb) (\<lambda>(off, wl). rb_commit rb off str (length str))"

section \<open>Replies\<close>

definition add_simple_string_reply :: "ring_buffer \<Rightarrow> string \<Rightarrow> ring_buffer res" where
  "add_simple_string_reply rb str =
     rbind (write_begin_simple_string rb) (\<lambda>rb.
     rbind (write_chars rb str) (\<lambda>rb. write_end_simple_string rb))"

definition add_bulk_string_reply :: "ring_buffer \<Rightarrow> string \<Rightarrow> ring_buffer res" where
  "add_bulk_string_reply rb str =
     rbind (write_begin_bulk_string rb (int (length str))) (\<lambda>rb.
     rbind (write_chars rb str) (\<lambda>rb. write_end_bulk_string rb))"

primrec add_array_elements :: "ring_buffer \<Rightarrow> string list \<Rightarrow> ring_buffer res" where
  "add_array_elements rb [] = Inr rb"
| "add_array_elements rb (x # xs) =
     rbind (write_begin_bulk_string rb (int (length x))) (\<lambda>rb.
     rbind (write_chars rb x) (\<lambda>rb.
     rbind (write_end_bulk_string rb) (\<lambda>rb. add_array_elements rb xs)))"

definition add_array_reply :: "ring_buffer \<Rightarrow> string list option \<Rightarrow> int \<Rightarrow> ring_buffer res" where
  \<comment> \<open>The array pointer may be null; reading past the array is out of bounds.\<close>
  "add_array_reply rb array len =
     rbind (write_begin_array rb len) (\<lambda>rb.
     rbind (case array of
              None \<Rightarrow> Inr rb
            | Some xs \<Rightarrow>
                if int (length xs) < len then Inl Out_Of_Bounds
                else add_array_elements rb (take (nat len) xs)) (\<lambda>rb.
     write_end_array rb))"

definition add_null_reply :: "ring_buffer \<Rightarrow> ring_buffer res" where
  "add_null_reply rb =
     rbind (write_begin_bulk_string rb (-1)) (\<lambda>rb. write_end_bulk_string rb)"

definition add_error_reply :: "ring_buffer \<Rightarrow> string \<Rightarrow> ring_buffer res" where
  "add_error_reply rb str =
     rbind (write_begin_error rb) (\<lambda>rb.
     rbind (write_chars rb str) (\<lambda>rb. write_end_error rb))"

definition add_integer_reply :: "ring_buffer \<Rightarrow> int \<Rightarrow> ring_buffer res" where
  "add_integer_reply rb integer =
     (let number_str = cstr (snprintf 32 (show_int integer)) in
      rbind (write_begin_integer rb) (\<lambda>rb.
      rbind (write_chars rb number_str) (\<lambda>rb. write_end_integer rb)))"

definition add_fullresync_reply :: "ring_buffer \<Rightarrow> string \<Rightarrow> int \<Rightarrow> ring_buffer res" where
  "add_fullresync_reply rb master_replid master_repl_offset =
     add_simple_string_reply rb
       (cstr (snprintf 80 (''FULLRESYNC '' @ master_replid @ '' '' @ show_int master_repl_offset)))"

section \<open>Committing bytes\<close>

definition appends :: "ring_buffer \<Rightarrow> bytes \<Rightarrow> ring_buffer \<Rightarrow> bool" where
  "appends rb bs rb' \<longleftrightarrow>
     rb_inv rb' \<and> contents rb' = contents rb @ bs \<and> capacity rb' = capacity rb \<and>
     index_budget rb' = index_budget rb - length bs \<and>
     unat (write_index rb') = unat (write_index rb) + length bs"

definition fits :: "ring_buffer \<Rightarrow> nat \<Rightarrow> bool" where
  "fits rb n \<longleftrightarrow> length (contents rb) + n \<le> capacity rb \<and> n \<le> index_budget rb"

lemma load_bytes_take: "n \<le> k \<Longrightarrow> load_bytes off n m = take n (load_bytes off k m)"
  by (simp add: load_bytes_def take_map)

lemma rb_commit_ok:
  assumes inv: "rb_inv rb" and n: "n \<le> length bs" "n \<le> index_budget rb"
    and room: "length (contents rb) + length bs \<le> capacity rb"
    and off: "off mod capacity rb = unat (write_index rb) mod capacity rb" "off + length bs \<le> 2 * capacity rb"
  shows "\<exists>rb'. rb_commit rb off bs n = Inr rb' \<and> appends rb (take n bs) rb'"
proof -
  note facts = rb_invD [OF inv]
  let ?w = "unat (write_index rb)"
  let ?rb = "rb\<lparr>region := Some (store_bytes ?w bs (mem rb))\<rparr>"
  have "length (mem rb) = capacity rb" using facts(4) by (simp add: capacity_def)
  then have m: "store_bytes off bs (mem rb) = store_bytes ?w bs (mem rb)"
    using store_bytes_mod [of off "mem rb" bs] store_bytes_mod [of ?w "mem rb" bs] off(1) by metis
  have inv1: "rb_inv ?rb" and st: "region_store rb off bs = Inr ?rb"
    using region_store_inv [OF inv off(2)] by (simp_all add: m)
  have idx: "unat (read_index rb) + unat (readable_len rb) = ?w"
    using facts(5,7) by (simp add: word_le_nat_alt)
  have fit: "length bs + unat (readable_len rb) \<le> length (mem rb)"
    using room facts(4) by (simp add: capacity_def)
  have c1: "contents ?rb = contents rb"
    using load_store_before [of "unat (readable_len rb)" bs "mem rb" "unat (read_index rb)"] idx fit
    by (simp add: contents_def mem_def readable_len_def add.commute)
  have c2: "load_bytes ?w n (mem ?rb) = take n bs"
    using load_store_same [of bs "mem rb" ?w] fit load_bytes_take [OF n(1)] by (simp add: mem_def)
  have "length (contents rb) + n \<le> capacity rb" using room n(1) by simp
  then have "length (contents ?rb) + n \<le> capacity ?rb" "n \<le> index_budget ?rb"
    unfolding c1 using n(2) by (simp_all add: capacity_def index_budget_def)
  from rb_write_ok [OF inv1 this] have
    w: "rb_write ?rb (of_nat n) = Inr (0, ?rb\<lparr>write_index := write_index rb + of_nat n\<rparr>)"
    and w_inv: "rb_inv (?rb\<lparr>write_index := write_index rb + of_nat n\<rparr>)"
    and w_con: "contents (?rb\<lparr>write_index := write_index rb + of_nat n\<rparr>) = contents rb @ take n bs"
    using c1 c2 by simp_all
  have wi: "unat (write_index rb + of_nat n) = ?w + n"
  proof -
    have "?w < 2 ^ 64" by (rule unat_lt_2p64)
    with n(2) have "?w + n < 2 ^ 64" unfolding index_budget_def by linarith
    then show ?thesis by (simp add: unat_add_no_wrap unat_of_nat_64)
  qed
  show ?thesis
    unfolding rb_commit_def using st w w_inv w_con wi n(1)
    by (simp add: appends_def capacity_def index_budget_def)
qed

lemma rb_commit_at_end:
  assumes "rb_inv rb" "fits rb (length bs)" "n \<le> length bs"
  shows "\<exists>rb'. rb_commit rb (unat (write_index rb) mod unat (rb_size rb)) bs n = Inr rb' \<and>
    appends rb (take n bs) rb'"
proof (rule rb_commit_ok [OF assms(1,3)])
  have "unat (write_index rb) mod unat (rb_size rb) < unat (rb_size rb)"
    using rb_invD(2) [OF assms(1)] by (rule mod_less_divisor)
  then show "unat (write_index rb) mod unat (rb_size rb) + length bs \<le> 2 * capacity rb"
    using assms(2) by (simp add: fits_def capacity_def)
qed (use assms in \<open>simp_all add: fits_def capacity_def\<close>)

lemma fits_room: "rb_inv rb \<Longrightarrow> fits rb n \<Longrightarrow> n \<le> unat (writable_len rb)"
  unfolding fits_def writable_len_room [of rb] by linarith

lemma appends_trans: "appends rb xs rb1 \<Longrightarrow> appends rb1 ys rb2 \<Longrightarrow> appends rb (xs @ ys) rb2"
  by (simp add: appends_def)

lemma write_fixed_ok:
  assumes inv: "rb_inv rb" and fit: "fits rb (length bs)"
  shows "\<exists>rb'. write_fixed rb bs = Inr rb' \<and> appends rb bs rb'"
  using rb_commit_at_end [OF inv fit, of "length bs"] fits_room [OF inv fit]
  by (simp add: write_fixed_def rb_writable_inv [OF inv])

lemma write_chars_ok:
  assumes inv: "rb_inv rb" and fit: "fits rb (length bs)"
  shows "\<exists>rb'. write_chars rb bs = Inr rb' \<and> appends rb bs rb'"
  using rb_commit_at_end [OF inv fit, of "length bs"] by (simp add: write_chars_def rb_writable_inv [OF inv])

text \<open>A formatted text is stored with its terminator, which needs one more free byte.\<close>

lemma commit_formatted:
  assumes inv: "rb_inv rb" and fit: "fits rb (Suc (length text))"
  shows "\<exists>rb'. rb_commit rb (unat (write_index rb) mod unat (rb_size rb))
      (snprintf (unat (writable_len rb)) text) (length text) = Inr rb' \<and> appends rb text rb'"
proof -
  have "length text < unat (writable_len rb)" using fits_room [OF inv fit] by simp
  then have "snprintf (unat (writable_len rb)) text = text @ [NUL]" by (rule snprintf_fits)
  moreover have "fits rb (length (text @ [NUL]))" using fit by simp
  ultimately show ?thesis using rb_commit_at_end [OF inv, of "text @ [NUL]" "length text"] by simp
qed

lemma write_begin_array_ok:
  assumes inv: "rb_inv rb" and fit: "fits rb (Suc (length (''*'' @ show_int n @ crlf)))"
  shows "\<exists>rb'. write_begin_array rb n = Inr rb' \<and> appends rb (''*'' @ show_int n @ crlf) rb'"
  using commit_formatted [OF inv fit] fits_room [OF inv fit]
  by (simp add: write_begin_array_def Let_def rb_writable_inv [OF inv])

lemma write_begin_bulk_string_null:
  assumes inv: "rb_inv rb" and fit: "fits rb 4"
  shows "\<exists>rb'. write_begin_bulk_string rb (-1) = Inr rb' \<and> appends rb ''$-1'' rb'"
proof -
  have lit: "''$'' @ show_int (-1) = ''$-1''" by code_simp
  have "fits rb (Suc (length ''$-1''))" using fit by (simp add: eval_nat_numeral)
  from commit_formatted [OF inv this] show ?thesis
    using fits_room [OF inv fit] lit
    by (auto simp: write_begin_bulk_string_def Let_def rb_writable_inv [OF inv])
qed

lemma write_begin_bulk_string_len:
  assumes inv: "rb_inv rb" and n: "n \<noteq> -1" and fit: "fits rb (length (''$'' @ show_int n @ crlf))"
  shows "\<exists>rb'. write_begin_bulk_string rb n = Inr rb' \<and> appends rb (''$'' @ show_int n @ crlf) rb'"
proof -
  let ?t = "''$'' @ show_int n" and ?off = "unat (write_index rb) mod unat (rb_size rb)"
  have "fits rb (Suc (length ?t))" using fit by (simp add: fits_def)
  from commit_formatted [OF inv this] obtain rb1 where
    rb1: "rb_commit rb ?off (snprintf (unat (writable_len rb)) ?t) (length ?t) = Inr rb1"
    "appends rb ?t rb1" by blast
  then have inv1: "rb_inv rb1" and w1: "unat (write_index rb1) = unat (write_index rb) + length ?t"
    and cap: "capacity rb1 = capacity rb" by (auto simp: appends_def)
  have off: "?off < capacity rb" unfolding capacity_def using rb_invD(2) [OF inv] by (rule mod_less_divisor)
  have "\<exists>rb2. rb_commit rb1 (?off + length ?t) crlf 2 = Inr rb2 \<and> appends rb1 (take 2 crlf) rb2"
  proof (rule rb_commit_ok [OF inv1])
    show "(?off + length ?t) mod capacity rb1 = unat (write_index rb1) mod capacity rb1"
      unfolding w1 cap capacity_def [of rb] by (rule mod_add_left_eq)
    show "?off + length ?t + length crlf \<le> 2 * capacity rb1"
      using off fit by (simp add: cap fits_def)
    show "length (contents rb1) + length crlf \<le> capacity rb1"
      using rb1(2) fit unfolding appends_def fits_def by (metis append.assoc length_append add.assoc)
  qed (use rb1(2) fit in \<open>auto simp: appends_def fits_def\<close>)
  then obtain rb2 where rb2: "rb_commit rb1 (?off + length ?t) crlf 2 = Inr rb2" "appends rb1 crlf rb2" by auto
  have "length ?t + 2 \<le> unat (writable_len rb)" using fits_room [OF inv fit] by simp
  then have "write_begin_bulk_string rb n = Inr rb2"
    using n rb1(1) rb2(1) by (simp add: write_begin_bulk_string_def Let_def rb_writable_inv [OF inv])
  with appends_trans [OF rb1(2) rb2(2)] show ?thesis by simp
qed

section \<open>Token streams\<close>

datatype token =
    Begin_Simple
  | Begin_Error
  | Begin_Integer
  | Begin_Bulk int
  | Begin_Array int
  | Chars string
  | End_Line

fun token_bytes :: "token \<Rightarrow> bytes" where
  "token_bytes Begin_Simple = ''+''"
| "token_bytes Begin_Error = ''-''"
| "token_bytes Begin_Integer = '':''"
| "token_bytes (Begin_Bulk n) = (if n = -1 then ''$-1'' else ''$'' @ show_int n @ crlf)"
| "token_bytes (Begin_Array n) = ''*'' @ show_int n @ crlf"
| "token_bytes (Chars s) = s"
| "token_bytes End_Line = crlf"

fun write_token :: "ring_buffer \<Rightarrow> token \<Rightarrow> ring_buffer res" where
  "write_token rb Begin_Simple = write_begin_simple_string rb"
| "write_token rb Begin_Error = write_begin_error rb"
| "write_token rb Begin_Integer = write_begin_integer rb"
| "write_token rb (Begin_Bulk n) = write_begin_bulk_string rb n"
| "write_token rb (Begin_Array n) = write_begin_array rb n"
| "write_token rb (Chars s) = write_chars rb s"
| "write_token rb End_Line = write_end_bulk_string rb"

fun emit_all :: "('q \<Rightarrow> 't \<Rightarrow> 'q res) \<Rightarrow> 'q \<Rightarrow> 't list \<Rightarrow> 'q res" where
  "emit_all emit q [] = Inr q"
| "emit_all emit q (t # ts) = rbind (emit q t) (\<lambda>q. emit_all emit q ts)"

text \<open>What a user of a token writer relies on; \<open>ready q n\<close> says that \<open>n\<close> bytes can be taken.\<close>

locale token_sink =
  fixes ready :: "'q \<Rightarrow> nat \<Rightarrow> bool"
    and app :: "'q \<Rightarrow> bytes \<Rightarrow> 'q \<Rightarrow> bool"
    and enc :: "'t \<Rightarrow> bytes"
    and emit :: "'q \<Rightarrow> 't \<Rightarrow> 'q res"
  assumes emit_ok: "ready q (Suc (length (enc t))) \<Longrightarrow> \<exists>q'. emit q t = Inr q' \<and> app q (enc t) q'"
    and app_ready: "app q bs q' \<Longrightarrow> ready q (length bs + n) \<Longrightarrow> ready q' n"
    and ready_mono: "ready q n \<Longrightarrow> k \<le> n \<Longrightarrow> ready q k"
    and app_nil: "ready q 0 \<Longrightarrow> app q [] q"
    and app_trans: "app q xs q1 \<Longrightarrow> app q1 ys q2 \<Longrightarrow> app q (xs @ ys) q2"
begin

lemma emit_all_ok:
  "ready q (Suc (length (concat (map enc ts)))) \<Longrightarrow>
   \<exists>q'. emit_all emit q ts = Inr q' \<and> app q (concat (map enc ts)) q'"
proof (induction ts arbitrary: q)
  case Nil
  then show ?case using app_nil ready_mono by fastforce
next
  case (Cons t ts)
  have "ready q (Suc (length (enc t)))" using Cons.prems by (rule ready_mono) simp
  then obtain q1 where q1: "emit q t = Inr q1" "app q (enc t) q1" using emit_ok by blast
  have "ready q1 (Suc (length (concat (map enc ts))))"
    using q1(2) by (rule app_ready) (use Cons.prems in simp)
  from Cons.IH [OF this] obtain q2 where
    "emit_all emit q1 ts = Inr q2" "app q1 (concat (map enc ts)) q2" by blast
  with q1 app_trans [OF q1(2)] show ?case by simp
qed

end

definition sink_ready :: "ring_buffer \<Rightarrow> nat \<Rightarrow> bool" where
  "sink_ready rb n \<longleftrightarrow> rb_inv rb \<and> fits rb n"

lemmas writer_defs = write_begin_simple_string_def write_end_simple_string_def write_begin_error_def
  write_end_error_def write_begin_integer_def write_end_integer_def write_end_bulk_string_def

lemma fits_le: "fits rb n \<Longrightarrow> k \<le> n \<Longrightarrow> fits rb k"
  by (simp add: fits_def)

lemma write_token_ok:
  assumes "sink_ready rb (Suc (length (token_bytes t)))"
  shows "\<exists>rb'. write_token rb t = Inr rb' \<and> appends rb (token_bytes t) rb'"
proof -
  have inv: "rb_inv rb" and fit1: "fits rb (Suc (length (token_bytes t)))"
    using assms by (auto simp: sink_ready_def)
  have fit: "fits rb (length (token_bytes t))" using fit1 by (rule fits_le) simp
  show ?thesis
  proof (cases t)
    case (Begin_Bulk n)
    show ?thesis
    proof (cases "n = -1")
      case True
      then show ?thesis
        using Begin_Bulk write_begin_bulk_string_null [OF inv] fit1 by (simp add: eval_nat_numeral)
    next
      case False
      then show ?thesis using Begin_Bulk write_begin_bulk_string_len [OF inv False] fit by simp
    qed
  next
    case (Begin_Array n)
    then show ?thesis using write_begin_array_ok [OF inv] fit1 by simp
  next
    case (Chars s)
    then show ?thesis using write_chars_ok [OF inv] fit by simp
  qed (use write_fixed_ok [OF inv fit] in \<open>simp_all add: writer_defs\<close>)
qed

interpretation sink: token_sink sink_ready appends token_bytes write_token
  by unfold_locales
    (fact write_token_ok, auto simp: sink_ready_def appends_def fits_def)

section \<open>Replies as token streams\<close>

definition bulk_tokens :: "string \<Rightarrow> token list" where
  "bulk_tokens s = [Begin_Bulk (int (length s)), Chars s, End_Line]"

datatype reply =
    Simple_Reply string
  | Error_Reply string
  | Integer_Reply int
  | Bulk_Reply string
  | Null_Reply
  | Array_Reply "string list"

fun reply_tokens :: "reply \<Rightarrow> token list" where
  "reply_tokens (Simple_Reply s) = [Begin_Simple, Chars s, End_Line]"
| "reply_tokens (Error_Reply s) = [Begin_Error, Chars s, End_Line]"
| "reply_tokens (Integer_Reply i) = [Begin_Integer, Chars (show_int i), End_Line]"
| "reply_tokens (Bulk_Reply s) = bulk_tokens s"
| "reply_tokens Null_Reply = [Begin_Bulk (-1), End_Line]"
| "reply_tokens (Array_Reply xs) = Begin_Array (int (length xs)) # concat (map bulk_tokens xs)"

text \<open>The bytes the protocol prescribes for a reply.\<close>

fun encode_reply :: "reply \<Rightarrow> bytes" where
  "encode_reply (Simple_Reply s) = ''+'' @ s @ crlf"
| "encode_reply (Error_Reply s) = ''-'' @ s @ crlf"
| "encode_reply (Integer_Reply i) = '':'' @ show_int i @ crlf"
| "encode_reply (Bulk_Reply s) = ''$'' @ show_int (int (length s)) @ crlf @ s @ crlf"
| "encode_reply Null_Reply = ''$-1'' @ crlf"
| "encode_reply (Array_Reply xs) =
     ''*'' @ show_int (int (length xs)) @ crlf @
     concat (map (\<lambda>s. ''$'' @ show_int (int (length s)) @ crlf @ s @ crlf) xs)"

fun send_reply :: "ring_buffer \<Rightarrow> reply \<Rightarrow> ring_buffer res" where
  "send_reply rb (Simple_Reply s) = add_simple_string_reply rb s"
| "send_reply rb (Error_Reply s) = add_error_reply rb s"
| "send_reply rb (Integer_Reply i) = add_integer_reply rb i"
| "send_reply rb (Bulk_Reply s) = add_bulk_string_reply rb s"
| "send_reply rb Null_Reply = add_null_reply rb"
| "send_reply rb (Array_Reply xs) = add_array_reply rb (Some xs) (int (length xs))"

lemma emit_all_append: "emit_all emit q (ts @ us) = rbind (emit_all emit q ts) (\<lambda>q. emit_all emit q us)"
  by (induction ts arbitrary: q) (simp_all add: rbind_assoc)

lemma add_array_elements_tokens:
  "add_array_elements rb xs = emit_all write_token rb (concat (map bulk_tokens xs))"
  by (induction xs arbitrary: rb) (simp_all add: emit_all_append bulk_tokens_def rbind_assoc)

lemma int_text_fits:
  assumes "INT_MIN \<le> i" "i \<le> INT_MAX"
  shows "cstr (snprintf 32 (show_int i)) = show_int i"
proof -
  have digits: "length (show_nat n) \<le> 11" if "n < 10 ^ 10" for n using length_show_nat [of n 10] that by simp
  have "length (show_nat (nat i)) \<le> 11" "length (show_nat (nat (- i))) \<le> 11"
    using assms by (intro digits; simp add: c_limits)+
  then have "length (show_int i) < 32" by (simp add: show_int_def)
  then have "snprintf 32 (show_int i) = show_int i @ [NUL]" by (rule snprintf_fits)
  moreover have "nul_free (show_int i)"
    using show_nat_digits by (fastforce simp: show_int_def nul_free_def is_digit_def)
  ultimately show ?thesis by simp
qed

fun reply_in_range :: "reply \<Rightarrow> bool" where
  "reply_in_range (Integer_Reply i) = (INT_MIN \<le> i \<and> i \<le> INT_MAX)"
| "reply_in_range _ = True"

lemma send_reply_tokens:
  "reply_in_range r \<Longrightarrow> send_reply rb r = emit_all write_token rb (reply_tokens r)"
proof (induction rb r rule: send_reply.induct)
  case (6 rb xs)
  then show ?case by (simp add: add_array_reply_def add_array_elements_tokens write_end_array_def)
qed (simp_all add: add_simple_string_reply_def add_error_reply_def add_integer_reply_def
    add_bulk_string_reply_def add_null_reply_def bulk_tokens_def int_text_fits writer_defs)

lemma concat_bulk_tokens:
  "concat (map token_bytes (concat (map bulk_tokens xs))) =
   concat (map (\<lambda>s. ''$'' @ show_int (int (length s)) @ crlf @ s @ crlf) xs)"
  by (induction xs) (simp_all add: bulk_tokens_def)

lemma reply_tokens_bytes: "concat (map token_bytes (reply_tokens r)) = encode_reply r"
  by (induction r rule: reply_tokens.induct) (simp_all add: concat_bulk_tokens, simp add: bulk_tokens_def)

lemma send_reply_ok:
  assumes "sink_ready rb (Suc (length (encode_reply r)))" "reply_in_range r"
  shows "\<exists>rb'. send_reply rb r = Inr rb' \<and> appends rb (encode_reply r) rb'"
  using sink.emit_all_ok [of rb "reply_tokens r"] assms by (simp add: send_reply_tokens reply_tokens_bytes)

section \<open>Properties\<close>

text \<open>
  C22 (functional): every reply helper appends exactly the protocol encoding of its reply to the
  bytes waiting in the output buffer, when the buffer has room for it and one byte more.
\<close>

theorem replies_append_encoding:
  assumes "rb_inv rb" "length (contents rb) + length (encode_reply r) < capacity rb"
    and "length (encode_reply r) < index_budget rb" "reply_in_range r"
  shows "\<exists>rb'. send_reply rb r = Inr rb' \<and> rb_inv rb' \<and> contents rb' = contents rb @ encode_reply r"
  using send_reply_ok [of rb r] assms by (auto simp: sink_ready_def fits_def appends_def)

definition out_example :: ring_buffer where
  "out_example = \<lparr>read_index = 5, write_index = 6, region = Some (replicate 16 (CHR ''x'')), rb_size = 16, rb_fd = 3\<rparr>"

lemma out_example_facts:
  "rb_inv out_example" "capacity out_example = 16" "contents out_example = ''x''"
  "index_budget out_example = 2 ^ 64 - 7"
  by (simp_all add: out_example_def rb_inv_def assert_state_def mem_def capacity_def contents_def
      load_bytes_def readable_len_def index_budget_def)

theorem replies_append_encoding_witness:
  "\<exists>rb'. send_reply out_example (Bulk_Reply ''hello'') = Inr rb' \<and> rb_inv rb' \<and>
     contents rb' = ''x$5'' @ crlf @ ''hello'' @ crlf"
proof -
  have enc: "encode_reply (Bulk_Reply ''hello'') = ''$5'' @ crlf @ ''hello'' @ crlf" by code_simp
  show ?thesis
    using replies_append_encoding [of out_example "Bulk_Reply ''hello''"] unfolding enc
    by (simp add: out_example_facts)
qed

text \<open>
  C39 (error): a fixed token that does not fit leaves the buffer as it was, but an array header that
  fits exactly loses its last byte: \<^verbatim>\<open>snprintf\<close> puts its terminator there and the byte is sent.
\<close>

theorem exact_fit_truncates_header:
  assumes inv: "rb_inv rb" and hdr: "hdr = ''*'' @ show_int n @ crlf"
    and exact: "length (contents rb) + length hdr = capacity rb" "length hdr \<le> index_budget rb"
  shows "(\<exists>rb'. write_begin_array rb n = Inr rb' \<and> contents rb' = contents rb @ butlast hdr @ [NUL]) \<and>
    (\<forall>bs. length (contents rb) + length bs > capacity rb \<longrightarrow> write_fixed rb bs = Inr rb)"
proof
  have fit: "fits rb (length hdr)" using exact by (simp add: fits_def)
  have wl: "unat (writable_len rb) = length hdr"
    using exact(1) unfolding writable_len_room [OF inv] by linarith
  have pos: "0 < length hdr" by (simp add: hdr)
  then have sn: "snprintf (length hdr) hdr = butlast hdr @ [NUL]" by (simp add: snprintf_def butlast_conv_take)
  have len: "length (butlast hdr @ [NUL]) = length hdr" using pos by simp
  from rb_commit_at_end [OF inv, of "butlast hdr @ [NUL]" "length hdr", unfolded len, OF fit] len
  obtain rb' where "rb_commit rb (unat (write_index rb) mod unat (rb_size rb)) (butlast hdr @ [NUL]) (length hdr) = Inr rb'"
    "appends rb (butlast hdr @ [NUL]) rb'" by fastforce
  with wl sn show "\<exists>rb'. write_begin_array rb n = Inr rb' \<and> contents rb' = contents rb @ butlast hdr @ [NUL]"
    unfolding write_begin_array_def Let_def hdr [symmetric]
    by (auto simp: rb_writable_inv [OF inv] appends_def)
  show "\<forall>bs. length (contents rb) + length bs > capacity rb \<longrightarrow> write_fixed rb bs = Inr rb"
    using wl exact(1) by (simp add: write_fixed_def rb_writable_inv [OF inv])
qed

theorem exact_fit_truncates_header_witness:
  "\<exists>rb'. write_begin_array
       \<lparr>read_index = 0, write_index = 0, region = Some ''zzzz'', rb_size = 4, rb_fd = 3\<rparr> 3 = Inr rb' \<and>
     contents rb' = ''*3'' @ [CR, NUL]"
proof -
  let ?rb = "\<lparr>read_index = 0, write_index = 0, region = Some ''zzzz'', rb_size = 4, rb_fd = 3\<rparr>"
  have "''*3'' @ crlf = ''*'' @ show_int 3 @ crlf" by code_simp
  from exact_fit_truncates_header [OF _ this, of ?rb] show ?thesis
    by (simp add: rb_inv_def assert_state_def mem_def capacity_def contents_def
      load_bytes_def readable_len_def index_budget_def)
qed

end
