(* ===== verification/Server_State.thy ===== *)
theory Server_State
  imports Rdb Resp_Writer
begin

text \<open>
  The records that commands work on: the client, the server globals, the command handler, and the
  environment of one command (the clock, allocation and system call outcomes).  The database that
  \<^verbatim>\<open>client->db\<close> points to is shared by all clients and is a field of the server; the globals
  \<^verbatim>\<open>g_server_config\<close> and \<^verbatim>\<open>g_server_info\<close> are fields too.
\<close>

datatype ClientType = CLIENT_TYPE_REGULAR | CLIENT_TYPE_REPLICA | CLIENT_TYPE_MASTER

datatype ReplicaClientState =
    REPL_STATE_NONE
  | REPL_STATE_CONNECTING
  | REPL_STATE_SENT_PING
  | REPL_STATE_RECEIVED_PONG
  | REPL_STATE_SENT_REPLCONF_PORT
  | REPL_STATE_RECEIVED_REPLCONF_PORT_OK
  | REPL_STATE_SENT_REPLCONF_CAPA
  | REPL_STATE_RECEIVED_REPLCONF_CAPA_OK
  | REPL_STATE_SENT_PSYNC
  | REPL_STATE_RECEIVED_FULLRESYNC_RESPONSE
  | REPL_STATE_RECEIVING_RDB_DATA
  | REPL_STATE_READY
  | REPL_STATE_ERROR

datatype MasterReplicaState =
    MASTER_REPL_STATE_PSYNC
  | MASTER_REPL_STATE_SENDING_RDB_DATA
  | MASTER_REPL_STATE_PROPAGATE

text \<open>The stream of the temporary snapshot file, once it has been opened: its path, or closed.\<close>

datatype tmp_file = Open_File string | Closed_File

record Client =
  fd :: int
  input_buffer :: ring_buffer
  output_buffer :: ring_buffer
  client_type :: ClientType
  epoll_events :: u32
  master_repl_state :: MasterReplicaState
  rdb_fd :: int
  rdb_file_offset :: int
  rdb_file_size :: int
  repl_offset :: int
  repl_client_state :: ReplicaClientState
  rdb_expected_bytes :: int
  rdb_received_bytes :: int
  rdb_written_bytes :: int
  tmp_rdb_fp :: "tmp_file option"
  should_propogate_command :: bool
  should_reply :: bool

datatype server_role = ROLE_MASTER | ROLE_SLAVE

definition MAX_REPLICAS :: nat where "MAX_REPLICAS = 16"

text \<open>
  Replicas are identified by their descriptors.  \<open>files\<close> is the file system, and \<open>open_files\<close> gives the
  path behind a descriptor of an open snapshot, whose contents are those of the file at that path.
\<close>

record server =
  db :: redis_db
  cfg_dir :: string
  cfg_dbfilename :: string
  cfg_port :: string
  cfg_master_host :: string
  cfg_master_port :: string
  role :: server_role
  master_replid :: string
  master_repl_offset :: int
  repl_backlog :: ring_buffer
  repl_backlog_base_offset :: int
  replicas :: "int list"
  files :: file_system
  open_files :: "int \<Rightarrow> string option"

text \<open>
  The buffers of the handler hold the parts in use: \<open>buf\<close> the \<^verbatim>\<open>buf_used\<close> bytes stored so far,
  \<open>ends\<close> the \<^verbatim>\<open>ends_size\<close> entries, \<open>args\<close> the \<^verbatim>\<open>arg_count\<close> arguments; \<open>args_freed\<close> says that the
  argument strings have been freed after a command, although \<^verbatim>\<open>arg_count\<close> still counts them.
\<close>

record CommandHandler =
  buf :: bytes
  buf_size :: nat
  args :: "string list"
  args_freed :: bool
  arg_capacity :: nat
  ends :: "nat list"
  ends_capacity :: nat
  client :: Client
  srv :: server

text \<open>
  The environment: the clock, the junk in the uninitialised length of a new list, which sizes can be
  allocated, the outcomes of file operations and of \<^verbatim>\<open>epoll_ctl\<close>, and the bytes of the
  \<^verbatim>\<open>ring_buffer_struct\<close> of an input buffer (its indices, pointer, size, descriptor and padding as they are
  in memory), which one \<^verbatim>\<open>memcpy\<close> of the sources reads.
\<close>

record env =
  now :: int
  list_junk :: u64
  alloc :: "nat \<Rightarrow> bool"
  file_os :: file_ops
  next_fd :: int
  epoll_ok :: bool
  struct_bytes :: bytes

definition EPOLLOUT :: u32 where "EPOLLOUT = 4"

definition client_enable_write_events :: "env \<Rightarrow> Client \<Rightarrow> Client res" where
  "client_enable_write_events e c =
     (if epoll_ok e then Inr (c\<lparr>epoll_events := epoll_events c OR EPOLLOUT\<rparr>) else Inl Exit_Failure)"

definition client_disable_write_events :: "env \<Rightarrow> Client \<Rightarrow> Client res" where
  "client_disable_write_events e c =
     (if epoll_ok e then Inr (c\<lparr>epoll_events := epoll_events c AND NOT EPOLLOUT\<rparr>) else Inl Exit_Failure)"

definition add_replica :: "CommandHandler \<Rightarrow> CommandHandler res" where
  "add_replica ch =
     (let c = (client ch)\<lparr>client_type := CLIENT_TYPE_REPLICA, should_reply := False\<rparr> in
      if length (replicas (srv ch)) < MAX_REPLICAS then
        Inr (ch\<lparr>client := c, srv := (srv ch)\<lparr>replicas := replicas (srv ch) @ [fd c]\<rparr>\<rparr>)
      else Inl Out_Of_Bounds)"

text \<open>A reply goes to the output buffer of the client; \<open>reply_if\<close> only when it should be replied to.\<close>

definition reply :: "CommandHandler \<Rightarrow> (ring_buffer \<Rightarrow> ring_buffer res) \<Rightarrow> CommandHandler res" where
  "reply ch f =
     rbind (f (output_buffer (client ch))) (\<lambda>rb.
       Inr (ch\<lparr>client := (client ch)\<lparr>output_buffer := rb\<rparr>\<rparr>))"

definition reply_if :: "CommandHandler \<Rightarrow> (ring_buffer \<Rightarrow> ring_buffer res) \<Rightarrow> CommandHandler res" where
  "reply_if ch f = (if should_reply (client ch) then reply ch f else Inr ch)"

definition set_db :: "CommandHandler \<Rightarrow> redis_db \<Rightarrow> CommandHandler" where
  "set_db ch d = ch\<lparr>srv := (srv ch)\<lparr>db := d\<rparr>\<rparr>"

abbreviation the_db :: "CommandHandler \<Rightarrow> redis_db" where
  "the_db ch \<equiv> db (srv ch)"

end
