(* ===== verification/Commands.thy ===== *)
theory Commands
  imports Server_State
begin

text \<open>
  The command handlers of \<^verbatim>\<open>commands.c\<close>.  Each takes the environment and the command handler state
  and returns the new state: the database, the client's output buffer and its replication fields.
  Reading \<^verbatim>\<open>data.str\<close> of a list value is the fault \<open>Type_Confusion\<close>, overflow of a \<^verbatim>\<open>long\<close> the
  fault \<open>Signed_Overflow\<close>.
\<close>

section \<open>SET options\<close>

record SetOptions =
  opt_expiration :: int
  nx :: bool
  xx :: bool
  keepttl :: bool
  opt_get :: bool

definition no_options :: SetOptions where
  "no_options = \<lparr>opt_expiration = 0, nx = False, xx = False, keepttl = False, opt_get = False\<rparr>"

definition long_arith :: "int \<Rightarrow> int res" where
  "long_arith i = (if LONG_MIN \<le> i \<and> i \<le> LONG_MAX then Inr i else Inl Signed_Overflow)"

text \<open>The expiration that an option with a time argument gives, from its parsed number.\<close>

definition option_time :: "int \<Rightarrow> string \<Rightarrow> int \<Rightarrow> int res" where
  "option_time t opt v =
     (if opt = ''EX'' then rbind (long_arith (v * 1000)) (\<lambda>ms. long_arith (t + ms))
      else if opt = ''PX'' then long_arith (t + v)
      else if opt = ''EXAT'' then long_arith (v * 1000)
      else Inr v)"

fun parse_set_options :: "int \<Rightarrow> string list \<Rightarrow> SetOptions \<Rightarrow> (int \<times> SetOptions) res" where
  "parse_set_options t [] opts = Inr (0, opts)"
| "parse_set_options t (a # rest) opts =
     (if a = ''NX'' then
        if xx opts then Inr (ERR_SYNTAX, opts) else parse_set_options t rest (opts\<lparr>nx := True\<rparr>)
      else if a = ''XX'' then
        if nx opts then Inr (ERR_SYNTAX, opts) else parse_set_options t rest (opts\<lparr>xx := True\<rparr>)
      else if a = ''GET'' then parse_set_options t rest (opts\<lparr>opt_get := True\<rparr>)
      else if a = ''KEEPTTL'' then
        if opt_expiration opts \<noteq> 0 then Inr (ERR_SYNTAX, opts)
        else parse_set_options t rest (opts\<lparr>keepttl := True\<rparr>)
      else
        case rest of
          [] \<Rightarrow> parse_set_options t rest opts
        | arg # rest' \<Rightarrow>
            if a = ''EX'' \<or> a = ''PX'' \<or> a = ''EXAT'' \<or> a = ''PXAT'' then
              if opt_expiration opts \<noteq> 0 \<or> keepttl opts then Inr (ERR_SYNTAX, opts)
              else
                case parse_integer arg 0 of (rc, v) \<Rightarrow>
                  if rc \<noteq> 0 then Inr (rc, opts)
                  else
                    rbind (option_time t a v) (\<lambda>ex.
                      parse_set_options t rest' (opts\<lparr>opt_expiration := ex\<rparr>))
            else parse_set_options t rest opts)"

section \<open>String commands\<close>

definition handle_ping :: "env \<Rightarrow> CommandHandler \<Rightarrow> CommandHandler res" where
  "handle_ping e ch =
     (if length (args ch) = 1 then reply ch (\<lambda>rb. add_simple_string_reply rb ''PONG'')
      else if length (args ch) = 2 then reply ch (\<lambda>rb. add_simple_string_reply rb (args ch ! 1))
      else reply ch (\<lambda>rb. add_error_reply rb ''ERR wrong number of arguments for 'ping' command''))"

definition handle_echo :: "env \<Rightarrow> CommandHandler \<Rightarrow> CommandHandler res" where
  "handle_echo e ch =
     (if length (args ch) \<noteq> 2 then
        reply ch (\<lambda>rb. add_error_reply rb ''ERR wrong number of arguments for 'echo' command'')
      else reply ch (\<lambda>rb. add_simple_string_reply rb (args ch ! 1)))"

text \<open>The string of a value, as \<^verbatim>\<open>data.str\<close> reads it.\<close>

definition data_str :: "RedisValue \<Rightarrow> string res" where
  "data_str v = (case rdata v of Str s \<Rightarrow> Inr s | Lst _ \<Rightarrow> Inl Type_Confusion)"

definition handle_set :: "env \<Rightarrow> CommandHandler \<Rightarrow> CommandHandler res" where
  "handle_set e ch =
     (if length (args ch) < 3 then
        reply ch (\<lambda>rb. add_error_reply rb ''ERR wrong number of arguments for 'set' command'')
      else
        let key = args ch ! 1; val = args ch ! 2 in
        rbind (parse_set_options (now e) (drop 3 (args ch)) no_options) (\<lambda>(parse_result, opts).
        if parse_result = ERR_SYNTAX then reply_if ch (\<lambda>rb. add_error_reply rb ''ERR syntax error'')
        else if parse_result = ERR_VALUE then
          reply_if ch (\<lambda>rb. add_error_reply rb ''ERR value is not an integer or out of range'')
        else if opt_expiration opts < 0 then
          reply_if ch (\<lambda>rb. add_error_reply rb ''ERR expiration must be a non-negative integer'')
        else
          rbind (if nx opts \<or> xx opts \<or> opt_get opts \<or> keepttl opts
                 then redis_db_get (now e) (the_db ch) key else Inr (None, the_db ch))
            (\<lambda>(existing_value, d).
          let ch = set_db ch d; key_exists = (existing_value \<noteq> None) in
          if nx opts \<and> key_exists \<or> xx opts \<and> \<not> key_exists then reply_if ch add_null_reply
          else
            let ex = (case existing_value of
                        Some v \<Rightarrow> if keepttl opts then expiration v else opt_expiration opts
                      | None \<Rightarrow> opt_expiration opts)
            in
            rbind (case existing_value of
                     Some v \<Rightarrow> if opt_get opts then rbind (data_str v) (\<lambda>s. Inr (Some s)) else Inr None
                   | None \<Rightarrow> Inr None) (\<lambda>old_value.
            rbind (redis_db_set (the_db ch) key (Str val) ex) (\<lambda>d.
            let ch = set_db ch d in
            if opt_get opts then
              (case old_value of
                 Some s \<Rightarrow> reply_if ch (\<lambda>rb. add_bulk_string_reply rb s)
               | None \<Rightarrow> reply_if ch add_null_reply)
            else reply_if ch (\<lambda>rb. add_simple_string_reply rb ''OK''))))))"

definition handle_get :: "env \<Rightarrow> CommandHandler \<Rightarrow> CommandHandler res" where
  "handle_get e ch =
     (if length (args ch) \<noteq> 2 then
        reply_if ch (\<lambda>rb. add_error_reply rb ''ERR wrong number of arguments for 'get' command'')
      else
        rbind (redis_db_get (now e) (the_db ch) (args ch ! 1)) (\<lambda>(redis_value, d).
          let ch = set_db ch d in
          case redis_value of
            None \<Rightarrow> reply_if ch add_null_reply
          | Some v \<Rightarrow>
              (case rdata v of
                 Lst _ \<Rightarrow>
                   reply_if ch (\<lambda>rb. add_error_reply rb
                     ''ERR Operation against a key holding the wrong kind of value'')
               | Str s \<Rightarrow> reply_if ch (\<lambda>rb. add_bulk_string_reply rb s))))"

primrec count_existing :: "redis_db \<Rightarrow> string list \<Rightarrow> int res" where
  "count_existing d [] = Inr 0"
| "count_existing d (k # ks) =
     rbind (redis_db_exist d k) (\<lambda>b.
     rbind (count_existing d ks) (\<lambda>n. Inr (if b then n + 1 else n)))"

definition handle_exist :: "env \<Rightarrow> CommandHandler \<Rightarrow> CommandHandler res" where
  "handle_exist e ch =
     (if length (args ch) < 2 then
        reply ch (\<lambda>rb. add_error_reply rb ''ERR wrong number of arguments for 'exist' command'')
      else
        rbind (count_existing (the_db ch) (drop 1 (args ch))) (\<lambda>count.
          reply ch (\<lambda>rb. add_integer_reply rb count)))"

primrec delete_all :: "redis_db \<Rightarrow> string list \<Rightarrow> redis_db res" where
  "delete_all d [] = Inr d"
| "delete_all d (k # ks) = rbind (redis_db_delete d k) (\<lambda>d. delete_all d ks)"

definition handle_delete :: "env \<Rightarrow> CommandHandler \<Rightarrow> CommandHandler res" where
  "handle_delete e ch =
     (if length (args ch) < 2 then
        reply ch (\<lambda>rb. add_error_reply rb ''ERR wrong number of arguments for 'delete' command'')
      else
        rbind (delete_all (the_db ch) (drop 1 (args ch))) (\<lambda>d.
          reply_if (set_db ch d) (\<lambda>rb. add_simple_string_reply rb ''OK'')))"

definition handle_incr_decr :: "env \<Rightarrow> CommandHandler \<Rightarrow> int \<Rightarrow> CommandHandler res" where
  "handle_incr_decr e ch increment =
     (if length (args ch) < 2 then
        reply_if ch (\<lambda>rb. add_error_reply rb ''ERR wrong number of arguments for 'incr/decr' command'')
      else
        let key = args ch ! 1 in
        rbind (redis_db_get (now e) (the_db ch) key) (\<lambda>(redis_value, d).
        let ch = set_db ch d in
        rbind (case redis_value of
                 Some v \<Rightarrow> rbind (data_str v) (\<lambda>s. Inr (parse_integer s 0))
               | None \<Rightarrow> Inr (0, 0)) (\<lambda>(parse_result, current_value).
        if parse_result = ERR_VALUE then
          reply_if ch (\<lambda>rb. add_error_reply rb ''ERR value is not an integer'')
        else
          rbind (long_arith (current_value + increment)) (\<lambda>new_value.
          let new_value_str = cstr (snprintf 21 (show_int new_value)) in
          rbind (redis_db_set (the_db ch) key (Str new_value_str) 0) (\<lambda>d.
            reply_if (set_db ch d) (\<lambda>rb. add_integer_reply rb (int_of_long new_value)))))))"

definition handle_incr :: "env \<Rightarrow> CommandHandler \<Rightarrow> CommandHandler res" where
  "handle_incr e ch = handle_incr_decr e ch 1"

definition handle_decr :: "env \<Rightarrow> CommandHandler \<Rightarrow> CommandHandler res" where
  "handle_decr e ch = handle_incr_decr e ch (-1)"

section \<open>List commands\<close>

text \<open>
  The loops over the pushed elements return the code of the last push, the length and the database;
  they stop at a type mismatch.
\<close>

fun lpush_all ::
  "env \<Rightarrow> redis_db \<Rightarrow> string \<Rightarrow> string list \<Rightarrow> int \<Rightarrow> (int \<times> int \<times> redis_db) res" where
  "lpush_all e d key [] out = Inr (0, out, d)"
| "lpush_all e d key (x # xs) out =
     rbind (redis_db_lpush (now e) (list_junk e) d key x out) (\<lambda>(rc, out, d).
       if rc = ERR_TYPE_MISMATCH then Inr (rc, out, d) else lpush_all e d key xs out)"

fun rpush_all ::
  "env \<Rightarrow> redis_db \<Rightarrow> string \<Rightarrow> string list \<Rightarrow> int \<Rightarrow> (int \<times> int \<times> redis_db) res" where
  "rpush_all e d key [] out = Inr (0, out, d)"
| "rpush_all e d key (x # xs) out =
     rbind (redis_db_rpush (now e) (list_junk e) d key x out) (\<lambda>(rc, out, d).
       if rc = ERR_TYPE_MISMATCH then Inr (rc, out, d) else rpush_all e d key xs out)"

definition handle_lpush :: "env \<Rightarrow> CommandHandler \<Rightarrow> CommandHandler res" where
  "handle_lpush e ch =
     (if length (args ch) < 3 then
        reply_if ch (\<lambda>rb. add_error_reply rb ''ERR wrong number of arguments for 'lpush' command'')
      else
        rbind (lpush_all e (the_db ch) (args ch ! 1) (drop 2 (args ch)) 0) (\<lambda>(rc, n, d).
          let ch = set_db ch d in
          if rc = ERR_TYPE_MISMATCH then
            reply_if ch (\<lambda>rb. add_error_reply rb
              ''ERR Operation against a key holding the wrong kind of value'')
          else reply_if ch (\<lambda>rb. add_integer_reply rb n)))"

definition handle_rpush :: "env \<Rightarrow> CommandHandler \<Rightarrow> CommandHandler res" where
  "handle_rpush e ch =
     (if length (args ch) < 3 then
        reply_if ch (\<lambda>rb. add_error_reply rb ''ERR wrong number of arguments for 'rpush' command'')
      else
        rbind (rpush_all e (the_db ch) (args ch ! 1) (drop 2 (args ch)) 0) (\<lambda>(rc, n, d).
          let ch = set_db ch d in
          if rc = ERR_TYPE_MISMATCH then
            reply_if ch (\<lambda>rb. add_error_reply rb
              ''ERR Operation against a key holding the wrong kind of value'')
          else reply_if ch (\<lambda>rb. add_integer_reply rb n)))"

definition handle_lrange :: "env \<Rightarrow> CommandHandler \<Rightarrow> CommandHandler res" where
  "handle_lrange e ch =
     (if length (args ch) < 4 then
        reply ch (\<lambda>rb. add_error_reply rb ''ERR wrong number of arguments for 'rpush' command'')
      else
        let start = snd (parse_integer (args ch ! 2) 0);
            stop = snd (parse_integer (args ch ! 3) 0)
        in
        rbind (redis_db_lrange (now e) (the_db ch) (args ch ! 1) (int_of_long start) (int_of_long stop))
          (\<lambda>(rc, range, range_length, d).
          let ch = set_db ch d in
          if rc = ERR_TYPE_MISMATCH then
            reply ch (\<lambda>rb. add_error_reply rb
              ''ERR Operation against a key holding the wrong kind of value'')
          else
            rbind (reply ch (\<lambda>rb. add_array_reply rb range range_length)) (\<lambda>ch.
            rbind (cleanup_lrange_result range range_length) (\<lambda>_. Inr ch))))"

section \<open>Server commands\<close>

fun config_response :: "server \<Rightarrow> string list \<Rightarrow> string list option" where
  "config_response s [] = Some []"
| "config_response s (p # ps) =
     (if p = ''dir'' then map_option (\<lambda>r. ''dir'' # cfg_dir s # r) (config_response s ps)
      else if p = ''dbfilename'' then
        map_option (\<lambda>r. ''dbfilename'' # cfg_dbfilename s # r) (config_response s ps)
      else None)"

definition handle_config :: "env \<Rightarrow> CommandHandler \<Rightarrow> CommandHandler res" where
  "handle_config e ch =
     (if length (args ch) < 3 then
        reply ch (\<lambda>rb. add_error_reply rb ''ERR wrong number of arguments for 'config get' command'')
      else if args ch ! 1 = ''GET'' then
        (case config_response (srv ch) (drop 2 (args ch)) of
           None \<Rightarrow> reply ch (\<lambda>rb. add_error_reply rb ''ERR Unknown config parameter'')
         | Some response \<Rightarrow>
             reply ch (\<lambda>rb. add_array_reply rb (Some response) (int (length response))))
      else Inr ch)"

definition save_db :: "env \<Rightarrow> CommandHandler \<Rightarrow> CommandHandler res" where
  \<comment> \<open>\<^verbatim>\<open>redis_db_save(client->db)\<close> with its result ignored.\<close>
  "save_db e ch =
     rbind (redis_db_save (file_os e) (files (srv ch)) (the_db ch) (cfg_dir (srv ch))
              (cfg_dbfilename (srv ch))) (\<lambda>(_, fs).
       Inr (ch\<lparr>srv := (srv ch)\<lparr>files := fs\<rparr>\<rparr>))"

definition handle_save :: "env \<Rightarrow> CommandHandler \<Rightarrow> CommandHandler res" where
  "handle_save e ch =
     rbind (if length (args ch) \<noteq> 1 then
              reply ch (\<lambda>rb. add_error_reply rb ''ERR wrong number of arguments for 'save' command'')
            else Inr ch) (\<lambda>ch.
     rbind (save_db e ch) (\<lambda>ch. reply ch (\<lambda>rb. add_simple_string_reply rb ''OK'')))"

definition handle_dbsize :: "env \<Rightarrow> CommandHandler \<Rightarrow> CommandHandler res" where
  "handle_dbsize e ch =
     reply ch (\<lambda>rb. add_integer_reply rb (int_of_size (redis_db_dbsize (the_db ch))))"

definition INFO_BUFFER_SIZE :: nat where "INFO_BUFFER_SIZE = 2048"

definition info_text :: "server \<Rightarrow> string" where
  "info_text s =
     ''# Replication'' @ crlf @
     ''role:'' @ (case role s of ROLE_MASTER \<Rightarrow> ''master'' | ROLE_SLAVE \<Rightarrow> ''slave'') @ crlf @
     ''master_replid:'' @ master_replid s @ crlf @
     ''master_repl_offset:'' @ show_int (master_repl_offset s) @ crlf"

definition handle_info :: "env \<Rightarrow> CommandHandler \<Rightarrow> CommandHandler res" where
  \<comment> \<open>The four \<^verbatim>\<open>snprintf\<close> calls fill the buffer one after the other.\<close>
  "handle_info e ch =
     rbind (require Out_Of_Bounds (length (info_text (srv ch)) < INFO_BUFFER_SIZE)) (\<lambda>_.
       reply ch (\<lambda>rb. add_bulk_string_reply rb (info_text (srv ch))))"

definition handle_replconf :: "env \<Rightarrow> CommandHandler \<Rightarrow> CommandHandler res" where
  "handle_replconf e ch =
     (if length (args ch) \<ge> 3 \<and> args ch ! 1 = ''GETACK'' \<and> args ch ! 2 = ''*'' then
        let offset_str = cstr (snprintf 32 (show_int (master_repl_offset (srv ch)))) in
        reply ch (\<lambda>rb. add_array_reply rb (Some [''REPLCONF'', ''ACK'', offset_str]) 3)
      else reply ch (\<lambda>rb. add_simple_string_reply rb ''OK''))"

definition set_repl_state :: "CommandHandler \<Rightarrow> ReplicaClientState \<Rightarrow> CommandHandler" where
  "set_repl_state ch st = ch\<lparr>client := (client ch)\<lparr>repl_client_state := st\<rparr>\<rparr>"

definition handle_simple_string_reply :: "CommandHandler \<Rightarrow> CommandHandler res" where
  \<comment> \<open>The \<^verbatim>\<open>sscanf\<close> call has its string and format exchanged and stores nothing.\<close>
  "handle_simple_string_reply ch =
     (let answer = cstr (buf ch) in
      if client_type (client ch) = CLIENT_TYPE_MASTER then
        (case repl_client_state (client ch) of
           REPL_STATE_SENT_PING \<Rightarrow>
             Inr (set_repl_state ch
               (if answer = ''PONG'' then REPL_STATE_RECEIVED_PONG else REPL_STATE_ERROR))
         | REPL_STATE_SENT_REPLCONF_PORT \<Rightarrow>
             Inr (set_repl_state ch
               (if answer = ''OK'' then REPL_STATE_RECEIVED_REPLCONF_PORT_OK else REPL_STATE_ERROR))
         | REPL_STATE_SENT_REPLCONF_CAPA \<Rightarrow>
             Inr (set_repl_state ch
               (if answer = ''OK'' then REPL_STATE_RECEIVED_REPLCONF_CAPA_OK else REPL_STATE_ERROR))
         | REPL_STATE_SENT_PSYNC \<Rightarrow>
             Inr (set_repl_state ch
               (if take 9 answer = ''FULLRESYN'' then REPL_STATE_RECEIVED_FULLRESYNC_RESPONSE
                else REPL_STATE_ERROR))
         | _ \<Rightarrow> Inr ch)
      else Inr ch)"

definition partial_resync_ok :: "server \<Rightarrow> string \<Rightarrow> string \<Rightarrow> bool" where
  "partial_resync_ok s replid offset_str =
     (case strtol offset_str of (replica_offset, endptr, _) \<Rightarrow>
        take 1 replid \<noteq> ''?'' \<and> replid = master_replid s \<and> endptr = length offset_str \<and>
        replica_offset \<ge> repl_backlog_base_offset s \<and> replica_offset \<le> master_repl_offset s)"

definition enable_writes :: "env \<Rightarrow> CommandHandler \<Rightarrow> CommandHandler res" where
  "enable_writes e ch =
     rbind (client_enable_write_events e (client ch)) (\<lambda>c. Inr (ch\<lparr>client := c\<rparr>))"

text \<open>
  The full resynchronisation is written out twice: inside \<^verbatim>\<open>handle_psync\<close>, and as the function
  \<^verbatim>\<open>begin_fullresync\<close> of \<^verbatim>\<open>replication.c\<close>, which has the same body and no caller.
\<close>

definition full_resync :: "env \<Rightarrow> CommandHandler \<Rightarrow> CommandHandler res" where
  "full_resync e ch =
     rbind (reply ch (\<lambda>rb. add_fullresync_reply rb (master_replid (srv ch)) (master_repl_offset (srv ch)))) (\<lambda>ch.
     rbind (save_db e ch) (\<lambda>ch.
     let db_file_path = rdb_path (cfg_dir (srv ch)) (cfg_dbfilename (srv ch)) in
     case files (srv ch) db_file_path of
       None \<Rightarrow> Inl Null_Pointer
     | Some file \<Rightarrow>
         let sz = int (length file);
             ch = ch\<lparr>client := (client ch)\<lparr>rdb_fd := next_fd e, rdb_file_size := sz,
                rdb_file_offset := 0, master_repl_state := MASTER_REPL_STATE_SENDING_RDB_DATA\<rparr>,
                srv := (srv ch)\<lparr>open_files := (open_files (srv ch))(next_fd e \<mapsto> db_file_path)\<rparr>\<rparr>
         in rbind (reply ch (\<lambda>rb. write_begin_bulk_string rb sz)) (enable_writes e)))"

definition begin_fullresync :: "env \<Rightarrow> CommandHandler \<Rightarrow> CommandHandler res" where
  "begin_fullresync e ch = full_resync e ch"

definition handle_psync :: "env \<Rightarrow> CommandHandler \<Rightarrow> CommandHandler res" where
  "handle_psync e ch =
     (if length (args ch) < 3 then
        reply ch (\<lambda>rb. add_error_reply rb ''ERR wrong number of arguments for 'psync' command'')
      else if partial_resync_ok (srv ch) (args ch ! 1) (args ch ! 2) then
        rbind (add_replica ch) (\<lambda>ch.
        rbind (reply ch (\<lambda>rb. add_simple_string_reply rb ''CONTINUE'')) (\<lambda>ch.
        enable_writes e (ch\<lparr>client := (client ch)\<lparr>
          repl_offset := fst (strtol (args ch ! 2)), master_repl_state := MASTER_REPL_STATE_PSYNC\<rparr>\<rparr>)))
      else rbind (add_replica ch) (full_resync e))"

end
