(* ===== verification/Resp_Parser.thy ===== *)
theory Resp_Parser
  imports C_Library
begin

text \<open>
  The input side of \<^verbatim>\<open>resp.c\<close>: the stack-driven protocol parser.  It is generic in the state \<open>'ch\<close> of
  the command handler and in the callbacks of \<^verbatim>\<open>handler.h\<close>, as the code is through the global
  \<^verbatim>\<open>g_handler\<close>.  Pointers into the input are offsets into \<open>m\<close>, the memory from the start of the
  mapped region on; \<open>fin\<close> is the end of the received bytes, and \<open>m\<close> may extend beyond it, because
  \<^verbatim>\<open>strtol\<close> and \<open>count_tokens\<close> read on.  Function pointers are tags.
\<close>

section \<open>State\<close>

datatype ParserState =
    STATE_INITIAL_TERMINAL
  | STATE_INITIAL
  | STATE_SIMPLE
  | STATE_ARRAY_LENGTH
  | STATE_BULK_STRING_LENGTH
  | STATE_BULK_STRING
  | STATE_ARRAY
  | STATE_ERROR
  | STATE_INTEGER
  | STATE_INLINE_COMMAND

datatype ParseFunc =
    Parse_Initial
  | Parse_Simple
  | Parse_Length
  | Parse_Bulk_String
  | Parse_Array
  | Parse_Inline_Command

datatype EndCallback = End_Simple_String | End_Error | End_Integer | End_Bulk_String | End_Array

record StateInfo =
  state_type :: ParserState
  state_length :: int
  state_parse :: ParseFunc
  end_callback :: "EndCallback option"

record 'ch Handler =
  begin_array :: "'ch \<Rightarrow> int \<Rightarrow> 'ch res"
  end_array :: "'ch \<Rightarrow> 'ch res"
  begin_bulk_string :: "'ch \<Rightarrow> int \<Rightarrow> 'ch res"
  end_bulk_string :: "'ch \<Rightarrow> 'ch res"
  chars :: "'ch \<Rightarrow> bytes \<Rightarrow> 'ch res"
  begin_simple_string :: "'ch \<Rightarrow> 'ch res"
  end_simple_string :: "'ch \<Rightarrow> 'ch res"
  begin_error :: "'ch \<Rightarrow> 'ch res"
  end_error :: "'ch \<Rightarrow> 'ch res"
  begin_integer :: "'ch \<Rightarrow> 'ch res"
  end_integer :: "'ch \<Rightarrow> 'ch res"

text \<open>The stack is a list with the current state first; its bottom entry is never removed.\<close>

record 'ch Parser =
  command_handler :: 'ch
  stack :: "StateInfo list"

definition MAX_STACK_DEPTH :: nat where "MAX_STACK_DEPTH = 32"

definition state_info :: "ParserState \<Rightarrow> int \<Rightarrow> ParseFunc \<Rightarrow> EndCallback option \<Rightarrow> StateInfo" where
  "state_info t n f e = \<lparr>state_type = t, state_length = n, state_parse = f, end_callback = e\<rparr>"

definition parser_init :: "'ch \<Rightarrow> 'ch Parser" where
  "parser_init ch =
     \<lparr>command_handler = ch, stack = [state_info STATE_INITIAL_TERMINAL 0 Parse_Initial None]\<rparr>"

definition push_state ::
  "'ch Parser \<Rightarrow> ParserState \<Rightarrow> int \<Rightarrow> ParseFunc \<Rightarrow> EndCallback option \<Rightarrow> 'ch Parser" where
  "push_state p t n f e =
     (if length (stack p) - 1 < MAX_STACK_DEPTH - 1 then p\<lparr>stack := state_info t n f e # stack p\<rparr> else p)"

definition pop_state :: "'ch Parser \<Rightarrow> 'ch Parser" where
  "pop_state p = (if length (stack p) - 1 > 0 then p\<lparr>stack := tl (stack p)\<rparr> else p)"

abbreviation top :: "'ch Parser \<Rightarrow> StateInfo" where
  "top p \<equiv> hd (stack p)"

text \<open>A callback changes the handler state of a parser.\<close>

definition call :: "('ch \<Rightarrow> 'ch res) \<Rightarrow> 'ch Parser \<Rightarrow> 'ch Parser res" where
  "call f p = rbind (f (command_handler p)) (\<lambda>ch. Inr (p\<lparr>command_handler := ch\<rparr>))"

fun run_end_callback :: "'ch Handler \<Rightarrow> EndCallback option \<Rightarrow> 'ch Parser \<Rightarrow> 'ch Parser res" where
  "run_end_callback g None p = Inl Null_Pointer"
| "run_end_callback g (Some End_Simple_String) p = call (end_simple_string g) p"
| "run_end_callback g (Some End_Error) p = call (end_error g) p"
| "run_end_callback g (Some End_Integer) p = call (end_integer g) p"
| "run_end_callback g (Some End_Bulk_String) p = call (end_bulk_string g) p"
| "run_end_callback g (Some End_Array) p = call (end_array g) p"

definition byte_at :: "bytes \<Rightarrow> nat \<Rightarrow> byte res" where
  "byte_at m i = (if i < length m then Inr (m ! i) else Inl Out_Of_Bounds)"

definition slice :: "bytes \<Rightarrow> nat \<Rightarrow> nat \<Rightarrow> bytes" where
  "slice m i j = take (j - i) (drop i m)"

text \<open>
  \<open>chars_of\<close> passes the bytes between two pointers; a pointer pair in the wrong order, or past the
  memory, is an access out of bounds.
\<close>

definition chars_of :: "'ch Handler \<Rightarrow> bytes \<Rightarrow> nat \<Rightarrow> int \<Rightarrow> 'ch Parser \<Rightarrow> 'ch Parser res" where
  "chars_of g m i j p =
     (if int i \<le> j \<and> j \<le> int (length m) then call (\<lambda>ch. chars g ch (slice m i (nat j))) p
      else Inl Out_Of_Bounds)"

text \<open>A \<open>ParseResult\<close> with the parser: whether to keep going, the new position, the parser.\<close>

type_synonym 'ch parse_result = "(bool \<times> nat \<times> 'ch Parser) res"

section \<open>Parse functions\<close>

definition parse_initial ::
  "'ch Handler \<Rightarrow> bytes \<Rightarrow> nat \<Rightarrow> 'ch Parser \<Rightarrow> nat \<Rightarrow> 'ch parse_result" where
  "parse_initial g m fin p pos =
     (if pos = fin then Inr (False, pos, p)
      else
        let p = (if state_type (top p) = STATE_INITIAL then pop_state p else p) in
        rbind (byte_at m pos) (\<lambda>c.
          if c = CHR ''+'' then
            rbind (call (begin_simple_string g) p) (\<lambda>p.
              Inr (True, pos + 1, push_state p STATE_SIMPLE 0 Parse_Simple (Some End_Simple_String)))
          else if c = CHR ''-'' then
            rbind (call (begin_error g) p) (\<lambda>p.
              Inr (True, pos + 1, push_state p STATE_SIMPLE 0 Parse_Simple (Some End_Error)))
          else if c = CHR '':'' then
            rbind (call (begin_integer g) (push_state p STATE_SIMPLE 0 Parse_Simple (Some End_Integer)))
              (\<lambda>p. Inr (True, pos + 1, p))
          else if c = CHR ''$'' then
            Inr (True, pos + 1,
              push_state p STATE_BULK_STRING_LENGTH 0 Parse_Length (Some End_Bulk_String))
          else if c = CHR ''*'' then
            Inr (True, pos + 1, push_state p STATE_ARRAY_LENGTH 0 Parse_Length (Some End_Array))
          else
            Inr (True, pos, push_state p STATE_INLINE_COMMAND 0 Parse_Inline_Command None)))"

text \<open>The scan for a carriage return: the first position from \<open>pos\<close> on that holds it, or the end.\<close>

definition scan_cr :: "bytes \<Rightarrow> nat \<Rightarrow> nat \<Rightarrow> nat" where
  "scan_cr m fin pos = pos + length (takeWhile (\<lambda>c. c \<noteq> CR) (slice m pos fin))"

definition parse_simple ::
  "'ch Handler \<Rightarrow> bytes \<Rightarrow> nat \<Rightarrow> 'ch Parser \<Rightarrow> nat \<Rightarrow> 'ch parse_result" where
  "parse_simple g m fin p pos0 =
     (if pos0 = fin then Inr (False, pos0, p)
      else
        let pos = scan_cr m fin pos0 in
        rbind (chars_of g m pos0 (int pos) p) (\<lambda>p.
          if int fin - int pos < 2 then Inr (False, pos, p)
          else
            rbind (byte_at m (pos + 1)) (\<lambda>c.
              if c = LF then
                rbind (run_end_callback g (end_callback (top p)) p) (\<lambda>p.
                  Inr (True, pos + 2, pop_state p))
              else Inr (False, pos, p))))"

definition parse_length ::
  "'ch Handler \<Rightarrow> bytes \<Rightarrow> nat \<Rightarrow> 'ch Parser \<Rightarrow> nat \<Rightarrow> 'ch parse_result" where
  "parse_length g m fin p pos =
     (if pos = fin then Inr (False, pos, p)
      else
        case strtol (drop pos m) of (len, used, erange) \<Rightarrow>
          let end_ptr = pos + used in
          if end_ptr = pos \<or> int end_ptr \<ge> int fin - 1 \<or> erange then Inr (False, pos, p)
          else
            rbind (byte_at m end_ptr) (\<lambda>c0.
            rbind (byte_at m (end_ptr + 1)) (\<lambda>c1.
              if c0 \<noteq> CR \<or> c1 \<noteq> LF then Inr (False, pos, p)
              else if len > INT_MAX \<or> len < INT_MIN then Inr (False, pos, p)
              else if state_type (top p) = STATE_ARRAY_LENGTH then
                rbind (call (\<lambda>ch. begin_array g ch len) (pop_state p)) (\<lambda>p.
                  Inr (True, end_ptr + 2, push_state p STATE_ARRAY len Parse_Array (Some End_Array)))
              else if state_type (top p) = STATE_BULK_STRING_LENGTH then
                rbind (call (\<lambda>ch. begin_bulk_string g ch len) (pop_state p)) (\<lambda>p.
                  Inr (True, end_ptr + 2,
                    push_state p STATE_BULK_STRING len Parse_Bulk_String (Some End_Bulk_String)))
              else Inr (False, pos, p))))"

definition min_int :: "int \<Rightarrow> int \<Rightarrow> int" where
  \<comment> \<open>The result type of the function is \<^verbatim>\<open>int\<close>.\<close>
  "min_int a b = int_of_long (if a \<le> b then a else b)"

definition parse_bulk_string ::
  "'ch Handler \<Rightarrow> bytes \<Rightarrow> nat \<Rightarrow> 'ch Parser \<Rightarrow> nat \<Rightarrow> 'ch parse_result" where
  "parse_bulk_string g m fin p pos =
     (let len = state_length (top p) in
      if len = -1 then
        rbind (call (end_bulk_string g) p) (\<lambda>p. Inr (True, pos, pop_state p))
      else if pos = fin then Inr (False, pos, p)
      else
        let input_length = int fin - int pos;
            output_length = min_int len input_length
        in
        rbind (chars_of g m pos (int pos + output_length) p) (\<lambda>p.
          if len - output_length = 0 \<and> input_length \<ge> output_length + 2 then
            rbind (call (end_bulk_string g) p) (\<lambda>p.
              Inr (True, nat (int pos + output_length + 2), pop_state p))
          else Inr (False, nat (int pos + output_length), p)))"

definition dec_top :: "'ch Parser \<Rightarrow> 'ch Parser" where
  "dec_top p =
     (case stack p of
        [] \<Rightarrow> p
      | s # st \<Rightarrow> p\<lparr>stack := s\<lparr>state_length := to_long (state_length s - 1)\<rparr> # st\<rparr>)"

definition parse_array ::
  "'ch Handler \<Rightarrow> bytes \<Rightarrow> nat \<Rightarrow> 'ch Parser \<Rightarrow> nat \<Rightarrow> 'ch parse_result" where
  "parse_array g m fin p pos =
     (let len = state_length (top p) in
      if len = 0 \<or> len = -1 then
        rbind (call (end_array g) p) (\<lambda>p. Inr (True, pos, pop_state p))
      else Inr (True, pos, push_state (dec_top p) STATE_INITIAL 0 Parse_Initial None))"

section \<open>Inline commands\<close>

text \<open>The loop reads up to a NUL byte, wherever that is.\<close>

fun count_tokens_loop :: "bytes \<Rightarrow> nat \<Rightarrow> bool \<Rightarrow> char option \<Rightarrow> nat res" where
  "count_tokens_loop [] token_count in_token quote_char = Inl Out_Of_Bounds"
| "count_tokens_loop (c # str) token_count in_token quote_char =
     (if c = NUL then Inr token_count
      else
        case quote_char of
          Some q \<Rightarrow> count_tokens_loop str token_count in_token (if c = q then None else Some q)
        | None \<Rightarrow>
            if c = CHR 0x27 \<or> c = CHR 0x22 then
              count_tokens_loop str (if in_token then token_count else token_count + 1) True (Some c)
            else if c = CHR '' '' then count_tokens_loop str token_count False None
            else count_tokens_loop str (if in_token then token_count else token_count + 1) True None)"

definition count_tokens :: "bytes \<Rightarrow> nat res" where
  "count_tokens str = count_tokens_loop str 0 False None"

definition skip_spaces :: "bytes \<Rightarrow> nat \<Rightarrow> nat \<Rightarrow> nat" where
  "skip_spaces m pos start = start + length (takeWhile (\<lambda>c. c = CHR '' '') (slice m start pos))"

definition memchr_or_end :: "bytes \<Rightarrow> char \<Rightarrow> nat \<Rightarrow> nat \<Rightarrow> nat" where
  "memchr_or_end m q start pos = start + length (takeWhile (\<lambda>c. c \<noteq> q) (slice m start pos))"

text \<open>
  The token loop, with the number of rounds still allowed; every round moves \<open>token_start\<close>, so the
  length of the line plus one is enough.
\<close>

fun inline_tokens ::
  "nat \<Rightarrow> 'ch Handler \<Rightarrow> bytes \<Rightarrow> nat \<Rightarrow> nat \<Rightarrow> 'ch Parser \<Rightarrow> 'ch Parser res" where
  "inline_tokens 0 g m pos token_start p = Inl Out_Of_Fuel"
| "inline_tokens (Suc fuel) g m pos token_start p =
     (if token_start < pos then
        let token_start = skip_spaces m pos token_start in
        if token_start \<ge> pos then Inr p
        else
          let quoted = m ! token_start = CHR 0x22 \<or> m ! token_start = CHR 0x27;
              quote_char = m ! token_start;
              token_start = (if quoted then token_start + 1 else token_start);
              token_end = memchr_or_end m (if quoted then quote_char else CHR '' '') token_start pos
          in
          rbind (call (\<lambda>ch. begin_bulk_string g ch (int (token_end - token_start))) p) (\<lambda>p.
          rbind (chars_of g m token_start (int token_end) p) (\<lambda>p.
          rbind (call (end_bulk_string g) p) (\<lambda>p.
            let token_start = (if token_end < pos then token_end + 1 else token_end);
                token_start = (if quoted then token_start + 1 else token_start)
            in inline_tokens fuel g m pos token_start p)))
      else Inr p)"

definition parse_inline_command ::
  "'ch Handler \<Rightarrow> bytes \<Rightarrow> nat \<Rightarrow> 'ch Parser \<Rightarrow> nat \<Rightarrow> 'ch parse_result" where
  "parse_inline_command g m fin p pos0 =
     (if pos0 = fin then Inr (False, pos0, p)
      else
        let pos = scan_cr m fin pos0 in
        if pos \<noteq> fin then
          rbind (count_tokens (drop pos0 m)) (\<lambda>token_count.
          rbind (call (\<lambda>ch. begin_array g ch (int token_count)) p) (\<lambda>p.
          rbind (inline_tokens (pos - pos0 + 1) g m pos pos0 p) (\<lambda>p.
          rbind (call (end_array g) p) (\<lambda>p. Inr (True, pos + 2, pop_state p)))))
        else Inr (False, pos0, p))"

section \<open>The driver\<close>

fun parse_step ::
  "'ch Handler \<Rightarrow> bytes \<Rightarrow> nat \<Rightarrow> 'ch Parser \<Rightarrow> nat \<Rightarrow> 'ch parse_result" where
  "parse_step g m fin p pos =
     (case state_parse (top p) of
        Parse_Initial \<Rightarrow> parse_initial g m fin p pos
      | Parse_Simple \<Rightarrow> parse_simple g m fin p pos
      | Parse_Length \<Rightarrow> parse_length g m fin p pos
      | Parse_Bulk_String \<Rightarrow> parse_bulk_string g m fin p pos
      | Parse_Array \<Rightarrow> parse_array g m fin p pos
      | Parse_Inline_Command \<Rightarrow> parse_inline_command g m fin p pos)"

declare parse_step.simps [simp del]

text \<open>
  The driver loop.  \<open>stop\<close> is the test on the client of the handler (a replica that waits for the
  snapshot header of its master); the value \<open>None\<close> is a loop that does not end.
\<close>

partial_function (option) parser_parse ::
  "'ch Handler \<Rightarrow> ('ch \<Rightarrow> bool) \<Rightarrow> bytes \<Rightarrow> nat \<Rightarrow> 'ch Parser \<Rightarrow> nat \<Rightarrow> (nat \<times> 'ch Parser) res option" where
  "parser_parse g stop m fin p pos =
     (if stop (command_handler p) then Some (Inr (pos, p))
      else
        case parse_step g m fin p pos of
          Inl e \<Rightarrow> Some (Inl e)
        | Inr (keep_going, pos, p) \<Rightarrow>
            if keep_going then parser_parse g stop m fin p pos else Some (Inr (pos, p)))"

end
