(* ===== verification/Resp_Requests.thy ===== *)
theory Resp_Requests
  imports Resp_Parser
begin

text \<open>
  Correctness of the parser on the requests of clients.  A request is an array of bulk strings; the
  theorem says that parsing the encoding of any pipeline of requests is the same as calling the
  handler callbacks in order, and that every byte is consumed.  What the parser needs of its handler
  is the locale \<open>request_handler\<close>.
\<close>

section \<open>Encoding of requests\<close>

definition encode_bulk :: "bytes \<Rightarrow> bytes" where
  "encode_bulk s = ''$'' @ show_int (int (length s)) @ crlf @ s @ crlf"

definition encode_request :: "bytes list \<Rightarrow> bytes" where
  "encode_request args = ''*'' @ show_int (int (length args)) @ crlf @ concat (map encode_bulk args)"

definition call_bulk :: "'ch Handler \<Rightarrow> 'ch \<Rightarrow> bytes \<Rightarrow> 'ch res" where
  "call_bulk g ch s =
     rbind (begin_bulk_string g ch (int (length s))) (\<lambda>ch.
     rbind (chars g ch s) (\<lambda>ch. end_bulk_string g ch))"

primrec call_bulks :: "'ch Handler \<Rightarrow> 'ch \<Rightarrow> bytes list \<Rightarrow> 'ch res" where
  "call_bulks g ch [] = Inr ch"
| "call_bulks g ch (s # ss) = rbind (call_bulk g ch s) (\<lambda>ch. call_bulks g ch ss)"

definition call_request :: "'ch Handler \<Rightarrow> 'ch \<Rightarrow> bytes list \<Rightarrow> 'ch res" where
  "call_request g ch args =
     rbind (begin_array g ch (int (length args))) (\<lambda>ch.
     rbind (call_bulks g ch args) (\<lambda>ch. end_array g ch))"

primrec call_requests :: "'ch Handler \<Rightarrow> 'ch \<Rightarrow> bytes list list \<Rightarrow> 'ch res" where
  "call_requests g ch [] = Inr ch"
| "call_requests g ch (r # rs) = rbind (call_request g ch r) (\<lambda>ch. call_requests g ch rs)"

definition sizes_ok :: "bytes list \<Rightarrow> bool" where
  "sizes_ok args \<longleftrightarrow> int (length args) \<le> INT_MAX \<and> (\<forall>s \<in> set args. int (length s) \<le> INT_MAX)"

section \<open>Reading memory\<close>

definition holds :: "bytes \<Rightarrow> nat \<Rightarrow> bytes \<Rightarrow> bool" where
  "holds m pos bs \<longleftrightarrow> (\<exists>rest. drop pos m = bs @ rest) \<and> pos + length bs \<le> length m"

lemma holds_append [simp]: "holds m pos (xs @ ys) \<longleftrightarrow> holds m pos xs \<and> holds m (pos + length xs) ys"
proof
  assume "holds m pos (xs @ ys)"
  then obtain rest where r: "drop pos m = xs @ ys @ rest" "pos + length xs + length ys \<le> length m"
    by (auto simp: holds_def)
  then have "drop (pos + length xs) m = ys @ rest"
    by (metis add.commute append_eq_conv_conj drop_drop)
  with r show "holds m pos xs \<and> holds m (pos + length xs) ys" by (auto simp: holds_def)
next
  assume "holds m pos xs \<and> holds m (pos + length xs) ys"
  then obtain r1 r2 where r: "drop pos m = xs @ r1" "drop (pos + length xs) m = ys @ r2"
    "pos + length xs + length ys \<le> length m" by (auto simp: holds_def)
  then have "r1 = ys @ r2" by (metis add.commute append_eq_conv_conj drop_drop)
  with r show "holds m pos (xs @ ys)" by (auto simp: holds_def)
qed

lemma holds_Cons: "holds m pos (x # xs) \<longleftrightarrow> holds m pos [x] \<and> holds m (Suc pos) xs"
  by (rule holds_append [of m pos "[x]" xs, unfolded append.simps list.size add_Suc_right add_0_right])

lemma holds_byte: "holds m pos [c] \<Longrightarrow> byte_at m pos = Inr c"
proof -
  assume "holds m pos [c]"
  then obtain rest where r: "drop pos m = c # rest" "pos < length m" by (auto simp: holds_def)
  then have "m ! pos = c" using hd_drop_conv_nth [OF r(2)] by simp
  with r(2) show ?thesis by (simp add: byte_at_def)
qed

lemma holds_slice: "holds m pos s \<Longrightarrow> slice m pos (pos + length s) = s"
  by (auto simp: holds_def slice_def)

lemma chars_of_holds:
  "holds m pos s \<Longrightarrow> chars_of g m pos (int pos + int (length s)) p = call (\<lambda>ch. chars g ch s) p"
proof -
  assume h: "holds m pos s"
  have "nat (int pos + int (length s)) = pos + length s" by simp
  then show ?thesis using h holds_slice [OF h] by (simp add: chars_of_def holds_def)
qed

lemma strtol_holds:
  assumes "holds m pos (show_int n @ crlf)" "LONG_MIN \<le> n" "n \<le> LONG_MAX"
  shows "strtol (drop pos m) = (n, length (show_int n), False)"
proof -
  from assms(1) obtain rest where "drop pos m = show_int n @ crlf @ rest" unfolding holds_def by auto
  then show ?thesis using strtol_show_int [of "crlf @ rest" n] assms(2,3) by (simp add: is_digit_def)
qed

section \<open>Single steps\<close>

text \<open>One round of the driver that keeps going, and one that faults.\<close>

lemma parser_go:
  "\<not> stop (command_handler p) \<Longrightarrow> parse_step g m fin p pos = Inr (True, pos', p') \<Longrightarrow>
   parser_parse g stop m fin p pos = parser_parse g stop m fin p' pos'"
  by (simp add: parser_parse.simps [of g stop m fin p])

lemma parser_fault:
  "\<not> stop (command_handler p) \<Longrightarrow> parse_step g m fin p pos = Inl e \<Longrightarrow>
   parser_parse g stop m fin p pos = Some (Inl e)"
  by (simp add: parser_parse.simps [of g stop m fin p])

lemma parser_done:
  "\<not> stop (command_handler p) \<Longrightarrow> parse_step g m fin p pos = Inr (False, pos', p') \<Longrightarrow>
   parser_parse g stop m fin p pos = Some (Inr (pos', p'))"
  by (simp add: parser_parse.simps [of g stop m fin p])

text \<open>Continue with a handler state, or with the fault of the call that produced it.\<close>

definition continue_with :: "'ch res \<Rightarrow> ('ch \<Rightarrow> 'b res option) \<Rightarrow> 'b res option" where
  "continue_with r k = (case r of Inl e \<Rightarrow> Some (Inl e) | Inr ch \<Rightarrow> k ch)"

lemma continue_with_simps [simp]:
  "continue_with (Inl e) k = Some (Inl e)" "continue_with (Inr ch) k = k ch"
  by (simp_all add: continue_with_def)

lemma continue_with_rbind: "continue_with (rbind r f) k = continue_with r (\<lambda>ch. continue_with (f ch) k)"
  by (cases r) simp_all

abbreviation "init_state \<equiv> state_info STATE_INITIAL_TERMINAL 0 Parse_Initial None"
abbreviation "array_state n \<equiv> state_info STATE_ARRAY n Parse_Array (Some End_Array)"
abbreviation "bulk_len_state \<equiv> state_info STATE_BULK_STRING_LENGTH 0 Parse_Length (Some End_Bulk_String)"
abbreviation "array_len_state \<equiv> state_info STATE_ARRAY_LENGTH 0 Parse_Length (Some End_Array)"
abbreviation "bulk_state n \<equiv> state_info STATE_BULK_STRING n Parse_Bulk_String (Some End_Bulk_String)"

abbreviation parser_at :: "'ch \<Rightarrow> StateInfo list \<Rightarrow> 'ch Parser" where
  "parser_at ch st \<equiv> \<lparr>command_handler = ch, stack = st\<rparr>"

lemmas state_ops = push_state_def pop_state_def state_info_def MAX_STACK_DEPTH_def call_def

lemma step_array_next:
  assumes "0 < n" "n \<le> INT_MAX" "length st < 30"
  shows "parse_step g m fin (parser_at ch (array_state n # st)) pos =
    Inr (True, pos, parser_at ch (state_info STATE_INITIAL 0 Parse_Initial None # array_state (n - 1) # st))"
  using assms to_long_id [of "n - 1"]
  by (simp add: parse_step.simps parse_array_def dec_top_def state_ops c_limits)

lemma step_array_end:
  assumes "st \<noteq> []"
  shows "parse_step g m fin (parser_at ch (array_state 0 # st)) pos =
    rbind (end_array g ch) (\<lambda>ch. Inr (True, pos, parser_at ch st))"
  using assms by (cases "end_array g ch") (auto simp: parse_step.simps parse_array_def state_ops)

lemma step_initial_bulk:
  assumes "holds m pos ''$''" "pos < fin" "st \<noteq> []" "length st < 31"
  shows "parse_step g m fin (parser_at ch (state_info STATE_INITIAL 0 Parse_Initial None # st)) pos =
    Inr (True, pos + 1, parser_at ch (bulk_len_state # st))"
  using assms holds_byte [OF assms(1)]
  by (simp add: parse_step.simps parse_initial_def state_ops Let_def)

lemma step_initial_array:
  assumes "holds m pos ''*''" "pos < fin"
  shows "parse_step g m fin (parser_at ch [init_state]) pos =
    Inr (True, pos + 1, parser_at ch [array_len_state, init_state])"
  using assms holds_byte [OF assms(1)]
  by (simp add: parse_step.simps parse_initial_def state_ops Let_def)

lemma step_length:
  assumes h: "holds m pos (show_int n @ crlf)" and fin: "pos + length (show_int n) + 2 \<le> fin"
    and n: "0 \<le> n" "n \<le> INT_MAX" and st: "st \<noteq> []" "length st < 31"
  shows "parse_step g m fin (parser_at ch (bulk_len_state # st)) pos =
      rbind (begin_bulk_string g ch n) (\<lambda>ch.
        Inr (True, pos + length (show_int n) + 2, parser_at ch (bulk_state n # st)))"
    "parse_step g m fin (parser_at ch (array_len_state # st)) pos =
      rbind (begin_array g ch n) (\<lambda>ch.
        Inr (True, pos + length (show_int n) + 2, parser_at ch (array_state n # st)))"
proof -
  have sl: "strtol (drop pos m) = (n, length (show_int n), False)"
    using h n by (intro strtol_holds) (auto simp: c_limits)
  let ?e = "pos + length (show_int n)"
  have b: "byte_at m ?e = Inr CR" "byte_at m (?e + 1) = Inr LF"
    using h holds_Cons [of m ?e CR "[LF]"] holds_byte by auto
  have pos: "0 < length (show_int n)" by simp
  have in_range: "INT_MIN \<le> n" using n by (simp add: c_limits)
  show "parse_step g m fin (parser_at ch (bulk_len_state # st)) pos =
      rbind (begin_bulk_string g ch n) (\<lambda>ch.
        Inr (True, ?e + 2, parser_at ch (bulk_state n # st)))"
    using fin pos b n in_range st sl
    by (cases "begin_bulk_string g ch n")
      (auto simp: parse_step.simps parse_length_def state_ops Let_def)
  show "parse_step g m fin (parser_at ch (array_len_state # st)) pos =
      rbind (begin_array g ch n) (\<lambda>ch.
        Inr (True, ?e + 2, parser_at ch (array_state n # st)))"
    using fin pos b n in_range st sl
    by (cases "begin_array g ch n")
      (auto simp: parse_step.simps parse_length_def state_ops Let_def)
qed

lemma step_bulk:
  assumes h: "holds m pos s" and fin: "pos + length s + 2 \<le> fin" and n: "int (length s) \<le> INT_MAX"
    and st: "st \<noteq> []"
  shows "parse_step g m fin (parser_at ch (bulk_state (int (length s)) # st)) pos =
    rbind (chars g ch s) (\<lambda>ch. rbind (end_bulk_string g ch) (\<lambda>ch.
      Inr (True, pos + length s + 2, parser_at ch st)))"
proof -
  have mn: "min_int (int (length s)) (int fin - int pos) = int (length s)"
    using fin n by (simp add: min_int_def int_of_long_id c_limits)
  have "nat (int pos + int (length s) + 2) = pos + length s + 2" by simp
  with mn show ?thesis
    using fin st chars_of_holds [OF h, of g]
    by (cases "chars g ch s"; cases "end_bulk_string g (projr (chars g ch s))")
      (auto simp: parse_step.simps parse_bulk_string_def state_ops Let_def)
qed

section \<open>Requests\<close>

text \<open>
  \<open>good\<close> is a property of handler states under which the driver does not hand the input over to the
  snapshot receiver, and which the callbacks keep.
\<close>

locale request_handler =
  fixes g :: "'ch Handler"
    and stop :: "'ch \<Rightarrow> bool"
    and good :: "'ch \<Rightarrow> bool"
  assumes good_runs: "good ch \<Longrightarrow> \<not> stop ch"
    and good_begin_array: "good ch \<Longrightarrow> begin_array g ch n = Inr ch' \<Longrightarrow> good ch'"
    and good_begin_bulk: "good ch \<Longrightarrow> begin_bulk_string g ch n = Inr ch' \<Longrightarrow> good ch'"
    and good_chars: "good ch \<Longrightarrow> chars g ch s = Inr ch' \<Longrightarrow> good ch'"
    and good_end_bulk: "good ch \<Longrightarrow> end_bulk_string g ch = Inr ch' \<Longrightarrow> good ch'"
    and good_end_array: "good ch \<Longrightarrow> end_array g ch = Inr ch' \<Longrightarrow> good ch'"
begin

text \<open>A step whose only effect is a callback.\<close>

lemma parser_call:
  assumes good: "good ch" and step: "parse_step g m fin (parser_at ch st) pos =
      rbind r (\<lambda>ch. Inr (True, pos', parser_at ch st'))"
  shows "parser_parse g stop m fin (parser_at ch st) pos =
    continue_with r (\<lambda>ch. parser_parse g stop m fin (parser_at ch st') pos')"
  using good_runs [OF good] step
  by (cases r) (simp_all add: parser_fault parser_go)

lemma parser_next:
  assumes "good ch" "parse_step g m fin (parser_at ch st) pos = Inr (True, pos', parser_at ch st')"
  shows "parser_parse g stop m fin (parser_at ch st) pos = parser_parse g stop m fin (parser_at ch st') pos'"
  using good_runs [OF assms(1)] assms(2) by (simp add: parser_go)

lemma call_bulk_good: "good ch \<Longrightarrow> call_bulk g ch s = Inr ch' \<Longrightarrow> good ch'"
  unfolding call_bulk_def rbind_eq_Inr_iff using good_begin_bulk good_chars good_end_bulk by blast

lemma call_bulks_good: "good ch \<Longrightarrow> call_bulks g ch ss = Inr ch' \<Longrightarrow> good ch'"
  by (induction ss arbitrary: ch) (auto simp: rbind_eq_Inr_iff dest: call_bulk_good)

lemma call_request_good: "good ch \<Longrightarrow> call_request g ch args = Inr ch' \<Longrightarrow> good ch'"
  unfolding call_request_def rbind_eq_Inr_iff using good_begin_array call_bulks_good good_end_array by blast

lemma continue_cong:
  "good ch \<Longrightarrow> (\<And>ch'. r = Inr ch' \<Longrightarrow> good ch' \<Longrightarrow> k ch' = k' ch') \<Longrightarrow>
   (\<And>ch'. r = Inr ch' \<Longrightarrow> good ch') \<Longrightarrow> continue_with r k = continue_with r k'"
  by (cases r) auto

lemma parse_bulk_element:
  assumes good: "good ch" and h: "holds m pos (encode_bulk s)" and fin: "pos + length (encode_bulk s) \<le> fin"
    and s: "int (length s) \<le> INT_MAX" and n: "0 < n" "n \<le> INT_MAX" and st: "length st < 29"
  shows "parser_parse g stop m fin (parser_at ch (array_state n # st)) pos =
    continue_with (call_bulk g ch s) (\<lambda>ch.
      parser_parse g stop m fin (parser_at ch (array_state (n - 1) # st)) (pos + length (encode_bulk s)))"
proof -
  let ?st = "array_state (n - 1) # st" and ?n = "int (length s)"
  let ?q = "pos + 1 + length (show_int ?n) + 2"
  let ?P = "parser_parse g stop m fin"
  have hs: "holds m pos ''$''" "holds m (pos + 1) (show_int ?n @ crlf)" "holds m ?q s"
    using h unfolding encode_bulk_def holds_append by (simp_all add: add.assoc)
  have end_pos: "pos + length (encode_bulk s) = ?q + length s + 2" by (simp add: encode_bulk_def)
  have "?P (parser_at ch (array_state n # st)) pos =
      ?P (parser_at ch (state_info STATE_INITIAL 0 Parse_Initial None # ?st)) pos"
    using st by (intro parser_next [OF good] step_array_next n) simp
  also have "\<dots> = ?P (parser_at ch (bulk_len_state # ?st)) (pos + 1)"
    using st fin end_pos by (intro parser_next [OF good] step_initial_bulk hs(1)) simp_all
  also have "\<dots> = continue_with (begin_bulk_string g ch ?n) (\<lambda>ch. ?P (parser_at ch (bulk_state ?n # ?st)) ?q)"
    using st fin end_pos s by (intro parser_call [OF good] step_length(1) hs(2)) simp_all
  also have "\<dots> = continue_with (begin_bulk_string g ch ?n) (\<lambda>ch.
      continue_with (rbind (chars g ch s) (\<lambda>ch. end_bulk_string g ch)) (\<lambda>ch. ?P (parser_at ch ?st) (?q + length s + 2)))"
  proof (rule continue_cong [OF good])
    fix ch'
    assume "good ch'"
    then show "?P (parser_at ch' (bulk_state ?n # ?st)) ?q =
      continue_with (rbind (chars g ch' s) (\<lambda>ch. end_bulk_string g ch)) (\<lambda>ch. ?P (parser_at ch ?st) (?q + length s + 2))"
      using step_bulk [OF hs(3) _ s, of fin ?st g ch'] fin end_pos
      by (intro parser_call) (simp_all add: rbind_assoc)
  qed (rule good_begin_bulk [OF good])
  finally show ?thesis unfolding end_pos call_bulk_def continue_with_rbind .
qed

lemma parse_bulk_elements:
  "good ch \<Longrightarrow> holds m pos (concat (map encode_bulk ss)) \<Longrightarrow>
   pos + length (concat (map encode_bulk ss)) \<le> fin \<Longrightarrow> sizes_ok ss \<Longrightarrow> length st < 29 \<Longrightarrow>
   parser_parse g stop m fin (parser_at ch (array_state (int (length ss)) # st)) pos =
   continue_with (call_bulks g ch ss) (\<lambda>ch.
     parser_parse g stop m fin (parser_at ch (array_state 0 # st)) (pos + length (concat (map encode_bulk ss))))"
proof (induction ss arbitrary: ch pos)
  case Nil
  then show ?case by simp
next
  case (Cons s ss)
  let ?P = "parser_parse g stop m fin" and ?q = "pos + length (encode_bulk s)"
  have h: "holds m pos (encode_bulk s)" "holds m ?q (concat (map encode_bulk ss))"
    using Cons.prems(2) by simp_all
  have "?P (parser_at ch (array_state (int (length (s # ss))) # st)) pos =
      continue_with (call_bulk g ch s) (\<lambda>ch. ?P (parser_at ch (array_state (int (length (s # ss)) - 1) # st)) ?q)"
    using Cons.prems by (intro parse_bulk_element h(1)) (auto simp: sizes_ok_def)
  also have "\<dots> = continue_with (call_bulk g ch s) (\<lambda>ch. continue_with (call_bulks g ch ss) (\<lambda>ch.
      ?P (parser_at ch (array_state 0 # st)) (?q + length (concat (map encode_bulk ss)))))"
  proof (rule continue_cong [OF Cons.prems(1)])
    fix ch'
    assume "good ch'"
    from Cons.IH [OF this h(2)] Cons.prems show
      "?P (parser_at ch' (array_state (int (length (s # ss)) - 1) # st)) ?q =
       continue_with (call_bulks g ch' ss) (\<lambda>ch.
         ?P (parser_at ch (array_state 0 # st)) (?q + length (concat (map encode_bulk ss))))"
      by (simp add: sizes_ok_def)
  qed (rule call_bulk_good [OF Cons.prems(1)])
  finally show ?case by (simp add: continue_with_rbind add.assoc)
qed

lemma parse_request:
  assumes good: "good ch" and h: "holds m pos (encode_request args)"
    and fin: "pos + length (encode_request args) \<le> fin" and ok: "sizes_ok args"
  shows "parser_parse g stop m fin (parser_at ch [init_state]) pos =
    continue_with (call_request g ch args) (\<lambda>ch.
      parser_parse g stop m fin (parser_at ch [init_state]) (pos + length (encode_request args)))"
proof -
  let ?n = "int (length args)" and ?body = "concat (map encode_bulk args)"
  let ?q = "pos + 1 + length (show_int ?n) + 2"
  let ?P = "parser_parse g stop m fin"
  have hs: "holds m pos ''*''" "holds m (pos + 1) (show_int ?n @ crlf)" "holds m ?q ?body"
    using h unfolding encode_request_def holds_append by (simp_all add: add.assoc)
  have end_pos: "pos + length (encode_request args) = ?q + length ?body" by (simp add: encode_request_def)
  have "?P (parser_at ch [init_state]) pos = ?P (parser_at ch [array_len_state, init_state]) (pos + 1)"
    using fin end_pos by (intro parser_next [OF good] step_initial_array hs(1)) simp
  also have "\<dots> = continue_with (begin_array g ch ?n) (\<lambda>ch. ?P (parser_at ch [array_state ?n, init_state]) ?q)"
    using fin end_pos ok by (intro parser_call [OF good] step_length(2) hs(2)) (simp_all add: sizes_ok_def)
  also have "\<dots> = continue_with (begin_array g ch ?n) (\<lambda>ch. continue_with (call_bulks g ch args) (\<lambda>ch.
      continue_with (end_array g ch) (\<lambda>ch. ?P (parser_at ch [init_state]) (?q + length ?body))))"
  proof (rule continue_cong [OF good])
    fix ch1
    assume g1: "good ch1"
    have "?P (parser_at ch1 [array_state ?n, init_state]) ?q =
      continue_with (call_bulks g ch1 args) (\<lambda>ch. ?P (parser_at ch [array_state 0, init_state]) (?q + length ?body))"
      using g1 hs(3) fin end_pos ok by (intro parse_bulk_elements) simp_all
    also have "\<dots> = continue_with (call_bulks g ch1 args) (\<lambda>ch.
      continue_with (end_array g ch) (\<lambda>ch. ?P (parser_at ch [init_state]) (?q + length ?body)))"
    proof (rule continue_cong [OF g1])
      fix ch2
      assume "good ch2"
      then show "?P (parser_at ch2 [array_state 0, init_state]) (?q + length ?body) =
        continue_with (end_array g ch2) (\<lambda>ch. ?P (parser_at ch [init_state]) (?q + length ?body))"
        by (intro parser_call step_array_end) simp_all
    qed (rule call_bulks_good [OF g1])
    finally show "?P (parser_at ch1 [array_state ?n, init_state]) ?q = \<dots>" .
  qed (rule good_begin_array [OF good])
  finally show ?thesis unfolding end_pos call_request_def continue_with_rbind .
qed

lemma parse_requests:
  "good ch \<Longrightarrow> holds m pos (concat (map encode_request reqs)) \<Longrightarrow> (\<forall>r \<in> set reqs. sizes_ok r) \<Longrightarrow>
   fin = pos + length (concat (map encode_request reqs)) \<Longrightarrow>
   parser_parse g stop m fin (parser_init ch) pos =
   Some (rbind (call_requests g ch reqs) (\<lambda>ch. Inr (fin, parser_init ch)))"
proof (induction reqs arbitrary: ch pos)
  case Nil
  then show ?case
    using good_runs [OF Nil(1)]
    by (intro trans [OF parser_done]) (simp_all add: parser_init_def parse_step.simps parse_initial_def state_info_def)
next
  case (Cons r reqs)
  let ?q = "pos + length (encode_request r)"
  have "parser_parse g stop m fin (parser_at ch [init_state]) pos =
    continue_with (call_request g ch r) (\<lambda>ch. parser_parse g stop m fin (parser_at ch [init_state]) ?q)"
    using Cons.prems by (intro parse_request) simp_all
  also have "\<dots> = continue_with (call_request g ch r) (\<lambda>ch.
      Some (rbind (call_requests g ch reqs) (\<lambda>ch. Inr (fin, parser_init ch))))"
    using Cons.IH [of _ ?q] Cons.prems
    by (intro continue_cong [OF Cons.prems(1)])
      (auto simp: parser_init_def dest: call_request_good)
  finally show ?case
    by (cases "call_request g ch r") (simp_all add: parser_init_def)
qed

end

end
