(* ===== verification/Command_Handler.thy ===== *)
theory Command_Handler
  imports Commands Resp_Requests
begin

text \<open>
  Dispatch and argument collection of \<^verbatim>\<open>command_handler.c\<close>: the callbacks that the parser calls, with
  the buffers they fill, and the execution of a command when its array is complete.  The handler
  provides the interface of the parser (\<open>request_handler\<close>).
\<close>

section \<open>Dispatch\<close>

datatype CommandType =
    CMD_PING | CMD_ECHO | CMD_SET | CMD_GET | CMD_EXIST | CMD_DEL | CMD_INCR | CMD_DECR
  | CMD_LPUSH | CMD_RPUSH | CMD_LRANGE | CMD_CONFIG | CMD_SAVE | CMD_DBSIZE | CMD_INFO
  | CMD_UNKNOWN | CMD_REPLCONF | CMD_PSYNC

definition get_command_type :: "string \<Rightarrow> CommandType" where
  "get_command_type command =
     (if command = ''PING'' then CMD_PING
      else if command = ''ECHO'' then CMD_ECHO
      else if command = ''SET'' then CMD_SET
      else if command = ''GET'' then CMD_GET
      else if command = ''EXIST'' then CMD_EXIST
      else if command = ''DEL'' then CMD_DEL
      else if command = ''INCR'' then CMD_INCR
      else if command = ''DECR'' then CMD_DECR
      else if command = ''LPUSH'' then CMD_LPUSH
      else if command = ''RPUSH'' then CMD_RPUSH
      else if command = ''LRANGE'' then CMD_LRANGE
      else if command = ''CONFIG'' then CMD_CONFIG
      else if command = ''SAVE'' then CMD_SAVE
      else if command = ''DBSIZE'' then CMD_DBSIZE
      else if command = ''INFO'' then CMD_INFO
      else if command = ''REPLCONF'' then CMD_REPLCONF
      else if command = ''PSYNC'' then CMD_PSYNC
      else CMD_UNKNOWN)"

definition run_command :: "env \<Rightarrow> CommandType \<Rightarrow> CommandHandler \<Rightarrow> CommandHandler res" where
  "run_command e t ch =
     (case t of
        CMD_PING \<Rightarrow> handle_ping e ch
      | CMD_ECHO \<Rightarrow> handle_echo e ch
      | CMD_SET \<Rightarrow> handle_set e ch
      | CMD_GET \<Rightarrow> handle_get e ch
      | CMD_EXIST \<Rightarrow> handle_exist e ch
      | CMD_DEL \<Rightarrow> handle_delete e ch
      | CMD_INCR \<Rightarrow> handle_incr e ch
      | CMD_DECR \<Rightarrow> handle_decr e ch
      | CMD_LPUSH \<Rightarrow> handle_lpush e ch
      | CMD_RPUSH \<Rightarrow> handle_rpush e ch
      | CMD_LRANGE \<Rightarrow> handle_lrange e ch
      | CMD_CONFIG \<Rightarrow> handle_config e ch
      | CMD_SAVE \<Rightarrow> handle_save e ch
      | CMD_DBSIZE \<Rightarrow> handle_dbsize e ch
      | CMD_INFO \<Rightarrow> handle_info e ch
      | CMD_REPLCONF \<Rightarrow> handle_replconf e ch
      | CMD_PSYNC \<Rightarrow> handle_psync e ch
      | CMD_UNKNOWN \<Rightarrow> reply ch (\<lambda>rb. add_error_reply rb ''ERR unknown command''))"

definition set_propagate :: "bool \<Rightarrow> CommandHandler \<Rightarrow> CommandHandler" where
  "set_propagate b ch = ch\<lparr>client := (client ch)\<lparr>should_propogate_command := b\<rparr>\<rparr>"

definition handle_command :: "env \<Rightarrow> CommandHandler \<Rightarrow> CommandHandler res" where
  \<comment> \<open>With no argument stored, \<^verbatim>\<open>args[0]\<close> is unset or dangling.\<close>
  "handle_command e ch =
     (case args ch of
        [] \<Rightarrow> Inl Uninitialised
      | command # _ \<Rightarrow>
          if args_freed ch then Inl Use_After_Free
          else
            let command_type = get_command_type command in
            rbind (run_command e command_type (set_propagate False ch)) (\<lambda>ch.
              Inr (if command_type = CMD_SET then set_propagate True ch else ch)))"

section \<open>Callbacks\<close>

definition size_t_of :: "int \<Rightarrow> nat" where
  "size_t_of i = nat (i mod 2 ^ 64)"

definition sizeof_CommandHandler :: nat where "sizeof_CommandHandler = 88"

text \<open>The new handler is written to before its allocation is checked.\<close>

definition create_command_handler ::
  "env \<Rightarrow> Client \<Rightarrow> server \<Rightarrow> nat \<Rightarrow> nat \<Rightarrow> CommandHandler res" where
  "create_command_handler e c s initial_buf_size initial_arg_capacity =
     (if \<not> alloc e sizeof_CommandHandler then Inl Null_Pointer
      else if alloc e initial_buf_size \<and> alloc e (8 * initial_arg_capacity) then
        Inr \<lparr>buf = [], buf_size = initial_buf_size, args = [], args_freed = False,
             arg_capacity = initial_arg_capacity, ends = [], ends_capacity = initial_arg_capacity,
             client = c, srv = s\<rparr>
      else Inl Exit_Failure)"

definition begin_array_handler :: "env \<Rightarrow> CommandHandler \<Rightarrow> int \<Rightarrow> CommandHandler res" where
  "begin_array_handler e ch n =
     (let l = size_t_of n;
          bytes = (8 * l) mod 2 ^ 64;
          ch = ch\<lparr>buf := [], args := [], args_freed := False, ends := []\<rparr>
      in
      rbind (if l > arg_capacity ch then
               (if alloc e bytes then Inr (ch\<lparr>arg_capacity := l\<rparr>) else Inl Exit_Failure)
             else Inr ch) (\<lambda>ch.
        if l > ends_capacity ch then
          (if alloc e bytes then Inr (ch\<lparr>ends_capacity := l\<rparr>) else Inl Exit_Failure)
        else Inr ch))"

text \<open>
  Splitting the buffer: the flag says whether every argument could be allocated; a stored argument is
  read as a C string.
\<close>

fun split_args ::
  "env \<Rightarrow> nat \<Rightarrow> bytes \<Rightarrow> nat \<Rightarrow> nat list \<Rightarrow> string list \<Rightarrow> (bool \<times> string list) res" where
  "split_args e cap b begin [] acc = Inr (True, acc)"
| "split_args e cap b begin (x # xs) acc =
     (if length acc \<ge> cap then Inl Out_Of_Bounds
      else if \<not> alloc e (x - begin + 1) then Inr (False, acc)
      else split_args e cap b x xs (acc @ [cstr (take (x - begin) (drop begin b))]))"

definition end_array_handler :: "env \<Rightarrow> CommandHandler \<Rightarrow> CommandHandler res" where
  "end_array_handler e ch =
     rbind (split_args e (arg_capacity ch) (buf ch) 0 (ends ch) (args ch)) (\<lambda>(ok, as).
       let ch = ch\<lparr>args := as\<rparr> in
       if \<not> ok then Inr ch
       else rbind (handle_command e ch) (\<lambda>ch. Inr (ch\<lparr>args_freed := True\<rparr>)))"

definition begin_bulk_string_handler :: "env \<Rightarrow> CommandHandler \<Rightarrow> int \<Rightarrow> CommandHandler res" where
  "begin_bulk_string_handler e ch n =
     (let required_size = (length (buf ch) + size_t_of n) mod 2 ^ 64 in
      if required_size > buf_size ch then
        (if alloc e required_size then Inr (ch\<lparr>buf_size := required_size\<rparr>) else Inl Exit_Failure)
      else Inr ch)"

definition end_bulk_string_handler :: "CommandHandler \<Rightarrow> CommandHandler res" where
  "end_bulk_string_handler ch =
     (if length (ends ch) < ends_capacity ch then Inr (ch\<lparr>ends := ends ch @ [length (buf ch)]\<rparr>)
      else Inl Out_Of_Bounds)"

definition chars_handler :: "CommandHandler \<Rightarrow> bytes \<Rightarrow> CommandHandler res" where
  "chars_handler ch bs =
     (if length (buf ch) + length bs \<le> buf_size ch then Inr (ch\<lparr>buf := buf ch @ bs\<rparr>)
      else Inl Out_Of_Bounds)"

definition begin_simple_string_handler :: "CommandHandler \<Rightarrow> CommandHandler res" where
  "begin_simple_string_handler ch = Inr (ch\<lparr>buf := []\<rparr>)"

definition end_simple_string_handler :: "CommandHandler \<Rightarrow> CommandHandler res" where
  "end_simple_string_handler ch =
     (if length (buf ch) < buf_size ch then handle_simple_string_reply ch
      else Inr (set_repl_state ch REPL_STATE_ERROR))"

definition unimplemented :: "CommandHandler \<Rightarrow> CommandHandler res" where
  "unimplemented ch = Inr ch"

definition create_handler :: "env \<Rightarrow> CommandHandler Handler" where
  "create_handler e =
     \<lparr>begin_array = begin_array_handler e, end_array = end_array_handler e,
      begin_bulk_string = begin_bulk_string_handler e, end_bulk_string = end_bulk_string_handler,
      chars = chars_handler, begin_simple_string = begin_simple_string_handler,
      end_simple_string = end_simple_string_handler, begin_error = unimplemented,
      end_error = unimplemented, begin_integer = unimplemented, end_integer = unimplemented\<rparr>"

definition awaiting_snapshot :: "CommandHandler \<Rightarrow> bool" where
  \<comment> \<open>The test at the head of the loop of \<open>parser_parse\<close>.\<close>
  "awaiting_snapshot ch \<longleftrightarrow>
     client_type (client ch) = CLIENT_TYPE_MASTER \<and>
     repl_client_state (client ch) = REPL_STATE_RECEIVED_FULLRESYNC_RESPONSE"

section \<open>Commands never turn a client into a master\<close>

definition not_master :: "CommandHandler \<Rightarrow> bool" where
  "not_master ch \<longleftrightarrow> client_type (client ch) \<noteq> CLIENT_TYPE_MASTER"

lemma not_master_simps [simp]:
  "not_master (set_db ch d) = not_master ch"
  "not_master (set_repl_state ch st) = not_master ch"
  "not_master (set_propagate b ch) = not_master ch"
  "not_master (ch\<lparr>args := as\<rparr>) = not_master ch"
  "not_master (ch\<lparr>args_freed := fr\<rparr>) = not_master ch"
  "not_master (ch\<lparr>arg_capacity := n\<rparr>) = not_master ch"
  "not_master (ch\<lparr>ends := es\<rparr>) = not_master ch"
  "not_master (ch\<lparr>ends_capacity := n\<rparr>) = not_master ch"
  "not_master (ch\<lparr>buf := b'\<rparr>) = not_master ch"
  "not_master (ch\<lparr>buf_size := n\<rparr>) = not_master ch"
  "not_master (ch\<lparr>srv := s\<rparr>) = not_master ch"
  by (simp_all add: not_master_def set_db_def set_repl_state_def set_propagate_def)

lemma reply_not_master: "reply ch f = Inr ch' \<Longrightarrow> not_master ch' = not_master ch"
  by (auto simp: reply_def rbind_eq_Inr_iff not_master_def)

lemma reply_if_not_master: "reply_if ch f = Inr ch' \<Longrightarrow> not_master ch' = not_master ch"
  by (auto simp: reply_if_def reply_not_master split: if_splits)

lemma add_replica_not_master: "add_replica ch = Inr ch' \<Longrightarrow> not_master ch'"
  by (auto simp: add_replica_def Let_def not_master_def split: if_splits)

lemma save_db_not_master: "save_db e ch = Inr ch' \<Longrightarrow> not_master ch' = not_master ch"
  by (auto simp: save_db_def rbind_eq_Inr_iff)

lemma enable_writes_not_master: "enable_writes e ch = Inr ch' \<Longrightarrow> not_master ch' = not_master ch"
  by (auto simp: enable_writes_def client_enable_write_events_def rbind_eq_Inr_iff not_master_def split: if_splits)

lemmas not_master_rules = reply_not_master reply_if_not_master add_replica_not_master save_db_not_master
  enable_writes_not_master

lemma get_not_master: "handle_get e ch = Inr ch' \<Longrightarrow> not_master ch' = not_master ch"
proof (cases "length (args ch) = 2")
  case True
  assume "handle_get e ch = Inr ch'"
  with True obtain v d where get: "redis_db_get (now e) (the_db ch) (args ch ! 1) = Inr (v, d)"
    by (auto simp: handle_get_def rbind_eq_Inr_iff)
  with True \<open>handle_get e ch = Inr ch'\<close> show ?thesis
    by (cases v) (auto simp: handle_get_def Let_def dest: reply_if_not_master split: value_data.splits)
qed (auto simp: handle_get_def dest: reply_if_not_master)

lemma simple_commands_not_master:
  "handle_ping e ch = Inr ch' \<Longrightarrow> not_master ch' = not_master ch"
  "handle_echo e ch = Inr ch' \<Longrightarrow> not_master ch' = not_master ch"
  "handle_exist e ch = Inr ch' \<Longrightarrow> not_master ch' = not_master ch"
  "handle_delete e ch = Inr ch' \<Longrightarrow> not_master ch' = not_master ch"
  "handle_dbsize e ch = Inr ch' \<Longrightarrow> not_master ch' = not_master ch"
  "handle_info e ch = Inr ch' \<Longrightarrow> not_master ch' = not_master ch"
  "handle_config e ch = Inr ch' \<Longrightarrow> not_master ch' = not_master ch"
  "handle_replconf e ch = Inr ch' \<Longrightarrow> not_master ch' = not_master ch"
  by (auto simp: handle_ping_def handle_echo_def handle_exist_def handle_delete_def
      handle_dbsize_def handle_info_def handle_config_def handle_replconf_def rbind_eq_Inr_iff Let_def
      dest: not_master_rules split: if_splits option.splits)

lemma list_commands_not_master:
  "handle_lpush e ch = Inr ch' \<Longrightarrow> not_master ch' = not_master ch"
  "handle_rpush e ch = Inr ch' \<Longrightarrow> not_master ch' = not_master ch"
  "handle_lrange e ch = Inr ch' \<Longrightarrow> not_master ch' = not_master ch"
  by (auto simp: handle_lpush_def handle_rpush_def handle_lrange_def rbind_eq_Inr_iff Let_def
      dest!: not_master_rules split: if_splits)

lemma update_commands_not_master:
  "handle_set e ch = Inr ch' \<Longrightarrow> not_master ch' = not_master ch"
  "handle_incr_decr e ch i = Inr ch' \<Longrightarrow> not_master ch' = not_master ch"
  "handle_save e ch = Inr ch' \<Longrightarrow> not_master ch' = not_master ch"
  by (auto simp: handle_set_def handle_incr_decr_def handle_save_def rbind_eq_Inr_iff Let_def
      dest!: not_master_rules split: if_splits option.splits)

lemma full_resync_not_master: "full_resync e ch = Inr ch' \<Longrightarrow> not_master ch \<Longrightarrow> not_master ch'"
  by (auto simp: full_resync_def rbind_eq_Inr_iff Let_def not_master_def
      dest!: not_master_rules split: option.splits)

lemma psync_not_master: "handle_psync e ch = Inr ch' \<Longrightarrow> not_master ch \<Longrightarrow> not_master ch'"
  by (auto simp: handle_psync_def rbind_eq_Inr_iff
      dest!: full_resync_not_master not_master_rules dest: add_replica_not_master split: if_splits)
    (auto simp: not_master_def)

lemma run_command_not_master: "run_command e t ch = Inr ch' \<Longrightarrow> not_master ch \<Longrightarrow> not_master ch'"
  using get_not_master simple_commands_not_master list_commands_not_master update_commands_not_master psync_not_master
    reply_not_master
  by (cases t) (auto simp: run_command_def handle_incr_def handle_decr_def)

lemma handle_command_not_master: "handle_command e ch = Inr ch' \<Longrightarrow> not_master ch \<Longrightarrow> not_master ch'"
  by (auto simp: handle_command_def Let_def rbind_eq_Inr_iff dest: run_command_not_master
      split: list.splits if_splits)

interpretation cmd: request_handler "create_handler e" awaiting_snapshot not_master for e
  by unfold_locales
    (auto simp: create_handler_def awaiting_snapshot_def not_master_def [symmetric] begin_array_handler_def
      begin_bulk_string_handler_def chars_handler_def end_bulk_string_handler_def end_array_handler_def
      Let_def rbind_eq_Inr_iff dest: handle_command_not_master split: if_splits)

end
