(* ===== verification/Connections.thy ===== *)
theory Connections
  imports Command_Handler
begin

text \<open>
  The connections of \<^verbatim>\<open>client.c\<close>: creating and destroying a client, sending what waits in its output
  buffer, receiving, parsing and executing its input, and propagating write commands to the replicas.
  The state is the \<open>world\<close>: the server globals, the live connections by descriptor (a parser with its
  command handler and client), and what has been handed to the kernel on each descriptor.  A pointer to
  a destroyed client is a descriptor without a connection; using it is the fault \<open>Use_After_Free\<close>.
\<close>

section \<open>Sockets\<close>

text \<open>
  The results of the successive \<^verbatim>\<open>write\<close> and \<^verbatim>\<open>read\<close> calls on a socket are lists; an exhausted list
  stands for a socket that would block.  A \<^verbatim>\<open>write\<close> takes at most what it is given, a \<^verbatim>\<open>read\<close> gives at
  most what it is asked for.  \<open>Received []\<close> is the end of the stream.
\<close>

datatype write_result = Sent nat | Write_Interrupted | Write_Blocked | Write_Failed

datatype read_result = Received bytes | Read_Interrupted | Read_Blocked | Read_Failed

section \<open>Clients\<close>

definition RING_BUFFER_SIZE :: u64 where "RING_BUFFER_SIZE = 65536"

text \<open>
  \<open>create_client\<close>: \<open>junk\<close> gives the fields that the code leaves unset, \<open>os1\<close> and \<open>os2\<close> the system as the
  two buffers see it.  The result lists what is given back to the system on failure; a failing output
  buffer leaves the input buffer behind.
\<close>

definition create_client ::
  "bool \<Rightarrow> bool \<Rightarrow> rb_os \<Rightarrow> rb_os \<Rightarrow> Client \<Rightarrow> int \<Rightarrow> (Client option \<times> os_call list) res" where
  "create_client client_ok parser_ok os1 os2 junk descriptor =
     (if \<not> client_ok then Inr (None, [])
      else
        let c = junk\<lparr>fd := descriptor, rdb_expected_bytes := 0, rdb_written_bytes := 0, rdb_received_bytes := 0,
                  rdb_file_size := 0, rdb_file_offset := 0, tmp_rdb_fp := None,
                  should_propogate_command := False, should_reply := True, epoll_events := 0\<rparr>
        in
        rbind (rb_create os1 RING_BUFFER_SIZE) (\<lambda>(rc1, rb1, calls1).
        case rb1 of
          None \<Rightarrow> Inr (None, calls1)
        | Some inb \<Rightarrow>
            rbind (rb_create os2 RING_BUFFER_SIZE) (\<lambda>(rc2, rb2, calls2).
            case rb2 of
              None \<Rightarrow> Inr (None, calls1 @ calls2)
            | Some outb \<Rightarrow>
                if parser_ok then Inr (Some (c\<lparr>input_buffer := inb, output_buffer := outb\<rparr>), [])
                else Inr (None, snd (rb_destroy (Some inb)) @ snd (rb_destroy (Some outb))))))"

fun flush_loop :: "write_result list \<Rightarrow> ring_buffer \<Rightarrow> bytes \<Rightarrow> (int \<times> bytes \<times> ring_buffer \<times> write_result list) res" where
  \<comment> \<open>Result, bytes sent, buffer and remaining results of \<^verbatim>\<open>write\<close>.\<close>
  "flush_loop [] rb sent = rbind (rb_readable rb) (\<lambda>_. Inr (int (length sent), sent, rb, []))"
| "flush_loop (w # ws) rb sent =
     rbind (rb_readable rb) (\<lambda>(off, readable).
       if readable = 0 then Inr (int (length sent), sent, rb, w # ws)
       else
         case w of
           Write_Interrupted \<Rightarrow> flush_loop ws rb sent
         | Write_Blocked \<Rightarrow> Inr (int (length sent), sent, rb, ws)
         | Write_Failed \<Rightarrow> Inr (-1, sent, rb, ws)
         | Sent k \<Rightarrow>
             let bytes_sent = min k (unat readable) in
             if bytes_sent = 0 then Inr (int (length sent), sent, rb, ws)
             else
               rbind (region_load rb off bytes_sent) (\<lambda>bs.
               rbind (rb_read rb (of_nat bytes_sent)) (\<lambda>(_, rb). flush_loop ws rb (sent @ bs))))"

definition flush_client_output :: "write_result list \<Rightarrow> Client \<Rightarrow> (int \<times> bytes \<times> Client \<times> write_result list) res" where
  "flush_client_output ws c =
     rbind (flush_loop ws (output_buffer c) []) (\<lambda>(rc, sent, rb, ws). Inr (rc, sent, c\<lparr>output_buffer := rb\<rparr>, ws))"

definition EPOLLIN :: u32 where "EPOLLIN = 1"

definition client_enable_read_events :: "env \<Rightarrow> Client \<Rightarrow> Client res" where
  "client_enable_read_events e c =
     (if epoll_ok e then Inr (c\<lparr>epoll_events := epoll_events c OR EPOLLIN\<rparr>) else Inl Exit_Failure)"

section \<open>Resources\<close>

text \<open>What is given back: descriptors and mappings, and the blocks of memory of a connection and of the server.\<close>

datatype resource =
    System os_call
  | Db_Memory db_block
  | Handler_Block | Args_Block | Buf_Block | Ends_Block | CommandHandler_Block | Parser_Block | Client_Block

definition destroy_command_handler :: "CommandHandler option \<Rightarrow> resource list" where
  "destroy_command_handler ch =
     (case ch of None \<Rightarrow> [] | Some _ \<Rightarrow> [Args_Block, Buf_Block, Ends_Block, CommandHandler_Block])"

definition destroy_handler :: "CommandHandler Handler option \<Rightarrow> resource list" where
  "destroy_handler h = (case h of None \<Rightarrow> [] | Some _ \<Rightarrow> [Handler_Block])"

definition destroy_parser :: "CommandHandler Parser \<Rightarrow> resource list" where
  "destroy_parser p = [Parser_Block]"

definition destroy_client :: "CommandHandler Parser \<Rightarrow> resource list" where
  "destroy_client p =
     (let c = client (command_handler p) in
      System (Close (fd c)) # map System (snd (rb_destroy (Some (input_buffer c)))) @
      map System (snd (rb_destroy (Some (output_buffer c)))) @
      destroy_command_handler (Some (command_handler p)) @ destroy_parser p @ [Client_Block])"

section \<open>The world\<close>

text \<open>
  The globals, the connections by descriptor, the bytes written to every descriptor, and what destroyed
  connections have given back.
\<close>

record world =
  globals :: server
  conns :: "int \<Rightarrow> CommandHandler Parser option"
  wire :: "int \<Rightarrow> bytes"
  released :: "resource list"

text \<open>A connection is read with the current globals, and its changes to them are written back.\<close>

definition get_conn :: "world \<Rightarrow> int \<Rightarrow> CommandHandler Parser res" where
  "get_conn w i =
     (case conns w i of
        None \<Rightarrow> Inl Use_After_Free
      | Some p \<Rightarrow> Inr (p\<lparr>command_handler := (command_handler p)\<lparr>srv := globals w\<rparr>\<rparr>))"

definition put_conn :: "world \<Rightarrow> int \<Rightarrow> CommandHandler Parser \<Rightarrow> world" where
  "put_conn w i p = w\<lparr>globals := srv (command_handler p), conns := (conns w)(i := Some p)\<rparr>"

definition get_client :: "world \<Rightarrow> int \<Rightarrow> Client res" where
  "get_client w i = rbind (get_conn w i) (\<lambda>p. Inr (client (command_handler p)))"

definition put_client :: "world \<Rightarrow> int \<Rightarrow> Client \<Rightarrow> world res" where
  "put_client w i c =
     rbind (get_conn w i) (\<lambda>p. Inr (put_conn w i (p\<lparr>command_handler := (command_handler p)\<lparr>client := c\<rparr>\<rparr>)))"

definition flush :: "write_result list \<Rightarrow> world \<Rightarrow> int \<Rightarrow> (int \<times> world \<times> write_result list) res" where
  \<comment> \<open>\<^verbatim>\<open>flush_client_output\<close> on a connection of the world.\<close>
  "flush ws w i =
     rbind (get_client w i) (\<lambda>c.
     rbind (flush_client_output ws c) (\<lambda>(rc, sent, c, ws).
     rbind (put_client w i c) (\<lambda>w.
       Inr (rc, w\<lparr>wire := (wire w)(i := wire w i @ sent)\<rparr>, ws))))"

section \<open>Disconnection\<close>

definition remove_replica :: "int \<Rightarrow> server \<Rightarrow> server res" where
  \<comment> \<open>When the replica is not found the code writes at index -1.\<close>
  "remove_replica i s =
     (let num_replicas = length (replicas s);
          replica_pos = length (takeWhile (\<lambda>r. r \<noteq> i) (replicas s))
      in
      if replica_pos = num_replicas then Inl Out_Of_Bounds
      else Inr (s\<lparr>replicas := butlast ((replicas s)[replica_pos := replicas s ! (num_replicas - 1)])\<rparr>))"

definition handle_client_disconnection :: "world \<Rightarrow> int \<Rightarrow> world res" where
  "handle_client_disconnection w i =
     rbind (get_conn w i) (\<lambda>p.
     rbind (if client_type (client (command_handler p)) = CLIENT_TYPE_REPLICA then remove_replica i (globals w)
            else Inr (globals w)) (\<lambda>s.
       Inr (w\<lparr>globals := s, conns := (conns w)(i := None), released := released w @ destroy_client p\<rparr>)))"

section \<open>Propagation\<close>

text \<open>
  The parsed bytes go to the replication backlog and to the output buffer of every replica.  For the
  backlog the code copies from the \<^verbatim>\<open>ring_buffer_struct\<close> of the input buffer instead of from its bytes
  (\<open>struct_bytes\<close>), and when there are more parsed bytes than the structure has, it reads past its end;
  for the replicas it copies the bytes.  When a replica has no room the code
  disconnects the client whose input it is processing.
\<close>

definition sizeof_ring_buffer_struct :: nat where "sizeof_ring_buffer_struct = 40"

definition copy_struct :: "env \<Rightarrow> nat \<Rightarrow> bytes res" where
  "copy_struct e n = (if n \<le> sizeof_ring_buffer_struct then Inr (take n (struct_bytes e)) else Inl Out_Of_Bounds)"

definition append_backlog :: "env \<Rightarrow> nat \<Rightarrow> server \<Rightarrow> server res" where
  "append_backlog e n s =
     rbind (rb_writable (repl_backlog s)) (\<lambda>(off, writable).
       if n \<le> unat writable then
         rbind (copy_struct e n) (\<lambda>bs.
         rbind (region_store (repl_backlog s) off bs) (\<lambda>rb.
         rbind (rb_write rb (of_nat n)) (\<lambda>(_, rb). Inr (s\<lparr>repl_backlog := rb\<rparr>))))
       else
         let bytes_to_overwrite = n - unat writable in
         rbind (rb_read (repl_backlog s) (of_nat bytes_to_overwrite)) (\<lambda>(_, rb).
         rbind (long_arith (repl_backlog_base_offset s + int bytes_to_overwrite)) (\<lambda>base.
         rbind (copy_struct e n) (\<lambda>bs.
         rbind (region_store rb off bs) (\<lambda>rb.
         rbind (rb_write rb (of_nat n)) (\<lambda>(rc, rb).
           if rc \<noteq> 0 then Inl Exit_Failure
           else Inr (s\<lparr>repl_backlog := rb, repl_backlog_base_offset := base\<rparr>)))))))"

definition propagate_to :: "env \<Rightarrow> int \<Rightarrow> bytes \<Rightarrow> int \<Rightarrow> world \<Rightarrow> world res" where
  "propagate_to e i bs r w =
     rbind (get_client w r) (\<lambda>c.
     rbind (rb_writable (output_buffer c)) (\<lambda>(off, writable).
       if length bs \<le> unat writable then
         rbind (region_store (output_buffer c) off bs) (\<lambda>rb.
         rbind (rb_write rb (of_nat (length bs))) (\<lambda>(rc, rb).
           if rc \<noteq> 0 then put_client w r (c\<lparr>output_buffer := rb\<rparr>)
           else
             rbind (client_enable_write_events e (c\<lparr>output_buffer := rb\<rparr>)) (\<lambda>c. put_client w r c)))
       else handle_client_disconnection w i))"

text \<open>The loop over the replicas: \<^verbatim>\<open>num_replicas\<close> is read in every round and never grows.\<close>

primrec propagate_from :: "nat \<Rightarrow> env \<Rightarrow> int \<Rightarrow> bytes \<Rightarrow> nat \<Rightarrow> world \<Rightarrow> world res" where
  "propagate_from 0 e i bs k w = Inr w"
| "propagate_from (Suc n) e i bs k w =
     (if k < length (replicas (globals w)) then
        rbind (propagate_to e i bs (replicas (globals w) ! k) w) (\<lambda>w. propagate_from n e i bs (Suc k) w)
      else Inr w)"

definition propagate :: "env \<Rightarrow> int \<Rightarrow> bytes \<Rightarrow> world \<Rightarrow> world res" where
  "propagate e i bs w =
     (let s = globals w in
      rbind (long_arith (master_repl_offset s + int (length bs))) (\<lambda>off.
      rbind (append_backlog e (length bs) (s\<lparr>master_repl_offset := off\<rparr>)) (\<lambda>s.
        propagate_from MAX_REPLICAS e i bs 0 (w\<lparr>globals := s\<rparr>))))"

section \<open>Input\<close>

text \<open>The enumerations as the integers that \<^verbatim>\<open>client->type == REPL_STATE_READY\<close> compares.\<close>

definition client_type_code :: "ClientType \<Rightarrow> int" where
  "client_type_code t =
     (case t of CLIENT_TYPE_REGULAR \<Rightarrow> 0 | CLIENT_TYPE_REPLICA \<Rightarrow> 1 | CLIENT_TYPE_MASTER \<Rightarrow> 2)"

definition REPL_STATE_READY_code :: int where "REPL_STATE_READY_code = 11"

definition advance_replica_offset :: "Client \<Rightarrow> nat \<Rightarrow> server \<Rightarrow> server res" where
  "advance_replica_offset c n s =
     (if role s = ROLE_SLAVE \<and> client_type c = CLIENT_TYPE_MASTER \<and>
         client_type_code (client_type c) = REPL_STATE_READY_code
      then rbind (long_arith (master_repl_offset s + int n)) (\<lambda>off. Inr (s\<lparr>master_repl_offset := off\<rparr>))
      else Inr s)"

text \<open>The memory that the parser reads: the region mapped twice.\<close>

definition mapped :: "ring_buffer \<Rightarrow> bytes" where
  "mapped rb = mem rb @ mem rb"

text \<open>
  One parse of what the input buffer holds, with everything that follows it in the round; the result
  says whether to go on.  \<open>received\<close> and \<open>writable\<close> are the byte counts of the last \<^verbatim>\<open>read\<close>.
\<close>

definition consume :: "env \<Rightarrow> int \<Rightarrow> nat \<Rightarrow> nat \<Rightarrow> world \<Rightarrow> (bool \<times> bool \<times> world) res option" where
  \<comment> \<open>Whether to flush, whether to go on, and the world.\<close>
  "consume e i received writable w =
     (case rbind (get_conn w i) (\<lambda>p.
             rbind (rb_readable (input_buffer (client (command_handler p)))) (\<lambda>(pos, readable).
               Inr (p, pos, readable))) of
        Inl err \<Rightarrow> Some (Inl err)
      | Inr (p, pos, readable) \<Rightarrow>
          let m = mapped (input_buffer (client (command_handler p))) in
          case parser_parse (create_handler e) awaiting_snapshot m (pos + unat readable) p pos of
            None \<Rightarrow> None
          | Some r \<Rightarrow> Some (
              rbind r (\<lambda>(pos', p).
              let bytes_parsed = pos' - pos; w = put_conn w i p; c = client (command_handler p) in
              rbind (advance_replica_offset c bytes_parsed (globals w)) (\<lambda>s.
              rbind (let w = w\<lparr>globals := s\<rparr> in
                     if should_propogate_command c then propagate e i (slice m pos pos') w else Inr w) (\<lambda>w.
              rbind (get_client w i) (\<lambda>c.
              rbind (rb_read (input_buffer c) (of_nat bytes_parsed)) (\<lambda>(rc, rb).
                if rc \<noteq> 0 then Inr (False, False, w)
                else
                  rbind (put_client w i (c\<lparr>input_buffer := rb\<rparr>)) (\<lambda>w.
                    Inr (if received < writable then (True, False, w) else (False, True, w))))))))))"

fun process_loop :: "env \<Rightarrow> int \<Rightarrow> read_result list \<Rightarrow> write_result list \<Rightarrow> world \<Rightarrow> world res option" where
  "process_loop e i [] ws w =
     Some (rbind (get_client w i) (\<lambda>c.
           rbind (rb_writable (input_buffer c)) (\<lambda>(off, writable).
             if writable = 0 then Inr w else rbind (flush ws w i) (\<lambda>(_, w, _). Inr w))))"
| "process_loop e i (r # rs) ws w =
     (case rbind (get_client w i) (\<lambda>c. rbind (rb_writable (input_buffer c)) (\<lambda>(off, writable). Inr (c, off, writable))) of
        Inl err \<Rightarrow> Some (Inl err)
      | Inr (c, off, writable) \<Rightarrow>
          if writable = 0 then Some (Inr w)
          else
            case r of
              Read_Interrupted \<Rightarrow> process_loop e i rs ws w
            | Read_Blocked \<Rightarrow> Some (rbind (flush ws w i) (\<lambda>(_, w, _). Inr w))
            | Read_Failed \<Rightarrow> Some (Inr w)
            | Received bs \<Rightarrow>
                if bs = [] then Some (handle_client_disconnection w i)
                else
                  let got = take (unat writable) bs in
                  case rbind (region_store (input_buffer c) off got) (\<lambda>rb.
                       rbind (rb_write rb (of_nat (length got))) (\<lambda>(rc, rb).
                       rbind (put_client w i (c\<lparr>input_buffer := rb\<rparr>)) (\<lambda>w. Inr (rc, w)))) of
                    Inl err \<Rightarrow> Some (Inl err)
                  | Inr (rc, w) \<Rightarrow>
                      if rc \<noteq> 0 then Some (Inr w)
                      else
                        case consume e i (length got) (unat writable) w of
                          None \<Rightarrow> None
                        | Some (Inl err) \<Rightarrow> Some (Inl err)
                        | Some (Inr (do_flush, go_on, w)) \<Rightarrow>
                            if do_flush then Some (rbind (flush ws w i) (\<lambda>(_, w, _). Inr w))
                            else if go_on then process_loop e i rs ws w
                            else Some (Inr w))"

section \<open>Sending in order\<close>

lemma region_load_inv:
  assumes inv: "rb_inv rb" and n: "n \<le> length (contents rb)"
  shows "region_load rb (unat (read_index rb) mod unat (rb_size rb)) n = Inr (take n (contents rb))"
proof -
  note facts = rb_invD [OF inv]
  have "unat (read_index rb) mod unat (rb_size rb) < unat (rb_size rb)" using facts(2) by (rule mod_less_divisor)
  moreover have "n \<le> unat (rb_size rb)" using n facts(6) by simp
  moreover have "load_bytes (unat (read_index rb) mod unat (rb_size rb)) n (mem rb) = take n (contents rb)"
    using load_bytes_mod [of "unat (read_index rb)" "mem rb" n] load_bytes_take [of n "unat (readable_len rb)"] n
    by (simp add: contents_def facts(4))
  ultimately show ?thesis by (simp add: region_load_def facts(3))
qed

lemma flush_loop_ok:
  "rb_inv rb \<Longrightarrow> \<exists>rc more rb' ws'. flush_loop ws rb sent = Inr (rc, sent @ more, rb', ws') \<and> rb_inv rb' \<and>
     more @ contents rb' = contents rb \<and> capacity rb' = capacity rb \<and> index_budget rb' = index_budget rb \<and>
     (rc = -1 \<or> rc = int (length (sent @ more)))"
proof (induction ws arbitrary: rb sent)
  case Nil
  then show ?case by (simp add: rb_readable_inv)
next
  case (Cons w ws)
  note inv = Cons.prems
  show ?case
  proof (cases "readable_len rb = 0")
    case True
    with inv show ?thesis by (simp add: rb_readable_inv)
  next
    case False
    show ?thesis
    proof (cases w)
      case (Sent k)
      define n where "n = min k (unat (readable_len rb))"
      have n: "n \<le> length (contents rb)" by (simp add: n_def)
      show ?thesis
      proof (cases "n = 0")
        case True
        with Sent False inv show ?thesis by (simp add: rb_readable_inv n_def)
      next
        case False
        note step = rb_read_ok [OF inv n]
        from Cons.IH [OF step(2), of "sent @ take n (contents rb)"] obtain rc more rb' ws' where
          "flush_loop ws (rb\<lparr>read_index := read_index rb + of_nat n\<rparr>) (sent @ take n (contents rb)) =
             Inr (rc, sent @ take n (contents rb) @ more, rb', ws')"
          "rb_inv rb'" "more @ contents rb' = drop n (contents rb)" "capacity rb' = capacity rb"
          "index_budget rb' = index_budget rb" "rc = -1 \<or> rc = int (length (sent @ take n (contents rb) @ more))"
          using step(3-5) by auto
        then show ?thesis
          using Sent \<open>readable_len rb \<noteq> 0\<close> False step(1) region_load_inv [OF inv n] inv
          by (simp add: rb_readable_inv n_def [symmetric])
      qed
    next
      case Write_Interrupted
      with Cons.IH [OF inv, of sent] False inv show ?thesis by (simp add: rb_readable_inv)
    qed (use inv False in \<open>simp_all add: rb_readable_inv\<close>)
  qed
qed

lemma flush_all:
  assumes inv: "rb_inv rb" and k: "length (contents rb) \<le> k"
  shows "\<exists>rc rb' ws'. flush_loop (Sent k # ws) rb sent = Inr (rc, sent @ contents rb, rb', ws') \<and> rb_inv rb' \<and>
    contents rb' = [] \<and> capacity rb' = capacity rb \<and> index_budget rb' = index_budget rb"
proof (cases "readable_len rb = 0")
  case True
  then have "contents rb = []" by (metis length_contents length_0_conv unat_0)
  with True inv show ?thesis by (simp add: rb_readable_inv)
next
  case False
  let ?n = "unat (readable_len rb)"
  have n: "?n \<le> length (contents rb)" by simp
  have pos: "0 < ?n" using False by (simp add: unat_gt_0)
  note step = rb_read_ok [OF inv n]
  obtain rc more rb' ws' where
    "flush_loop ws (rb\<lparr>read_index := read_index rb + of_nat ?n\<rparr>) (sent @ contents rb) =
       Inr (rc, (sent @ contents rb) @ more, rb', ws')"
    "rb_inv rb'" "more @ contents rb' = []" "capacity rb' = capacity rb" "index_budget rb' = index_budget rb"
    using flush_loop_ok [OF step(2), of ws "sent @ contents rb"] step(3-5) by auto
  then show ?thesis
    using False pos k step(1) region_load_inv [OF inv n] inv by (simp add: rb_readable_inv min_def)
qed

section \<open>The replication backlog\<close>

lemma commit_split:
  assumes "rb_commit rb off bs n = Inr rb2" "n \<le> unat (writable_len rb)"
  shows "\<exists>rb1. region_store rb off bs = Inr rb1 \<and> rb_write rb1 (of_nat n) = Inr (0, rb2)"
proof -
  from assms(1) obtain rb1 rc where
    st: "region_store rb off bs = Inr rb1" and wr: "rb_write rb1 (of_nat n) = Inr (rc, rb2)"
    by (auto simp: rb_commit_def rbind_eq_Inr_iff)
  have "writable_len rb1 = writable_len rb"
    using st by (auto simp: region_store_def writable_len_def readable_len_def split: option.splits if_splits)
  moreover have "unat (of_nat n :: u64) = n" using assms(2) by (intro unat_of_nat_64) (metis le_less_trans unat_lt_2p64)
  ultimately have "\<not> writable_len rb1 < of_nat n" using assms(2) by (simp add: word_less_nat_alt)
  with st wr show ?thesis by (auto simp: rb_write_def rbind_eq_Inr_iff Let_def)
qed

lemma append_backlog_ok:
  assumes inv: "rb_inv (repl_backlog s)" and n: "n \<le> capacity (repl_backlog s)" "n \<le> index_budget (repl_backlog s)"
    and struct: "length (struct_bytes e) = sizeof_ring_buffer_struct" "n \<le> sizeof_ring_buffer_struct"
    and base: "0 \<le> repl_backlog_base_offset s" "repl_backlog_base_offset s + int n \<le> LONG_MAX"
  defines "k \<equiv> n - unat (writable_len (repl_backlog s))"
  shows "\<exists>rb. append_backlog e n s =
      Inr (s\<lparr>repl_backlog := rb, repl_backlog_base_offset := repl_backlog_base_offset s + int k\<rparr>) \<and>
    rb_inv rb \<and> contents rb = drop k (contents (repl_backlog s)) @ take n (struct_bytes e)"
proof -
  let ?bs = "take n (struct_bytes e)" and ?rb = "repl_backlog s" and ?off = "unat (write_index (repl_backlog s)) mod unat (rb_size (repl_backlog s))"
  have len: "length ?bs = n" and copy: "copy_struct e n = Inr ?bs" using struct by (simp_all add: copy_struct_def)
  have wl: "unat (writable_len ?rb) = capacity ?rb - length (contents ?rb)" by (rule writable_len_room [OF inv])
  have bound: "length (contents ?rb) \<le> capacity ?rb" by (rule contents_bounded [OF inv])
  have k: "k \<le> length (contents ?rb)" "length (contents ?rb) - k + n \<le> capacity ?rb"
    using n(1) bound unfolding k_def wl by linarith+
  define rb1 where "rb1 = ?rb\<lparr>read_index := read_index ?rb + of_nat k\<rparr>"
  note step = rb_read_ok [OF inv k(1), folded rb1_def]
  have fit: "fits rb1 (length ?bs)" using k(2) n(2) step(3-5) len by (simp add: fits_def)
  have off: "unat (write_index rb1) mod unat (rb_size rb1) = ?off" by (simp add: rb1_def)
  obtain rb2 where rb2: "rb_commit rb1 ?off ?bs n = Inr rb2" "appends rb1 ?bs rb2"
    using rb_commit_at_end [OF step(2) fit, of n] unfolding len off by auto
  have room: "n \<le> unat (writable_len rb1)" using fits_room [OF step(2) fit] len by simp
  from commit_split [OF rb2(1) room] obtain rb3 where
    rb3: "region_store rb1 ?off ?bs = Inr rb3" "rb_write rb3 (of_nat n) = Inr (0, rb2)" by blast
  have rd: "rb_read ?rb (of_nat k) = Inr (0, rb1)" by (rule step(1))
  have base': "long_arith (repl_backlog_base_offset s + int k) = Inr (repl_backlog_base_offset s + int k)"
    using base k_def by (simp add: long_arith_def c_limits)
  have "append_backlog e n s = Inr (s\<lparr>repl_backlog := rb2, repl_backlog_base_offset := repl_backlog_base_offset s + int k\<rparr>)"
  proof (cases "n \<le> unat (writable_len ?rb)")
    case True
    then have "k = 0" "rb1 = ?rb" by (simp_all add: k_def rb1_def)
    with True rb3 copy show ?thesis by (simp add: append_backlog_def rb_writable_inv [OF inv])
  next
    case False
    with rb3 rd base' copy show ?thesis by (simp add: append_backlog_def rb_writable_inv [OF inv] k_def)
  qed
  with rb2(2) step(3) show ?thesis by (auto simp: appends_def)
qed

lemma append_backlog_overread:
  assumes inv: "rb_inv (repl_backlog s)" and n: "n \<le> capacity (repl_backlog s)" "sizeof_ring_buffer_struct < n"
    and base: "0 \<le> repl_backlog_base_offset s" "repl_backlog_base_offset s + int n \<le> LONG_MAX"
  shows "append_backlog e n s = Inl Out_Of_Bounds"
proof -
  define k where "k = n - unat (writable_len (repl_backlog s))"
  have "k \<le> length (contents (repl_backlog s))"
    using n(1) contents_bounded [OF inv] writable_len_room [OF inv] unfolding k_def by linarith
  note rd = rb_read_ok(1) [OF inv this]
  have "long_arith (repl_backlog_base_offset s + int k) = Inr (repl_backlog_base_offset s + int k)"
    using base by (simp add: long_arith_def c_limits k_def)
  moreover have "copy_struct e n = Inl Out_Of_Bounds" using n(2) by (simp add: copy_struct_def)
  ultimately show ?thesis
    using rd by (simp add: append_backlog_def rb_writable_inv [OF inv] flip: k_def)
qed

section \<open>Propagation to the replicas\<close>

abbreviation out_of :: "CommandHandler Parser \<Rightarrow> ring_buffer" where
  "out_of p \<equiv> output_buffer (client (command_handler p))"

definition has_room :: "world \<Rightarrow> bytes \<Rightarrow> int \<Rightarrow> bool" where
  "has_room w bs r \<longleftrightarrow> (\<exists>p. conns w r = Some p \<and> sink_ready (out_of p) (length bs))"

text \<open>\<open>fed w bs w' r\<close>: connection \<open>r\<close> has \<open>bs\<close> appended to its output and waits for write events.\<close>

definition fed :: "world \<Rightarrow> bytes \<Rightarrow> world \<Rightarrow> int \<Rightarrow> bool" where
  "fed w bs w' r \<longleftrightarrow>
     (\<exists>p p'. conns w r = Some p \<and> conns w' r = Some p' \<and> appends (out_of p) bs (out_of p') \<and>
        epoll_events (client (command_handler p')) AND EPOLLOUT = EPOLLOUT)"

lemma propagate_to_ok:
  assumes p: "conns w r = Some p" and room: "sink_ready (out_of p) (length bs)" and ep: "epoll_ok e"
  shows "\<exists>p'. propagate_to e i bs r w = Inr (w\<lparr>conns := (conns w)(r \<mapsto> p')\<rparr>) \<and>
    appends (out_of p) bs (out_of p') \<and> epoll_events (client (command_handler p')) AND EPOLLOUT = EPOLLOUT"
proof -
  have inv: "rb_inv (out_of p)" and fit: "fits (out_of p) (length bs)" using room by (auto simp: sink_ready_def)
  let ?off = "unat (write_index (out_of p)) mod unat (rb_size (out_of p))"
  have wl: "length bs \<le> unat (writable_len (out_of p))" by (rule fits_room [OF inv fit])
  obtain rb2 where rb2: "rb_commit (out_of p) ?off bs (length bs) = Inr rb2" "appends (out_of p) bs rb2"
    using rb_commit_at_end [OF inv fit, of "length bs"] by auto
  from commit_split [OF rb2(1) wl] obtain rb1 where
    rb1: "region_store (out_of p) ?off bs = Inr rb1" "rb_write rb1 (of_nat (length bs)) = Inr (0, rb2)" by blast
  have bits: "(v OR EPOLLOUT) AND EPOLLOUT = EPOLLOUT" for v
    by (simp add: bit_eq_iff bit_simps)
  show ?thesis
    using p wl rb1 rb2(2) ep
    by (auto simp: propagate_to_def get_client_def get_conn_def rb_writable_inv [OF inv] put_client_def put_conn_def
        client_enable_write_events_def bits)
qed

lemma propagate_from_ok:
  assumes "distinct (replicas (globals w))" "\<forall>r \<in> set (drop k (replicas (globals w))). has_room w bs r"
    and "length (replicas (globals w)) \<le> k + n" "epoll_ok e"
  shows "\<exists>w'. propagate_from n e i bs k w = Inr w' \<and> globals w' = globals w \<and> wire w' = wire w \<and>
    (\<forall>r \<in> set (drop k (replicas (globals w))). fed w bs w' r) \<and>
    (\<forall>r. r \<notin> set (drop k (replicas (globals w))) \<longrightarrow> conns w' r = conns w r)"
  using assms
proof (induction n arbitrary: k w)
  case (Suc n)
  let ?rs = "replicas (globals w)"
  show ?case
  proof (cases "k < length ?rs")
    case True
    define r where "r = ?rs ! k"
    have dr: "drop k ?rs = r # drop (Suc k) ?rs" using True by (simp add: r_def Cons_nth_drop_Suc)
    have fresh: "r \<notin> set (drop (Suc k) ?rs)" using Suc.prems(1) dr by (metis distinct.simps(2) distinct_drop)
    from Suc.prems(2) dr obtain p where p: "conns w r = Some p" "sink_ready (out_of p) (length bs)"
      by (auto simp: has_room_def)
    from propagate_to_ok [OF p Suc.prems(4)] obtain p' where
      p': "propagate_to e i bs r w = Inr (w\<lparr>conns := (conns w)(r \<mapsto> p')\<rparr>)" "appends (out_of p) bs (out_of p')"
      "epoll_events (client (command_handler p')) AND EPOLLOUT = EPOLLOUT" by blast
    let ?w1 = "w\<lparr>conns := (conns w)(r \<mapsto> p')\<rparr>"
    have room1: "\<forall>q \<in> set (drop (Suc k) ?rs). has_room ?w1 bs q"
      using Suc.prems(2) dr fresh by (auto simp: has_room_def)
    from Suc.IH [of ?w1 "Suc k"] room1 Suc.prems obtain w' where
      w': "propagate_from n e i bs (Suc k) ?w1 = Inr w'" "globals w' = globals w" "wire w' = wire w"
      "\<forall>q \<in> set (drop (Suc k) ?rs). fed ?w1 bs w' q"
      "\<forall>q. q \<notin> set (drop (Suc k) ?rs) \<longrightarrow> conns w' q = conns ?w1 q" by auto
    have "fed w bs w' q" if q: "q \<in> set (drop k ?rs)" for q
    proof (cases "q = r")
      case True
      with w'(5) fresh p(1) p'(2,3) show ?thesis by (simp add: fed_def)
    next
      case False
      then have "fed ?w1 bs w' q = fed w bs w' q" by (simp add: fed_def)
      with False q dr w'(4) show ?thesis by auto
    qed
    moreover have "conns w' q = conns w q" if "q \<notin> set (drop k ?rs)" for q
      using that dr w'(5) by auto
    ultimately show ?thesis using True w' p'(1) by (auto simp: r_def)
  qed (use Suc.prems in simp)
qed simp

lemma propagate_ok:
  assumes reps: "distinct (replicas (globals w))" "\<forall>r \<in> set (replicas (globals w)). has_room w bs r"
      "length (replicas (globals w)) \<le> MAX_REPLICAS"
    and ep: "epoll_ok e" and backlog: "rb_inv (repl_backlog (globals w))" "length bs \<le> capacity (repl_backlog (globals w))"
      "length bs \<le> index_budget (repl_backlog (globals w))" "length (struct_bytes e) = sizeof_ring_buffer_struct" "length bs \<le> sizeof_ring_buffer_struct"
    and offs: "0 \<le> repl_backlog_base_offset (globals w)" "repl_backlog_base_offset (globals w) + int (length bs) \<le> LONG_MAX"
      "0 \<le> master_repl_offset (globals w)" "master_repl_offset (globals w) + int (length bs) \<le> LONG_MAX"
  defines "k \<equiv> length bs - unat (writable_len (repl_backlog (globals w)))"
  shows "\<exists>w' rb. propagate e i bs w = Inr w' \<and>
    globals w' = (globals w)\<lparr>master_repl_offset := master_repl_offset (globals w) + int (length bs), repl_backlog := rb,
       repl_backlog_base_offset := repl_backlog_base_offset (globals w) + int k\<rparr> \<and>
    rb_inv rb \<and> contents rb = drop k (contents (repl_backlog (globals w))) @ take (length bs) (struct_bytes e) \<and>
    wire w' = wire w \<and> (\<forall>r \<in> set (replicas (globals w)). fed w bs w' r) \<and>
    (\<forall>r. r \<notin> set (replicas (globals w)) \<longrightarrow> conns w' r = conns w r)"
proof -
  let ?s = "(globals w)\<lparr>master_repl_offset := master_repl_offset (globals w) + int (length bs)\<rparr>"
  from append_backlog_ok [of ?s "length bs" e] backlog offs obtain rb where
    bl: "append_backlog e (length bs) ?s = Inr (?s\<lparr>repl_backlog := rb, repl_backlog_base_offset := repl_backlog_base_offset (globals w) + int k\<rparr>)"
      "rb_inv rb" "contents rb = drop k (contents (repl_backlog (globals w))) @ take (length bs) (struct_bytes e)"
    by (auto simp: k_def)
  let ?w1 = "w\<lparr>globals := ?s\<lparr>repl_backlog := rb, repl_backlog_base_offset := repl_backlog_base_offset (globals w) + int k\<rparr>\<rparr>"
  have "\<forall>r \<in> set (drop 0 (replicas (globals ?w1))). has_room ?w1 bs r" using reps(2) by (simp add: has_room_def)
  from propagate_from_ok [OF _ this, of MAX_REPLICAS e i] reps ep obtain w' where
    "propagate_from MAX_REPLICAS e i bs 0 ?w1 = Inr w'" "globals w' = globals ?w1" "wire w' = wire w"
    "\<forall>r \<in> set (replicas (globals w)). fed ?w1 bs w' r" "\<forall>r. r \<notin> set (replicas (globals w)) \<longrightarrow> conns w' r = conns w r"
    by auto
  moreover have "long_arith (master_repl_offset (globals w) + int (length bs)) = Inr (master_repl_offset (globals w) + int (length bs))"
    using offs by (simp add: long_arith_def c_limits)
  ultimately show ?thesis using bl by (auto simp: propagate_def fed_def)
qed

end
