(* ===== verification/Replication.thy ===== *)
theory Replication
  imports Connections
begin

text \<open>
  Replication (\<^verbatim>\<open>replication.c\<close>, and the commands a replica sends, from \<^verbatim>\<open>commands.c\<close>): the handshake of
  a replica with its master, the transfer of the snapshot on both sides, and the partial resynchronisation.
  Operations work on the world of \<^verbatim>\<open>client.c\<close>, with the results of the socket calls as lists.
\<close>

section \<open>Commands to the master\<close>

definition send_command ::
  "write_result list \<Rightarrow> string list \<Rightarrow> ReplicaClientState \<Rightarrow> Client \<Rightarrow> (bytes \<times> Client \<times> write_result list) res" where
  \<comment> \<open>An array of bulk strings, flushed, and the new state.\<close>
  "send_command ws as st c =
     rbind (add_array_reply (output_buffer c) (Some as) (int (length as))) (\<lambda>rb.
     rbind (flush_client_output ws (c\<lparr>output_buffer := rb\<rparr>)) (\<lambda>(_, sent, c, ws).
       Inr (sent, c\<lparr>repl_client_state := st\<rparr>, ws)))"

definition send_ping_command :: "write_result list \<Rightarrow> Client \<Rightarrow> (bytes \<times> Client \<times> write_result list) res" where
  "send_ping_command ws c = send_command ws [''PING''] REPL_STATE_SENT_PING c"

definition send_replconf_listening_port_command ::
  "write_result list \<Rightarrow> Client \<Rightarrow> string \<Rightarrow> (bytes \<times> Client \<times> write_result list) res" where
  "send_replconf_listening_port_command ws c replica_port =
     send_command ws [''REPLCONF'', ''listening-port'', replica_port] REPL_STATE_SENT_REPLCONF_PORT c"

definition send_replconf_capa_command :: "write_result list \<Rightarrow> Client \<Rightarrow> (bytes \<times> Client \<times> write_result list) res" where
  "send_replconf_capa_command ws c =
     send_command ws [''REPLCONF'', ''capa'', ''psync2''] REPL_STATE_SENT_REPLCONF_CAPA c"

definition send_psync_command :: "write_result list \<Rightarrow> Client \<Rightarrow> (bytes \<times> Client \<times> write_result list) res" where
  "send_psync_command ws c = send_command ws [''PSYNC'', ''?'', ''-1''] REPL_STATE_SENT_PSYNC c"

section \<open>The snapshot on the side of the master\<close>

text \<open>
  The loop of \<^verbatim>\<open>sendfile\<close> calls: each sends at most \<open>remaining\<close> bytes from the offset and advances it;
  \<open>remaining\<close> is computed once.  The flag says whether the function goes on after the loop.
\<close>

fun sendfile_loop ::
  "write_result list \<Rightarrow> bytes \<Rightarrow> nat \<Rightarrow> nat \<Rightarrow> bytes \<Rightarrow> bool \<times> nat \<times> bytes" where
  "sendfile_loop [] file remaining off sent = (True, off, sent)"
| "sendfile_loop (r # rs) file remaining off sent =
     (case r of
        Write_Blocked \<Rightarrow> (True, off, sent)
      | Write_Interrupted \<Rightarrow> sendfile_loop rs file remaining off sent
      | Write_Failed \<Rightarrow> (False, off, sent)
      | Sent k \<Rightarrow>
          let bs = take (min k remaining) (drop off file) in
          if bs = [] then (True, off, sent)
          else sendfile_loop rs file remaining (off + length bs) (sent @ bs))"

definition master_send_rdb_snapshot ::
  "env \<Rightarrow> write_result list \<Rightarrow> server \<Rightarrow> Client \<Rightarrow> (bytes \<times> Client) res" where
  \<comment> \<open>The test \<^verbatim>\<open>!client->type == CLIENT_TYPE_REPLICA\<close> holds for a type whose code is 0.\<close>
  "master_send_rdb_snapshot e rs s c =
     (if client_type_code (client_type c) = 0 then Inr ([], c)
      else
        let remaining_bytes = size_t_of (rdb_file_size c - rdb_file_offset c);
            file = (case open_files s (rdb_fd c) of None \<Rightarrow> None | Some path \<Rightarrow> files s path)
        in
        case file of
          None \<Rightarrow> Inr ([], c)
        | Some bs \<Rightarrow>
            case sendfile_loop rs bs remaining_bytes (nat (rdb_file_offset c)) [] of (go_on, off, sent) \<Rightarrow>
              let c = c\<lparr>rdb_file_offset := int off\<rparr> in
              if go_on \<and> rdb_file_offset c = rdb_file_size c then
                rbind (client_disable_write_events e c) (\<lambda>c.
                  Inr (sent, c\<lparr>master_repl_state := MASTER_REPL_STATE_PROPAGATE\<rparr>))
              else Inr (sent, c))"

section \<open>The snapshot on the side of the replica\<close>

definition temp_snapshot :: string where "temp_snapshot = ''temp_snapshot.rdb''"

text \<open>
  Writing the received bytes to the temporary file.  The number of bytes to write is the local variable
  \<^verbatim>\<open>bytes_read\<close> of the last \<^verbatim>\<open>read\<close>, \<open>None\<close> while it is unset; the flag says that the snapshot is complete.
  The file is closed then, but the pointer to it stays in the client: writing to it again is a fault.
\<close>

definition write_snapshot ::
  "env \<Rightarrow> nat option \<Rightarrow> Client \<Rightarrow> server \<Rightarrow> (bool \<times> Client \<times> server) res" where
  "write_snapshot e bytes_read c s =
     rbind (rb_readable (input_buffer c)) (\<lambda>(off, readable).
     case (bytes_read, tmp_rdb_fp c) of
       (None, _) \<Rightarrow> Inl Uninitialised
     | (_, None) \<Rightarrow> Inl Null_Pointer
     | (_, Some Closed_File) \<Rightarrow> Inl Use_After_Free
     | (Some n, Some (Open_File path)) \<Rightarrow>
         rbind (region_load (input_buffer c) off n) (\<lambda>bs.
         let s = s\<lparr>files := (files s)(path \<mapsto> (case files s path of None \<Rightarrow> [] | Some old \<Rightarrow> old) @ bs)\<rparr> in
         rbind (rb_read (input_buffer c) (of_nat n)) (\<lambda>(_, rb).
         let c = c\<lparr>input_buffer := rb, rdb_written_bytes := rdb_written_bytes c + int n\<rparr> in
         if rdb_written_bytes c = rdb_expected_bytes c then
           rbind (rdb_load_data_from_file (files s) (db s) (cfg_dir s) temp_snapshot) (\<lambda>(_, d).
           rbind (client_enable_read_events e (c\<lparr>tmp_rdb_fp := Some Closed_File, repl_client_state := REPL_STATE_READY\<rparr>)) (\<lambda>c.
             Inr (True, c, s\<lparr>db := d\<rparr>)))
         else Inr (False, c, s))))"

definition store_received :: "bytes \<Rightarrow> Client \<Rightarrow> Client res" where
  "store_received bs c =
     rbind (rb_writable (input_buffer c)) (\<lambda>(off, _).
     rbind (region_store (input_buffer c) off bs) (\<lambda>rb.
     rbind (rb_write rb (of_nat (length bs))) (\<lambda>(_, rb).
       Inr (c\<lparr>input_buffer := rb, rdb_received_bytes := rdb_received_bytes c + int (length bs)\<rparr>))))"

partial_function (option) receive_loop ::
  "env \<Rightarrow> read_result list \<Rightarrow> nat option \<Rightarrow> Client \<Rightarrow> server \<Rightarrow> (Client \<times> server) res option" where
  "receive_loop e rs bytes_read c s =
     (if rdb_received_bytes c < rdb_expected_bytes c then
        case rb_writable (input_buffer c) of
          Inl err \<Rightarrow> Some (Inl err)
        | Inr (_, writable) \<Rightarrow>
            if writable = 0 then Some (Inr (c, s))
            else
              case rs of
                [] \<Rightarrow> Some (Inr (c, s))
              | Read_Blocked # rs \<Rightarrow> Some (Inr (c, s))
              | Read_Interrupted # rs \<Rightarrow> receive_loop e rs bytes_read c s
              | Read_Failed # rs \<Rightarrow> Some (Inr (c, s))
              | Received bs # rs \<Rightarrow>
                  let got = take (nat (rdb_expected_bytes c - rdb_received_bytes c)) bs in
                  if got = [] then Some (Inr (c, s))
                  else
                    case rbind (store_received got c) (\<lambda>c. write_snapshot e (Some (length got)) c s) of
                      Inl err \<Rightarrow> Some (Inl err)
                    | Inr (complete, c, s) \<Rightarrow>
                        if complete then Some (Inr (c, s)) else receive_loop e rs (Some (length got)) c s
      else
        case write_snapshot e bytes_read c s of
          Inl err \<Rightarrow> Some (Inl err)
        | Inr (complete, c, s) \<Rightarrow> if complete then Some (Inr (c, s)) else receive_loop e rs bytes_read c s)"

definition replica_receive_rdb_snapshot ::
  "env \<Rightarrow> read_result list \<Rightarrow> Client \<Rightarrow> server \<Rightarrow> (Client \<times> server) res option" where
  "replica_receive_rdb_snapshot e rs c s =
     (case tmp_rdb_fp c of
        Some _ \<Rightarrow> receive_loop e rs None c s
      | None \<Rightarrow>
          if fopen_write_ok (file_os e) then
            let path = rdb_path (cfg_dir s) temp_snapshot in
            receive_loop e rs None (c\<lparr>tmp_rdb_fp := Some (Open_File path)\<rparr>) (s\<lparr>files := (files s)(path \<mapsto> [])\<rparr>)
          else Some (Inr (c, s)))"

section \<open>The handshake\<close>

text \<open>The header of the snapshot: position of the first line end, and the number after the first byte.\<close>

definition find_crlf :: "bytes \<Rightarrow> nat option" where
  "find_crlf bs =
     (let hits = filter (\<lambda>i. bs ! i = CR \<and> bs ! (i + 1) = LF) [0..<length bs - 1] in
      case hits of [] \<Rightarrow> None | i # _ \<Rightarrow> Some i)"

definition parse_snapshot_header :: "Client \<Rightarrow> (bool \<times> Client) res" where
  \<comment> \<open>Whether the header was there; a first byte other than a dollar is only reported.\<close>
  "parse_snapshot_header c =
     rbind (rb_readable (input_buffer c)) (\<lambda>(off, readable).
       if unat readable < 4 then Inr (False, c)
       else
         let m = mapped (input_buffer c) in
         case find_crlf (slice m off (off + unat readable)) of
           None \<Rightarrow> Inr (False, c)
         | Some crlf_pos \<Rightarrow>
             rbind (rb_read (input_buffer c) (of_nat (crlf_pos + 2))) (\<lambda>(rc, rb).
               if rc \<noteq> 0 then Inr (False, c)
               else
                 Inr (True, c\<lparr>input_buffer := rb, rdb_expected_bytes := fst (strtol (drop (off + 1) m)),
                   rdb_received_bytes := 0, repl_client_state := REPL_STATE_RECEIVING_RDB_DATA\<rparr>)))"

text \<open>Operations on a single client, lifted to a connection of the world.\<close>

definition on_client :: "world \<Rightarrow> int \<Rightarrow> (Client \<Rightarrow> (bytes \<times> Client \<times> 'a) res) \<Rightarrow> world res" where
  "on_client w i f =
     rbind (get_client w i) (\<lambda>c.
     rbind (f c) (\<lambda>(sent, c, _).
     rbind (put_client w i c) (\<lambda>w. Inr (w\<lparr>wire := (wire w)(i := wire w i @ sent)\<rparr>))))"

definition receive_snapshot :: "env \<Rightarrow> read_result list \<Rightarrow> world \<Rightarrow> int \<Rightarrow> world res option" where
  "receive_snapshot e rs w i =
     (case get_client w i of
        Inl err \<Rightarrow> Some (Inl err)
      | Inr c \<Rightarrow>
          case replica_receive_rdb_snapshot e rs c (globals w) of
            None \<Rightarrow> None
          | Some r \<Rightarrow> Some (rbind r (\<lambda>(c, s). put_client (w\<lparr>globals := s\<rparr>) i c)))"

definition replica_handle_master_data ::
  "env \<Rightarrow> read_result list \<Rightarrow> write_result list \<Rightarrow> world \<Rightarrow> int \<Rightarrow> world res option" where
  "replica_handle_master_data e rs ws w i =
     (case get_client w i of
        Inl err \<Rightarrow> Some (Inl err)
      | Inr c \<Rightarrow>
          (case repl_client_state c of
             REPL_STATE_CONNECTING \<Rightarrow> Some (on_client w i (send_ping_command ws))
           | REPL_STATE_RECEIVED_PONG \<Rightarrow>
               Some (on_client w i (\<lambda>c. send_replconf_listening_port_command ws c (cfg_port (globals w))))
           | REPL_STATE_RECEIVED_REPLCONF_PORT_OK \<Rightarrow> Some (on_client w i (send_replconf_capa_command ws))
           | REPL_STATE_RECEIVED_REPLCONF_CAPA_OK \<Rightarrow> Some (on_client w i (send_psync_command ws))
           | REPL_STATE_RECEIVED_FULLRESYNC_RESPONSE \<Rightarrow>
               (case rbind (parse_snapshot_header c) (\<lambda>(found, c).
                       if found then rbind (put_client w i c) (\<lambda>w. Inr (found, w)) else Inr (found, w)) of
                  Inl err \<Rightarrow> Some (Inl err)
                | Inr (found, w) \<Rightarrow> if found then receive_snapshot e rs w i else Some (Inr w))
           | REPL_STATE_RECEIVING_RDB_DATA \<Rightarrow> receive_snapshot e rs w i
           | REPL_STATE_NONE \<Rightarrow> Some (Inr w)
           | REPL_STATE_ERROR \<Rightarrow> Some (Inr w)
           | _ \<Rightarrow> process_loop e i rs ws w))"

section \<open>Partial resynchronisation and the output of a replica\<close>

text \<open>
  The partial resynchronisation copies the backlog onto the \<^verbatim>\<open>ring_buffer_struct\<close> of the output buffer
  instead of into its bytes.
\<close>

definition continue_psync :: "env \<Rightarrow> world \<Rightarrow> int \<Rightarrow> world res" where
  "continue_psync e w i =
     rbind (get_client w i) (\<lambda>c.
     let master_offset = master_repl_offset (globals w); replica_offset = repl_offset c in
     if replica_offset = master_offset then
       rbind (client_disable_write_events e (c\<lparr>master_repl_state := MASTER_REPL_STATE_PROPAGATE\<rparr>)) (put_client w i)
     else if replica_offset \<ge> master_offset then handle_client_disconnection w i
     else
       let bytes_to_send = master_offset - replica_offset in
       rbind (rb_readable (repl_backlog (globals w))) (\<lambda>(_, readable).
         if bytes_to_send > int (unat readable) then handle_client_disconnection w i
         else Inl Object_Overwritten))"

definition master_handle_replica_out :: "env \<Rightarrow> write_result list \<Rightarrow> world \<Rightarrow> int \<Rightarrow> world res" where
  "master_handle_replica_out e ws w i =
     rbind (get_client w i) (\<lambda>c.
       case master_repl_state c of
         MASTER_REPL_STATE_PROPAGATE \<Rightarrow> rbind (flush ws w i) (\<lambda>(_, w, _). Inr w)
       | MASTER_REPL_STATE_SENDING_RDB_DATA \<Rightarrow>
           on_client w i (\<lambda>c. rbind (master_send_rdb_snapshot e ws (globals w) c) (\<lambda>(sent, c). Inr (sent, c, ())))
       | MASTER_REPL_STATE_PSYNC \<Rightarrow> continue_psync e w i)"

section \<open>An announced snapshot\<close>

text \<open>
  \<open>announced cap early n w i\<close>: the master has answered \<open>PSYNC\<close> on connection \<open>i\<close>, the header of a snapshot
  of \<open>n\<close> bytes waits in the input buffer, which holds \<open>cap\<close> bytes, and \<open>early\<close> is what has arrived with it.
\<close>

definition announced :: "nat \<Rightarrow> bytes \<Rightarrow> nat \<Rightarrow> world \<Rightarrow> int \<Rightarrow> bool" where
  "announced cap early n w i \<longleftrightarrow>
     (\<exists>p. conns w i = Some p \<and> (let c = client (command_handler p); rb = input_buffer c in
        client_type c = CLIENT_TYPE_MASTER \<and> repl_client_state c = REPL_STATE_RECEIVED_FULLRESYNC_RESPONSE \<and>
        epoll_events c = EPOLLOUT \<and> tmp_rdb_fp c = None \<and> rdb_written_bytes c = 0 \<and>
        rb_inv rb \<and> capacity rb = cap \<and> n \<le> index_budget rb \<and> contents rb = ''$'' @ show_int (int n) @ crlf @ early))"

section \<open>Sending the snapshot\<close>

lemma sendfile_loop_ok:
  "sendfile_loop rs snap remaining off sent = (go_on, off', sent') \<Longrightarrow> off \<le> length snap \<Longrightarrow>
   off \<le> off' \<and> off' \<le> length snap \<and> sent' = sent @ take (off' - off) (drop off snap)"
proof (induction rs snap remaining off sent rule: sendfile_loop.induct)
  case (2 r rs snap remaining off sent)
  show ?case
  proof (cases r)
    case (Sent k)
    define bs where "bs = take (min k remaining) (drop off snap)"
    show ?thesis
    proof (cases "bs = []")
      case True
      with Sent 2 show ?thesis by (auto simp: Let_def bs_def)
    next
      case False
      have len: "off + length bs \<le> length snap" using 2(4) by (simp add: bs_def)
      have "(if bs = [] then (True, off, sent) else sendfile_loop rs snap remaining (off + length bs) (sent @ bs)) = (go_on, off', sent')"
        using 2(3) by (simp only: Sent sendfile_loop.simps write_result.case Let_def bs_def)
      then have run: "sendfile_loop rs snap remaining (off + length bs) (sent @ bs) = (go_on, off', sent')" using False by simp
      have ih: "off + length bs \<le> off'" "off' \<le> length snap"
        "sent' = (sent @ bs) @ take (off' - (off + length bs)) (drop (off + length bs) snap)"
        using 2(1) [OF Sent bs_def False run len] by auto
      have "bs = take (length bs) (drop off snap)" by (simp add: bs_def min_def)
      moreover have "take (off' - off) (drop off snap) =
          take (length bs) (drop off snap) @ take (off' - (off + length bs)) (drop (off + length bs) snap)"
        using ih(1) take_add [of "length bs" "off' - (off + length bs)" "drop off snap"]
        by (simp add: add.commute)
      ultimately show ?thesis using ih by simp
    qed
  qed (use 2 in auto)
qed simp

section \<open>Receiving the snapshot\<close>

text \<open>One chunk through the input buffer into the file: the file gets the oldest bytes of the buffer.\<close>

lemma store_received_ok:
  assumes inv: "rb_inv (input_buffer c)" and fit: "fits (input_buffer c) (length bs)"
  shows "\<exists>rb. store_received bs c =
      Inr (c\<lparr>input_buffer := rb, rdb_received_bytes := rdb_received_bytes c + int (length bs)\<rparr>) \<and>
    appends (input_buffer c) bs rb"
  using rb_commit_at_end [OF inv fit, of "length bs"]
  by (auto simp: store_received_def rb_writable_inv [OF inv] rb_commit_def rbind_eq_Inr_iff)

definition drained :: "ring_buffer \<Rightarrow> nat \<Rightarrow> ring_buffer \<Rightarrow> bool" where
  "drained rb n rb' \<longleftrightarrow> rb_inv rb' \<and> contents rb' = drop n (contents rb) \<and> capacity rb' = capacity rb \<and>
     index_budget rb' = index_budget rb"

definition file_plus :: "server \<Rightarrow> string \<Rightarrow> bytes \<Rightarrow> server" where
  "file_plus s path bs = s\<lparr>files := (files s)(path \<mapsto> (case files s path of None \<Rightarrow> [] | Some old \<Rightarrow> old) @ bs)\<rparr>"

lemma file_plus_simps [simp]:
  "file_plus (file_plus s path xs) path ys = file_plus s path (xs @ ys)"
  "files (file_plus s path xs) path = Some ((case files s path of None \<Rightarrow> [] | Some old \<Rightarrow> old) @ xs)"
  "db (file_plus s path xs) = db s" "cfg_dir (file_plus s path xs) = cfg_dir s"
  by (simp_all add: file_plus_def)

lemma write_snapshot_steps:
  assumes inv: "rb_inv (input_buffer c)" and n: "n \<le> length (contents (input_buffer c))"
    and tmp: "tmp_rdb_fp c = Some (Open_File path)"
  obtains rb where "drained (input_buffer c) n rb"
    "rdb_written_bytes c + int n \<noteq> rdb_expected_bytes c \<Longrightarrow>
      write_snapshot e (Some n) c s = Inr (False, c\<lparr>input_buffer := rb, rdb_written_bytes := rdb_written_bytes c + int n\<rparr>,
        file_plus s path (take n (contents (input_buffer c))))"
    "rdb_written_bytes c + int n = rdb_expected_bytes c \<Longrightarrow> epoll_ok e \<Longrightarrow>
      rdb_load_data_from_file (files (file_plus s path (take n (contents (input_buffer c))))) (db s) (cfg_dir s)
        temp_snapshot = Inr (rc, d) \<Longrightarrow>
      write_snapshot e (Some n) c s = Inr (True, c\<lparr>input_buffer := rb, rdb_written_bytes := rdb_written_bytes c + int n,
          tmp_rdb_fp := Some Closed_File, repl_client_state := REPL_STATE_READY, epoll_events := epoll_events c OR EPOLLIN\<rparr>,
        (file_plus s path (take n (contents (input_buffer c))))\<lparr>db := d\<rparr>)"
proof
  let ?rb = "(input_buffer c)\<lparr>read_index := read_index (input_buffer c) + of_nat n\<rparr>"
  note facts = rb_read_ok [OF inv n] region_load_inv [OF inv n]
  show "drained (input_buffer c) n ?rb" using facts by (simp add: drained_def)
qed (use rb_read_ok(1) [OF inv n] region_load_inv [OF inv n] tmp in
    \<open>auto simp: write_snapshot_def rb_readable_inv [OF inv] Let_def file_plus_def client_enable_read_events_def\<close>)

lemma file_plus_nil: "files s path = Some old \<Longrightarrow> file_plus s path [] = s"
  by (simp add: file_plus_def fun_upd_idem)

text \<open>One chunk: it is appended to the buffer, and as many of the oldest bytes go to the file.\<close>

definition chunk_stored :: "bytes \<Rightarrow> ring_buffer \<Rightarrow> Client \<Rightarrow> Client" where
  "chunk_stored bs rb c = c\<lparr>rdb_received_bytes := rdb_received_bytes c + int (length bs), input_buffer := rb,
     rdb_written_bytes := rdb_written_bytes c + int (length bs)\<rparr>"

lemma receive_chunk:
  assumes inv: "rb_inv (input_buffer c)" and fit: "fits (input_buffer c) (length bs)" and tmp: "tmp_rdb_fp c = Some (Open_File path)"
    and bs: "bs \<noteq> []" "rdb_received_bytes c + int (length bs) \<le> rdb_expected_bytes c"
  obtains rb where "rb_inv rb" "contents rb = drop (length bs) (contents (input_buffer c) @ bs)"
    "capacity rb = capacity (input_buffer c)" "index_budget rb + length bs = index_budget (input_buffer c)"
    "rdb_written_bytes c + int (length bs) \<noteq> rdb_expected_bytes c \<longrightarrow>
      receive_loop e (Received bs # rs) br c s =
        receive_loop e rs (Some (length bs)) (chunk_stored bs rb c) (file_plus s path (take (length bs) (contents (input_buffer c) @ bs)))"
    "rdb_written_bytes c + int (length bs) = rdb_expected_bytes c \<longrightarrow> epoll_ok e \<longrightarrow>
      rdb_load_data_from_file (files (file_plus s path (take (length bs) (contents (input_buffer c) @ bs)))) (db s) (cfg_dir s)
        temp_snapshot = Inr (rc, d) \<longrightarrow>
      receive_loop e (Received bs # rs) br c s = Some (Inr ((chunk_stored bs rb c)
          \<lparr>tmp_rdb_fp := Some Closed_File, repl_client_state := REPL_STATE_READY, epoll_events := epoll_events c OR EPOLLIN\<rparr>,
        (file_plus s path (take (length bs) (contents (input_buffer c) @ bs)))\<lparr>db := d\<rparr>))"
proof -
  let ?all = "contents (input_buffer c) @ bs"
  from store_received_ok [OF inv fit] obtain rb1 where
    st: "store_received bs c = Inr (c\<lparr>input_buffer := rb1, rdb_received_bytes := rdb_received_bytes c + int (length bs)\<rparr>)"
    and rb1: "rb_inv rb1" "contents rb1 = ?all" "capacity rb1 = capacity (input_buffer c)"
      "index_budget rb1 + length bs = index_budget (input_buffer c)"
    using fit unfolding appends_def fits_def by auto
  let ?c1 = "c\<lparr>input_buffer := rb1, rdb_received_bytes := rdb_received_bytes c + int (length bs)\<rparr>"
  obtain rb where drained: "drained rb1 (length bs) rb" and
    go_on: "rdb_written_bytes c + int (length bs) \<noteq> rdb_expected_bytes c \<Longrightarrow>
      write_snapshot e (Some (length bs)) ?c1 s =
        Inr (False, ?c1\<lparr>input_buffer := rb, rdb_written_bytes := rdb_written_bytes c + int (length bs)\<rparr>,
          file_plus s path (take (length bs) ?all))" and
    complete: "rdb_written_bytes c + int (length bs) = rdb_expected_bytes c \<Longrightarrow> epoll_ok e \<Longrightarrow>
      rdb_load_data_from_file (files (file_plus s path (take (length bs) ?all))) (db s) (cfg_dir s) temp_snapshot = Inr (rc, d) \<Longrightarrow>
      write_snapshot e (Some (length bs)) ?c1 s =
        Inr (True, ?c1\<lparr>input_buffer := rb, rdb_written_bytes := rdb_written_bytes c + int (length bs),
          tmp_rdb_fp := Some Closed_File, repl_client_state := REPL_STATE_READY, epoll_events := epoll_events c OR EPOLLIN\<rparr>,
          (file_plus s path (take (length bs) ?all))\<lparr>db := d\<rparr>)"
    using write_snapshot_steps [of ?c1 "length bs" path e s rc d] rb1 tmp by (auto simp del: length_contents)
  have "0 < length bs" using bs by simp
  then have less: "rdb_received_bytes c < rdb_expected_bytes c" using bs(2) by linarith
  have got: "take (nat (rdb_expected_bytes c - rdb_received_bytes c)) bs = bs" using bs(2) by simp
  have "0 < unat (writable_len (input_buffer c))"
    using writable_len_room [OF inv] fit \<open>0 < length bs\<close> unfolding fits_def by linarith
  then have room: "writable_len (input_buffer c) \<noteq> 0" by auto
  have step: "receive_loop e (Received bs # rs) br c s =
      (case write_snapshot e (Some (length bs)) ?c1 s of
         Inl err \<Rightarrow> Some (Inl err)
       | Inr (complete, c, s) \<Rightarrow> if complete then Some (Inr (c, s)) else receive_loop e rs (Some (length bs)) c s)"
    using less got room st bs(1) by (subst receive_loop.simps) (simp add: rb_writable_inv [OF inv])
  show thesis
  proof (rule that [of rb])
    show "rb_inv rb" "contents rb = drop (length bs) ?all" "capacity rb = capacity (input_buffer c)"
      "index_budget rb + length bs = index_budget (input_buffer c)"
      using drained rb1 by (simp_all add: drained_def)
  qed (use step go_on complete in \<open>simp_all add: chunk_stored_def\<close>)
qed

text \<open>
  With an empty buffer, the chunks of the snapshot end up in the file in order, and the last one
  completes the transfer.
\<close>

lemma receive_chunks:
  assumes "rb_inv (input_buffer c)" "contents (input_buffer c) = []" "tmp_rdb_fp c = Some (Open_File path)"
    and "\<forall>bs \<in> set chunks. bs \<noteq> [] \<and> length bs \<le> capacity (input_buffer c)" "chunks \<noteq> []"
    and "length (concat chunks) \<le> index_budget (input_buffer c)"
    and "rdb_received_bytes c = rdb_written_bytes c"
    and "rdb_received_bytes c + int (length (concat chunks)) = rdb_expected_bytes c"
    and "rdb_load_data_from_file (files (file_plus s path (concat chunks))) (db s) (cfg_dir s) temp_snapshot = Inr (rc, d)"
    and "epoll_ok e"
  shows "\<exists>c'. receive_loop e (map Received chunks @ rs) br c s = Some (Inr (c', (file_plus s path (concat chunks))\<lparr>db := d\<rparr>)) \<and>
    repl_client_state c' = REPL_STATE_READY \<and> rdb_written_bytes c' = rdb_expected_bytes c \<and> contents (input_buffer c') = []"
  using assms
proof (induction chunks arbitrary: c s br)
  case (Cons bs chunks)
  note inv = Cons.prems(1) and empty = Cons.prems(2)
  have bs: "bs \<noteq> []" "length bs \<le> capacity (input_buffer c)" using Cons.prems(4) by auto
  have fit: "fits (input_buffer c) (length bs)" using bs Cons.prems(6) empty by (simp add: fits_def)
  have le: "rdb_received_bytes c + int (length bs) \<le> rdb_expected_bytes c" using Cons.prems(8) by simp
  from receive_chunk [OF inv fit Cons.prems(3) bs(1) le, of e "map Received chunks @ rs" br s rc d] empty obtain rb where
    rb: "rb_inv rb" "contents rb = []" "capacity rb = capacity (input_buffer c)"
      "index_budget rb + length bs = index_budget (input_buffer c)" and
    go_on: "rdb_written_bytes c + int (length bs) \<noteq> rdb_expected_bytes c \<longrightarrow>
      receive_loop e (Received bs # map Received chunks @ rs) br c s =
        receive_loop e (map Received chunks @ rs) (Some (length bs)) (chunk_stored bs rb c) (file_plus s path bs)" and
    complete: "rdb_written_bytes c + int (length bs) = rdb_expected_bytes c \<longrightarrow> epoll_ok e \<longrightarrow>
      rdb_load_data_from_file (files (file_plus s path bs)) (db s) (cfg_dir s) temp_snapshot = Inr (rc, d) \<longrightarrow>
      receive_loop e (Received bs # map Received chunks @ rs) br c s = Some (Inr ((chunk_stored bs rb c)
          \<lparr>tmp_rdb_fp := Some Closed_File, repl_client_state := REPL_STATE_READY, epoll_events := epoll_events c OR EPOLLIN\<rparr>, (file_plus s path bs)\<lparr>db := d\<rparr>))"
    by auto
  show ?case
  proof (cases "chunks = []")
    case True
    with complete Cons.prems(7-10) rb show ?thesis by (simp add: chunk_stored_def)
  next
    case False
    then have "concat chunks \<noteq> []" using Cons.prems(4) by (cases chunks) auto
    then have "0 < length (concat chunks)" by blast
    then have "rdb_written_bytes c + int (length bs) \<noteq> rdb_expected_bytes c" using Cons.prems(7,8) by (simp del: length_concat length_greater_0_conv)
    with go_on have "receive_loop e (Received bs # map Received chunks @ rs) br c s =
        receive_loop e (map Received chunks @ rs) (Some (length bs)) (chunk_stored bs rb c) (file_plus s path bs)" by blast
    moreover have "\<exists>c'. receive_loop e (map Received chunks @ rs) (Some (length bs)) (chunk_stored bs rb c) (file_plus s path bs) =
        Some (Inr (c', (file_plus (file_plus s path bs) path (concat chunks))\<lparr>db := d\<rparr>)) \<and>
      repl_client_state c' = REPL_STATE_READY \<and> rdb_written_bytes c' = rdb_expected_bytes (chunk_stored bs rb c) \<and>
      contents (input_buffer c') = []"
      by (rule Cons.IH) (use Cons.prems False rb in \<open>auto simp: chunk_stored_def\<close>)
    ultimately show ?thesis by (simp add: chunk_stored_def)
  qed
qed simp

text \<open>
  Bytes that arrived together with the announcement of the snapshot stay in front of the input buffer
  and are not counted as received: each chunk pushes as many of the oldest bytes into the file, and as
  many bytes as there were stay behind.
\<close>

lemma receive_behind:
  assumes "rb_inv (input_buffer c)" "tmp_rdb_fp c = Some (Open_File path)" "files s path = Some old"
    and "\<forall>x \<in> set chunks. x \<noteq> [] \<and> length (contents (input_buffer c)) + length x \<le> capacity (input_buffer c)"
    and "length (concat chunks) \<le> index_budget (input_buffer c)"
    and "rdb_received_bytes c + int (length (concat chunks)) \<le> rdb_expected_bytes c"
    and "rdb_written_bytes c + int (length (concat chunks)) < rdb_expected_bytes c"
  shows "\<exists>c' br'. receive_loop e (map Received chunks @ rs) br c s =
      receive_loop e rs br' c' (file_plus s path (take (length (concat chunks)) (contents (input_buffer c) @ concat chunks))) \<and>
    rb_inv (input_buffer c') \<and>
    contents (input_buffer c') = drop (length (concat chunks)) (contents (input_buffer c) @ concat chunks) \<and>
    repl_client_state c' = repl_client_state c \<and> rdb_expected_bytes c' = rdb_expected_bytes c \<and>
    rdb_received_bytes c' = rdb_received_bytes c + int (length (concat chunks)) \<and>
    rdb_written_bytes c' = rdb_written_bytes c + int (length (concat chunks)) \<and>
    tmp_rdb_fp c' = tmp_rdb_fp c \<and> client_type c' = client_type c \<and> epoll_events c' = epoll_events c \<and>
    capacity (input_buffer c') = capacity (input_buffer c) \<and>
    index_budget (input_buffer c') + length (concat chunks) = index_budget (input_buffer c)"
  using assms
proof (induction chunks arbitrary: c s br old)
  case Nil
  then show ?case by (auto simp: file_plus_nil)
next
  case (Cons bs chunks)
  let ?old = "contents (input_buffer c)"
  have bs: "bs \<noteq> []" "length ?old + length bs \<le> capacity (input_buffer c)" using Cons.prems(4) by auto
  have fit: "fits (input_buffer c) (length bs)" using bs(2) Cons.prems(5) unfolding fits_def by simp
  have le: "rdb_received_bytes c + int (length bs) \<le> rdb_expected_bytes c"
    and more: "rdb_written_bytes c + int (length bs) \<noteq> rdb_expected_bytes c" using Cons.prems(6,7) by auto
  from receive_chunk [OF Cons.prems(1) fit Cons.prems(2) bs(1) le, of e "map Received chunks @ rs" br s 0 undefined] more obtain rb where
    rb: "rb_inv rb" "contents rb = drop (length bs) (?old @ bs)" "capacity rb = capacity (input_buffer c)"
      "index_budget rb + length bs = index_budget (input_buffer c)" and
    go_on: "receive_loop e (Received bs # map Received chunks @ rs) br c s =
        receive_loop e (map Received chunks @ rs) (Some (length bs)) (chunk_stored bs rb c) (file_plus s path (take (length bs) (?old @ bs)))"
    by blast
  have "length (contents rb) = length ?old" unfolding rb(2) by simp
  then have small: "\<forall>x \<in> set chunks. x \<noteq> [] \<and> length (contents rb) + length x \<le> capacity rb" using Cons.prems(4) rb(3) by simp
  from Cons.IH [of "chunk_stored bs rb c" "file_plus s path (take (length bs) (?old @ bs))" _ "Some (length bs)"] Cons.prems small rb obtain c' br' where
    "receive_loop e (map Received chunks @ rs) (Some (length bs)) (chunk_stored bs rb c) (file_plus s path (take (length bs) (?old @ bs))) =
      receive_loop e rs br' c' (file_plus (file_plus s path (take (length bs) (?old @ bs))) path
        (take (length (concat chunks)) (contents rb @ concat chunks)))"
    "rb_inv (input_buffer c')" "contents (input_buffer c') = drop (length (concat chunks)) (contents rb @ concat chunks)"
    "repl_client_state c' = repl_client_state c" "rdb_expected_bytes c' = rdb_expected_bytes c"
    "rdb_received_bytes c' = rdb_received_bytes c + int (length bs) + int (length (concat chunks))"
    "rdb_written_bytes c' = rdb_written_bytes c + int (length bs) + int (length (concat chunks))"
    "tmp_rdb_fp c' = tmp_rdb_fp c" "client_type c' = client_type c" "epoll_events c' = epoll_events c"
    "capacity (input_buffer c') = capacity (input_buffer c)"
    "index_budget (input_buffer c') + length (concat chunks) = index_budget rb"
    by (auto simp: chunk_stored_def simp del: length_contents)
  moreover have "drop (length bs) (?old @ bs) @ concat chunks = drop (length bs) (?old @ bs @ concat chunks)" by simp
  then have "take (length bs) (?old @ bs) @ take (length (concat chunks)) (contents rb @ concat chunks) =
      take (length (bs @ concat chunks)) (?old @ bs @ concat chunks)"
    "drop (length (concat chunks)) (contents rb @ concat chunks) = drop (length (bs @ concat chunks)) (?old @ bs @ concat chunks)"
    using take_add [of "length bs" "length (concat chunks)" "?old @ bs @ concat chunks"]
    by (simp_all add: rb(2) drop_drop add.commute del: drop_append)
  ultimately show ?case using go_on rb(4) by (auto simp del: length_contents)
qed

end
