(* ===== verification/Server.thy ===== *)
theory Server
  imports Replication
begin

text \<open>
  The server of \<^verbatim>\<open>redis-server.c\<close>: its initial globals, the command line, the connection of a replica to
  its master, the listening socket, the event loop with its dispatch by client type, and the shutdown.
  The outcomes of the system calls are arguments; the event loop is both a function of the events that
  \<^verbatim>\<open>epoll_wait\<close> delivers and a step relation on worlds.
\<close>

section \<open>Initial state\<close>

definition DEFAULT_PORT :: int where "DEFAULT_PORT = 6379"

definition MAX_PATH_LENGTH :: nat where "MAX_PATH_LENGTH = 256"

definition REPL_BACKLOG_SIZE :: u64 where "REPL_BACKLOG_SIZE = 1048576"

text \<open>
  The globals: \<^verbatim>\<open>g_server_config\<close> and \<^verbatim>\<open>g_server_info\<close> with their initialisers, the port, and a backlog
  without a region until it is created; every use of such a buffer stops the program, as the null pointer
  does.
\<close>

definition null_ring_buffer :: ring_buffer where
  "null_ring_buffer = \<lparr>read_index = 0, write_index = 0, region = None, rb_size = 0, rb_fd = -1\<rparr>"

definition initial_server :: "file_system \<Rightarrow> redis_db \<Rightarrow> server" where
  "initial_server fs d =
     \<lparr>db = d, cfg_dir = ''/tmp/redis-data'', cfg_dbfilename = ''dump.rdb'', cfg_port = [], cfg_master_host = [],
      cfg_master_port = [], role = ROLE_MASTER, master_replid = ''8371b4fb1155b71f4a04d3e1bc3e18c4a990aeeb'',
      master_repl_offset = 0, repl_backlog = null_ring_buffer, repl_backlog_base_offset = 0, replicas = [],
      files = fs, open_files = (\<lambda>_. None)\<rparr>"

section \<open>The command line\<close>

definition strcpy_into :: "nat \<Rightarrow> string \<Rightarrow> string res" where
  \<comment> \<open>\<^verbatim>\<open>strcpy\<close> into an array of \<open>n\<close> bytes.\<close>
  "strcpy_into n s = (if length s < n then Inr s else Inl Out_Of_Bounds)"

definition atoi :: "string \<Rightarrow> int" where
  "atoi s = int_of_long (fst (strtol s))"

text \<open>The arguments after the program name; an option that lacks its values is skipped.\<close>

function parse_args :: "string list \<Rightarrow> server \<Rightarrow> int \<Rightarrow> (server \<times> int) res" where
  "parse_args argv s port =
     (case argv of
        [] \<Rightarrow> Inr (s, port)
      | a # rest \<Rightarrow>
          if a = ''--dir'' then
            (case rest of
               v # rest \<Rightarrow> parse_args rest (s\<lparr>cfg_dir := cstr (snprintf MAX_PATH_LENGTH v)\<rparr>) port
             | [] \<Rightarrow> parse_args rest s port)
          else if a = ''--dbfilename'' then
            (case rest of
               v # rest \<Rightarrow> parse_args rest (s\<lparr>cfg_dbfilename := cstr (snprintf MAX_PATH_LENGTH v)\<rparr>) port
             | [] \<Rightarrow> parse_args rest s port)
          else if a = ''--port'' then
            (case rest of
               v # rest \<Rightarrow> rbind (strcpy_into 6 v) (\<lambda>p. parse_args rest (s\<lparr>cfg_port := p\<rparr>) (atoi v))
             | [] \<Rightarrow> parse_args rest s port)
          else if a = ''--replicaof'' then
            (case rest of
               h # p # rest \<Rightarrow>
                 rbind (strcpy_into 128 h) (\<lambda>h. rbind (strcpy_into 6 p) (\<lambda>p.
                   parse_args rest (s\<lparr>role := ROLE_SLAVE, cfg_master_host := h, cfg_master_port := p\<rparr>) port))
             | _ \<Rightarrow> parse_args rest s port)
          else parse_args rest s port)"
  by pat_completeness auto
termination
  by (relation "measure (\<lambda>(argv, s, port). length argv)") auto

declare parse_args.simps [simp del]

section \<open>Connections\<close>

text \<open>
  What a new connection meets: the allocations, the two ring buffers and the unset fields of
  \<^verbatim>\<open>create_client\<close>, and the calls on its descriptor.
\<close>

record client_os =
  client_malloc_ok :: bool
  parser_malloc_ok :: bool
  input_os :: rb_os
  output_os :: rb_os
  unset :: Client
  fcntl_calls :: fcntl_os
  epoll_add_ok :: bool

definition select_client_db :: "server \<Rightarrow> redis_db \<Rightarrow> server" where
  \<comment> \<open>All clients share the one database.\<close>
  "select_client_db s d = s\<lparr>db := d\<rparr>"

text \<open>
  A new connection with its command handler and parser; the result of \<^verbatim>\<open>create_client\<close> is used without
  a test.  \<open>prep\<close> sets the type (and the replication state) of the client.
\<close>

definition open_connection ::
  "env \<Rightarrow> client_os \<Rightarrow> int \<Rightarrow> (Client \<Rightarrow> Client) \<Rightarrow> world \<Rightarrow> world res" where
  "open_connection e os descriptor prep w =
     rbind (create_client (client_malloc_ok os) (parser_malloc_ok os) (input_os os) (output_os os) (unset os) descriptor) (\<lambda>(c, _).
       case c of
         None \<Rightarrow> Inl Null_Pointer
       | Some c \<Rightarrow>
           rbind (create_command_handler e (prep c) (select_client_db (globals w) (db (globals w))) 256 10) (\<lambda>ch.
             if epoll_add_ok os then Inr (put_conn w descriptor (parser_init ch)) else Inl Exit_Failure))"

definition on_conn :: "world \<Rightarrow> int \<Rightarrow> (Client \<Rightarrow> Client res) \<Rightarrow> world res" where
  "on_conn w i f = rbind (get_client w i) (\<lambda>c. rbind (f c) (put_client w i))"

definition accept_connection :: "env \<Rightarrow> client_os \<Rightarrow> int \<Rightarrow> world \<Rightarrow> world res" where
  "accept_connection e os ConnectFD w =
     (if ConnectFD = -1 then Inl Exit_Failure
      else
        rbind (set_non_blocking (fcntl_calls os)) (\<lambda>_.
        rbind (open_connection e os ConnectFD (\<lambda>c. c\<lparr>client_type := CLIENT_TYPE_REGULAR\<rparr>) w) (\<lambda>w.
          on_conn w ConnectFD (client_enable_read_events e))))"

text \<open>The addresses of the master are tried in turn.\<close>

datatype connect_result = Socket_Failed | Connect_Refused | Connected int

fun try_connect :: "connect_result list \<Rightarrow> int res" where
  "try_connect [] = Inl Exit_Failure"
| "try_connect (Socket_Failed # rs) = Inl Exit_Failure"
| "try_connect (Connect_Refused # rs) = try_connect rs"
| "try_connect (Connected master_fd # rs) = Inr master_fd"

definition connect_to_master ::
  "env \<Rightarrow> connect_result list option \<Rightarrow> client_os \<Rightarrow> world \<Rightarrow> world res" where
  \<comment> \<open>\<open>None\<close>: \<^verbatim>\<open>getaddrinfo\<close> failed.  A failure of \<^verbatim>\<open>fcntl\<close> comes before the first use of the new client.\<close>
  "connect_to_master e addresses os w =
     (case addresses of
        None \<Rightarrow> Inl Exit_Failure
      | Some rs \<Rightarrow>
          rbind (try_connect rs) (\<lambda>master_fd.
          rbind (set_non_blocking (fcntl_calls os)) (\<lambda>_.
          rbind (open_connection e os master_fd
                   (\<lambda>c. c\<lparr>client_type := CLIENT_TYPE_MASTER, repl_client_state := REPL_STATE_CONNECTING\<rparr>) w) (\<lambda>w.
            on_conn w master_fd (client_enable_write_events e)))))"

section \<open>Start\<close>

record boot_os =
  backlog_os :: rb_os
  db_malloc_ok :: bool
  epoll_fd :: int
  master_addresses :: "connect_result list option"
  master_os :: client_os
  listen_fd :: int
  setsockopt_ok :: bool
  bind_ok :: bool
  listen_ok :: bool
  listen_fcntl :: fcntl_os
  listen_epoll_ok :: bool

definition create_backlog :: "rb_os \<Rightarrow> server \<Rightarrow> server res" where
  \<comment> \<open>A failure is only reported.\<close>
  "create_backlog os s =
     rbind (rb_create os REPL_BACKLOG_SIZE) (\<lambda>(_, rb, _).
       case rb of None \<Rightarrow> Inr s | Some rb \<Rightarrow> Inr (s\<lparr>repl_backlog := rb\<rparr>))"

definition load_at_start :: "world \<Rightarrow> world res" where
  \<comment> \<open>The stored snapshot is loaded by a replica.\<close>
  "load_at_start w =
     (let s = globals w in
      if role s = ROLE_SLAVE then
        rbind (rdb_load_data_from_file (files s) (db s) (cfg_dir s) (cfg_dbfilename s)) (\<lambda>(_, d).
          Inr (w\<lparr>globals := s\<lparr>db := d\<rparr>\<rparr>))
      else Inr w)"

definition start_listening :: "boot_os \<Rightarrow> world \<Rightarrow> world res" where
  "start_listening os w =
     (if listen_fd os \<noteq> -1 \<and> setsockopt_ok os \<and> bind_ok os \<and> listen_ok os then
        rbind (set_non_blocking (listen_fcntl os)) (\<lambda>_. if listen_epoll_ok os then Inr w else Inl Exit_Failure)
      else Inl Exit_Failure)"

definition start_server :: "env \<Rightarrow> boot_os \<Rightarrow> file_system \<Rightarrow> string list \<Rightarrow> (world \<times> int) res" where
  \<comment> \<open>Up to the event loop: the world and the port listened on.  A failed allocation of the database is
    not tested by the code and shows at its first use; here it is a null pointer at once.\<close>
  "start_server e os fs argv =
     (case redis_db_create (db_malloc_ok os) of
        None \<Rightarrow> Inl Null_Pointer
      | Some d \<Rightarrow>
          rbind (create_backlog (backlog_os os) (initial_server fs d)) (\<lambda>s.
          if epoll_fd os = -1 then Inl Exit_Failure
          else
            rbind (parse_args argv s DEFAULT_PORT) (\<lambda>(s, port).
            let w = \<lparr>globals = s, conns = (\<lambda>_. None), wire = (\<lambda>_. []), released = []\<rparr> in
            rbind (if role s = ROLE_SLAVE then connect_to_master e (master_addresses os) (master_os os) w else Inr w) (\<lambda>w.
            rbind (load_at_start w) (\<lambda>w.
            rbind (start_listening os w) (\<lambda>w. Inr (w, port)))))))"

section \<open>Events\<close>

definition EPOLLERR :: u32 where "EPOLLERR = 8"
definition EPOLLHUP :: u32 where "EPOLLHUP = 16"

text \<open>
  An event is a new connection on the listening socket, or the flags of a client with the results of the
  socket calls that its handling makes, first for the input and then for the output.  The condition of the second branch is written as the code has it:
  \<^verbatim>\<open>events & EPOLLIN | EPOLLOUT\<close> is never zero.
\<close>

datatype event =
    New_Connection int client_os
  | Client_Event int u32 "read_result list" "write_result list" "read_result list" "write_result list"

definition input_event ::
  "env \<Rightarrow> int \<Rightarrow> u32 \<Rightarrow> read_result list \<Rightarrow> write_result list \<Rightarrow> world \<Rightarrow> world res option" where
  "input_event e i events rs ws w =
     (if events AND EPOLLIN = 0 then Some (Inr w)
      else
        case get_client w i of
          Inl err \<Rightarrow> Some (Inl err)
        | Inr c \<Rightarrow>
            (case client_type c of
               CLIENT_TYPE_REGULAR \<Rightarrow> process_loop e i rs ws w
             | CLIENT_TYPE_MASTER \<Rightarrow> replica_handle_master_data e rs ws w i
             | CLIENT_TYPE_REPLICA \<Rightarrow> Some (Inr w)))"

definition output_event ::
  "env \<Rightarrow> int \<Rightarrow> u32 \<Rightarrow> read_result list \<Rightarrow> write_result list \<Rightarrow> world \<Rightarrow> world res option" where
  "output_event e i events rs ws w =
     (if events AND EPOLLOUT = 0 then Some (Inr w)
      else
        case get_client w i of
          Inl err \<Rightarrow> Some (Inl err)
        | Inr c \<Rightarrow>
            (case client_type c of
               CLIENT_TYPE_REPLICA \<Rightarrow> Some (master_handle_replica_out e ws w i)
             | CLIENT_TYPE_MASTER \<Rightarrow> replica_handle_master_data e rs ws w i
             | CLIENT_TYPE_REGULAR \<Rightarrow> Some (rbind (flush ws w i) (\<lambda>(_, w, _). Inr w))))"

definition handle_event :: "env \<Rightarrow> event \<Rightarrow> world \<Rightarrow> world res option" where
  "handle_event e ev w =
     (case ev of
        New_Connection ConnectFD os \<Rightarrow> Some (accept_connection e os ConnectFD w)
      | Client_Event i events rs ws rs' ws' \<Rightarrow>
          if (events AND EPOLLIN) OR EPOLLOUT \<noteq> 0 then
            (case input_event e i events rs ws w of
               None \<Rightarrow> None
             | Some (Inl err) \<Rightarrow> Some (Inl err)
             | Some (Inr w) \<Rightarrow> output_event e i events rs' ws' w)
          else if (events AND EPOLLHUP) OR EPOLLERR \<noteq> 0 then Some (handle_client_disconnection w i)
          else Some (Inr w))"

text \<open>
  What \<^verbatim>\<open>epoll_wait\<close> reports of the candidate events \<open>evs\<close>: of each connection only the flags that it is
  registered for, errors and hang-ups in any case, and nothing of a descriptor without a connection.  The
  registration is the one at the beginning of the round.  The listening socket is registered for good.
\<close>

definition epoll_wait :: "world \<Rightarrow> (env \<times> event) list \<Rightarrow> (env \<times> event) list" where
  "epoll_wait w evs = List.map_filter (\<lambda>(e, ev).
     case ev of
       New_Connection ConnectFD os \<Rightarrow> Some (e, ev)
     | Client_Event i events rs ws rs' ws' \<Rightarrow>
         (case conns w i of
            None \<Rightarrow> None
          | Some p \<Rightarrow>
              let reported = events AND (epoll_events (client (command_handler p)) OR EPOLLERR OR EPOLLHUP) in
              if reported = 0 then None else Some (e, Client_Event i reported rs ws rs' ws'))) evs"

text \<open>
  A round of the loop handles the events of one \<^verbatim>\<open>epoll_wait\<close>, each in its own environment, and looks at
  the flag that the signal handler sets; the result says whether the loop was left.  A round without
  events is also an interrupted \<^verbatim>\<open>epoll_wait\<close>; in a round \<open>None\<close> it failed.
\<close>

primrec handle_events :: "(env \<times> event) list \<Rightarrow> world \<Rightarrow> world res option" where
  "handle_events [] w = Some (Inr w)"
| "handle_events (x # evs) w =
     (case handle_event (fst x) (snd x) w of
        None \<Rightarrow> None
      | Some (Inl err) \<Rightarrow> Some (Inl err)
      | Some (Inr w) \<Rightarrow> handle_events evs w)"

fun event_loop :: "((env \<times> event) list option \<times> bool) list \<Rightarrow> world \<Rightarrow> (bool \<times> world) res option" where
  "event_loop [] w = Some (Inr (False, w))"
| "event_loop ((None, stop_server) # rounds) w = Some (Inl Exit_Failure)"
| "event_loop ((Some evs, stop_server) # rounds) w =
     (case handle_events (epoll_wait w evs) w of
        None \<Rightarrow> None
      | Some (Inl err) \<Rightarrow> Some (Inl err)
      | Some (Inr w) \<Rightarrow> if stop_server then Some (Inr (True, w)) else event_loop rounds w)"

definition shutdown :: "env \<Rightarrow> int \<Rightarrow> int \<Rightarrow> world \<Rightarrow> (bool \<times> file_system \<times> resource list) res" where
  \<comment> \<open>Whether the database was saved, the files, and what is given back.\<close>
  "shutdown e g_epoll_fd SocketFD w =
     (let s = globals w in
      rbind (redis_db_save (file_os e) (files s) (db s) (cfg_dir s) (cfg_dbfilename s)) (\<lambda>(saved, fs).
      rbind (redis_db_destroy (Some (db s))) (\<lambda>freed.
        Inr (saved, fs,
          [System (Close g_epoll_fd), System (Close SocketFD)] @ map Db_Memory freed @
          destroy_handler (Some (create_handler e)) @
          map System (snd (rb_destroy (if repl_backlog s = null_ring_buffer then None else Some (repl_backlog s))))))))"

text \<open>
  The whole program, from the command line to its exit status.  It is still running when the events are
  used up before a signal has stopped it.
\<close>

datatype outcome =
    Running world
  | Exited int bool file_system "resource list"

definition main ::
  "env \<Rightarrow> env \<Rightarrow> boot_os \<Rightarrow> file_system \<Rightarrow> string list \<Rightarrow> ((env \<times> event) list option \<times> bool) list \<Rightarrow> outcome res option" where
  \<comment> \<open>The environments of the start and of the shutdown; the result of \<^verbatim>\<open>start_server\<close> is \<^verbatim>\<open>EXIT_SUCCESS\<close>.\<close>
  "main e e' os fs argv rounds =
     (case start_server e os fs argv of
        Inl err \<Rightarrow> Some (Inl err)
      | Inr (w, port) \<Rightarrow>
          (case event_loop rounds w of
             None \<Rightarrow> None
           | Some (Inl err) \<Rightarrow> Some (Inl err)
           | Some (Inr (stopped, w)) \<Rightarrow>
               if \<not> stopped then Some (Inr (Running w))
               else Some (rbind (shutdown e' (epoll_fd os) (listen_fd os) w) (\<lambda>(saved, fs, freed). Inr (Exited 0 saved fs freed)))))"

section \<open>Steps\<close>

text \<open>A step handles any event at all, whether or not its connection is registered for it.\<close>

inductive server_step :: "world \<Rightarrow> world \<Rightarrow> bool" where
  step: "handle_event e ev w = Some (Inr w') \<Longrightarrow> server_step w w'"

inductive_cases server_stepE: "server_step w w'"

inductive reachable :: "world \<Rightarrow> bool" where
  start: "start_server e os fs argv = Inr (w, port) \<Longrightarrow> reachable w"
| more: "reachable w \<Longrightarrow> server_step w w' \<Longrightarrow> reachable w'"

end
