(* ===== verification/Parser_Safety.thy ===== *)
theory Parser_Safety
  imports Resp_Parser
begin

text \<open>
  What holds of the parser on every input: the stack of states stays well-formed and within its bounds,
  and an invariant that every callback keeps is kept by the whole parse (locale \<open>callback_invariant\<close>).
\<close>

section \<open>Well-formed stacks\<close>

definition state_ok :: "StateInfo \<Rightarrow> bool" where
  "state_ok s \<longleftrightarrow>
     (case state_parse s of
        Parse_Initial \<Rightarrow> state_type s \<in> {STATE_INITIAL, STATE_INITIAL_TERMINAL}
      | Parse_Simple \<Rightarrow> state_type s = STATE_SIMPLE \<and> end_callback s \<in> {Some End_Simple_String, Some End_Error, Some End_Integer}
      | Parse_Length \<Rightarrow> state_type s \<in> {STATE_ARRAY_LENGTH, STATE_BULK_STRING_LENGTH}
      | Parse_Bulk_String \<Rightarrow> state_type s = STATE_BULK_STRING
      | Parse_Array \<Rightarrow> state_type s = STATE_ARRAY
      | Parse_Inline_Command \<Rightarrow> state_type s = STATE_INLINE_COMMAND)"

definition stack_ok :: "'ch Parser \<Rightarrow> bool" where
  "stack_ok p \<longleftrightarrow> stack p \<noteq> [] \<and> length (stack p) \<le> MAX_STACK_DEPTH \<and>
     state_type (last (stack p)) = STATE_INITIAL_TERMINAL \<and> (\<forall>s \<in> set (stack p). state_ok s)"

lemma state_ok_length [simp]: "state_ok (s\<lparr>state_length := n\<rparr>) = state_ok s"
  by (simp add: state_ok_def split: ParseFunc.split)

lemma stack_ok_init: "stack_ok (parser_init ch)"
  by (simp add: stack_ok_def parser_init_def state_ok_def state_info_def MAX_STACK_DEPTH_def)

lemma stack_ok_handler [simp]: "stack_ok (p\<lparr>command_handler := ch\<rparr>) = stack_ok p"
  by (simp add: stack_ok_def)

lemma stack_ok_push:
  "stack_ok p \<Longrightarrow> state_ok (state_info t n f e) \<Longrightarrow> stack_ok (push_state p t n f e)"
  by (auto simp: stack_ok_def push_state_def MAX_STACK_DEPTH_def)

lemma stack_ok_pop: "stack_ok p \<Longrightarrow> stack_ok (pop_state p)"
  by (cases "stack p") (auto simp: stack_ok_def pop_state_def last_tl)

lemma stack_ok_dec: "stack_ok p \<Longrightarrow> stack_ok (dec_top p)"
  by (auto simp: stack_ok_def dec_top_def split: list.split)

lemma stack_ok_top: "stack_ok p \<Longrightarrow> state_ok (top p)"
  by (auto simp: stack_ok_def)

lemma handler_of_stack_ops [simp]:
  "command_handler (push_state p t n f e) = command_handler p"
  "command_handler (pop_state p) = command_handler p"
  "command_handler (dec_top p) = command_handler p"
  by (simp_all add: push_state_def pop_state_def dec_top_def split: list.split)

section \<open>Invariants of the callbacks\<close>

locale callback_invariant =
  fixes g :: "'ch Handler" and I :: "'ch \<Rightarrow> bool"
  assumes begin_array_inv: "begin_array g ch n = Inr ch' \<Longrightarrow> I ch \<Longrightarrow> I ch'"
    and end_array_inv: "end_array g ch = Inr ch' \<Longrightarrow> I ch \<Longrightarrow> I ch'"
    and begin_bulk_string_inv: "begin_bulk_string g ch n = Inr ch' \<Longrightarrow> I ch \<Longrightarrow> I ch'"
    and end_bulk_string_inv: "end_bulk_string g ch = Inr ch' \<Longrightarrow> I ch \<Longrightarrow> I ch'"
    and chars_inv: "chars g ch bs = Inr ch' \<Longrightarrow> I ch \<Longrightarrow> I ch'"
    and begin_simple_string_inv: "begin_simple_string g ch = Inr ch' \<Longrightarrow> I ch \<Longrightarrow> I ch'"
    and end_simple_string_inv: "end_simple_string g ch = Inr ch' \<Longrightarrow> I ch \<Longrightarrow> I ch'"
    and begin_error_inv: "begin_error g ch = Inr ch' \<Longrightarrow> I ch \<Longrightarrow> I ch'"
    and end_error_inv: "end_error g ch = Inr ch' \<Longrightarrow> I ch \<Longrightarrow> I ch'"
    and begin_integer_inv: "begin_integer g ch = Inr ch' \<Longrightarrow> I ch \<Longrightarrow> I ch'"
    and end_integer_inv: "end_integer g ch = Inr ch' \<Longrightarrow> I ch \<Longrightarrow> I ch'"
begin

definition ok :: "'ch Parser \<Rightarrow> bool" where
  "ok p \<longleftrightarrow> stack_ok p \<and> I (command_handler p)"

lemmas callback_rules = begin_array_inv end_array_inv begin_bulk_string_inv end_bulk_string_inv chars_inv
  begin_simple_string_inv end_simple_string_inv begin_error_inv end_error_inv begin_integer_inv end_integer_inv

lemma call_ok: "call f p = Inr p' \<Longrightarrow> ok p \<Longrightarrow> (\<And>ch'. f (command_handler p) = Inr ch' \<Longrightarrow> I ch') \<Longrightarrow> ok p'"
  by (auto simp: call_def rbind_eq_Inr_iff ok_def)

lemma ok_push: "ok p \<Longrightarrow> state_ok (state_info t n f e) \<Longrightarrow> ok (push_state p t n f e)"
  by (simp add: ok_def stack_ok_push)

lemma ok_pop: "ok p \<Longrightarrow> ok (pop_state p)"
  by (simp add: ok_def stack_ok_pop)

lemma ok_dec: "ok p \<Longrightarrow> ok (dec_top p)"
  by (simp add: ok_def stack_ok_dec)

lemma ok_calls:
  "call (begin_simple_string g) p = Inr p' \<Longrightarrow> ok p \<Longrightarrow> ok p'"
  "call (begin_error g) p = Inr p' \<Longrightarrow> ok p \<Longrightarrow> ok p'"
  "call (begin_integer g) p = Inr p' \<Longrightarrow> ok p \<Longrightarrow> ok p'"
  "call (end_bulk_string g) p = Inr p' \<Longrightarrow> ok p \<Longrightarrow> ok p'"
  "call (end_array g) p = Inr p' \<Longrightarrow> ok p \<Longrightarrow> ok p'"
  "call (\<lambda>ch. begin_array g ch n) p = Inr p' \<Longrightarrow> ok p \<Longrightarrow> ok p'"
  "call (\<lambda>ch. begin_bulk_string g ch n) p = Inr p' \<Longrightarrow> ok p \<Longrightarrow> ok p'"
  "chars_of g m i j p = Inr p' \<Longrightarrow> ok p \<Longrightarrow> ok p'"
  by (auto simp: call_def chars_of_def rbind_eq_Inr_iff ok_def split: if_splits intro: callback_rules)

lemma ok_end_callback:
  assumes "run_end_callback g e p = Inr p'" "ok p"
  shows "ok p'"
proof (cases e)
  case (Some x)
  with assms show ?thesis by (cases x) (auto simp: call_def rbind_eq_Inr_iff ok_def intro: callback_rules)
qed (use assms in simp)

lemma ok_token:
  assumes "rbind (call (\<lambda>ch. begin_bulk_string g ch i) p) (\<lambda>p. rbind (chars_of g m k j p) (\<lambda>p. rbind (call (end_bulk_string g) p) f)) = Inr p'"
    and "ok p"
  obtains p3 where "ok p3" "f p3 = Inr p'"
  using assms ok_calls by (auto simp: rbind_eq_Inr_iff) metis

lemma ok_inline_tokens: "inline_tokens n g m pos start p = Inr p' \<Longrightarrow> ok p \<Longrightarrow> ok p'"
proof (induction n arbitrary: start p)
  case (Suc n)
  let ?s = "skip_spaces m pos start"
  show ?case
  proof (cases "start < pos \<and> ?s < pos")
    case True
    then have "start < pos" "(pos \<le> ?s) = False" by simp_all
    with Suc.prems(1) have run: "inline_tokens (Suc n) g m pos start p = Inr p'" by simp
    show ?thesis
      using run unfolding inline_tokens.simps Let_def \<open>(pos \<le> ?s) = False\<close> if_P [OF \<open>start < pos\<close>] if_False
      by (rule ok_token [OF _ Suc.prems(2)]) (rule Suc.IH)
  next
    case False
    with Suc.prems show ?thesis by (auto simp: Let_def split: if_splits)
  qed
qed simp

text \<open>Every parse function keeps the invariant, and so does the driver.\<close>

lemma new_states_ok:
  "state_ok (state_info STATE_SIMPLE n Parse_Simple (Some End_Simple_String))"
  "state_ok (state_info STATE_SIMPLE n Parse_Simple (Some End_Error))"
  "state_ok (state_info STATE_SIMPLE n Parse_Simple (Some End_Integer))"
  "state_ok (state_info STATE_BULK_STRING_LENGTH n Parse_Length e)"
  "state_ok (state_info STATE_ARRAY_LENGTH n Parse_Length e)"
  "state_ok (state_info STATE_INLINE_COMMAND n Parse_Inline_Command e)"
  "state_ok (state_info STATE_ARRAY n Parse_Array e)"
  "state_ok (state_info STATE_BULK_STRING n Parse_Bulk_String e)"
  "state_ok (state_info STATE_INITIAL n Parse_Initial e)"
  by (simp_all add: state_ok_def state_info_def)

lemma parse_initial_ok: "parse_initial g m fin p pos = Inr (b, pos', p') \<Longrightarrow> ok p \<Longrightarrow> ok p'"
  by (auto simp: parse_initial_def Let_def rbind_eq_Inr_iff split: if_splits
      intro!: ok_push new_states_ok intro: ok_pop ok_calls)

lemma parse_simple_ok: "parse_simple g m fin p pos = Inr (b, pos', p') \<Longrightarrow> ok p \<Longrightarrow> ok p'"
  by (auto simp: parse_simple_def Let_def rbind_eq_Inr_iff split: if_splits
      intro: ok_pop ok_calls ok_end_callback)

lemma parse_length_ok: "parse_length g m fin p pos = Inr (b, pos', p') \<Longrightarrow> ok p \<Longrightarrow> ok p'"
  by (auto simp: parse_length_def Let_def rbind_eq_Inr_iff split: if_splits prod.splits
      intro!: ok_push new_states_ok intro: ok_pop ok_calls)

lemma parse_bulk_string_ok: "parse_bulk_string g m fin p pos = Inr (b, pos', p') \<Longrightarrow> ok p \<Longrightarrow> ok p'"
  by (auto simp: parse_bulk_string_def Let_def rbind_eq_Inr_iff split: if_splits
      intro: ok_pop ok_calls)

lemma parse_array_ok: "parse_array g m fin p pos = Inr (b, pos', p') \<Longrightarrow> ok p \<Longrightarrow> ok p'"
  by (auto simp: parse_array_def Let_def rbind_eq_Inr_iff split: if_splits
      intro!: ok_push new_states_ok intro: ok_pop ok_dec ok_calls)

lemma parse_inline_command_ok: "parse_inline_command g m fin p pos = Inr (b, pos', p') \<Longrightarrow> ok p \<Longrightarrow> ok p'"
  by (auto simp: parse_inline_command_def Let_def rbind_eq_Inr_iff simp del: inline_tokens.simps split: if_splits
      intro!: ok_pop) (metis ok_calls(5,6) ok_inline_tokens)

lemma parse_step_ok: "parse_step g m fin p pos = Inr (b, pos', p') \<Longrightarrow> ok p \<Longrightarrow> ok p'"
  by (auto simp: parse_step.simps split: ParseFunc.splits
      intro: parse_initial_ok parse_simple_ok parse_length_ok parse_bulk_string_ok parse_array_ok parse_inline_command_ok)

lemma parser_parse_ok:
  assumes "parser_parse g stop m fin p pos = Some (Inr (pos', p'))" "ok p"
  shows "ok p'"
proof -
  have "g = g \<longrightarrow> ok p \<longrightarrow> (case Inr (pos', p') of Inl (e :: fault) \<Rightarrow> True | Inr (_, p') \<Rightarrow> ok p')"
    using assms(1)
  proof (rule parser_parse.raw_induct [of "\<lambda>g' stop m fin p pos r. g' = g \<longrightarrow> ok p \<longrightarrow> (case r of Inl e \<Rightarrow> True | Inr (_, p') \<Rightarrow> ok p')", rotated])
    fix parse g' stop m fin p pos r
    assume ih: "\<And>g' stop m fin p pos r. parse g' stop m fin p pos = Some r \<Longrightarrow>
        g' = g \<longrightarrow> ok p \<longrightarrow> (case r of Inl e \<Rightarrow> True | Inr (_, p') \<Rightarrow> ok p')"
      and body: "(if stop (command_handler p) then Some (Inr (pos, p))
        else case parse_step g' m fin p pos of Inl e \<Rightarrow> Some (Inl e)
          | Inr (keep_going, pos, p) \<Rightarrow> if keep_going then parse g' stop m fin p pos else Some (Inr (pos, p))) = Some r"
    show "g' = g \<longrightarrow> ok p \<longrightarrow> (case r of Inl e \<Rightarrow> True | Inr (_, p') \<Rightarrow> ok p')"
      using ih body by (fastforce split: if_splits sum.splits prod.splits dest: parse_step_ok)
  qed
  with assms(2) show ?thesis by simp
qed

end

end
