(* ===== verification/Keyspace.thy ===== *)
theory Keyspace
  imports Database
begin

text \<open>
  The contract of the database: every operation computes on an abstract key space, a map from keys
  to strings or non-empty lists with an expiration time, whatever the layout of the hash table and
  of the linked lists.  The locale \<open>key_space\<close> states it, proves that whole runs of operations follow
  the abstract key space, and is interpreted on the operations of \<^verbatim>\<open>database.c\<close>.
\<close>

section \<open>Lists in the database\<close>

definition push_keyspace ::
  "(string list \<Rightarrow> string list) \<Rightarrow> int \<Rightarrow> int \<Rightarrow> string \<Rightarrow> keyspace \<Rightarrow> int \<Rightarrow> int \<times> int \<times> keyspace" where
  \<comment> \<open>Return code, length and key space after pushing with \<open>f\<close>; \<open>e0\<close> is the expiration of a new list.\<close>
  "push_keyspace f e0 now k m out =
     (let m = purge now k m in
      case m k of
        None \<Rightarrow> (0, int_of_size 1, m(k \<mapsto> (AList (f []), e0)))
      | Some (AStr s, e) \<Rightarrow> (ERR_TYPE_MISMATCH, out, m)
      | Some (AList xs, e) \<Rightarrow> (0, int_of_size (of_nat (Suc (length xs))), m(k \<mapsto> (AList (f xs), e))))"

definition db_push ::
  "(list_struct option \<Rightarrow> int \<Rightarrow> (list_struct option \<times> int) res) \<Rightarrow> int \<Rightarrow>
   int \<Rightarrow> u64 \<Rightarrow> redis_db \<Rightarrow> string \<Rightarrow> int \<Rightarrow> (int \<times> int \<times> redis_db) res" where
  "db_push psh e0 now g db key out =
     rbind (redis_db_get now db key) (\<lambda>(existing_value, db).
       case existing_value of
         Some v \<Rightarrow>
           (case rdata v of
              Str s \<Rightarrow> Inr (ERR_TYPE_MISMATCH, out, db)
            | Lst L \<Rightarrow> rbind (psh (Some L) out) (\<lambda>(l, out). rbind (write_list db key l) (\<lambda>db. Inr (0, out, db))))
       | None \<Rightarrow>
           (case create_list True g of
              None \<Rightarrow> Inl Null_Pointer
            | Some L \<Rightarrow>
                rbind (db_set db key (Lst L) e0) (\<lambda>db.
                rbind (psh (Some L) out) (\<lambda>(l, out). rbind (write_list db key l) (\<lambda>db. Inr (0, out, db))))))"

lemma lpush_is_db_push:
  "redis_db_lpush now g db key item out =
   db_push (\<lambda>l. lpush True True l (Some item)) (-1) now g db key out"
  by (simp add: redis_db_lpush_def db_push_def)

lemma rpush_is_db_push:
  "redis_db_rpush now g db key item out =
   db_push (\<lambda>l. rpush True True l (Some item)) 0 now g db key out"
  by (simp add: redis_db_rpush_def db_push_def)

lemma kh_tab_mono: "kh_tab p h \<Longrightarrow> p \<le> q \<Longrightarrow> kh_tab q h"
  by (simp add: kh_tab_def)

lemma db_rep_mono: "db_rep p db m \<Longrightarrow> p \<le> q \<Longrightarrow> db_rep q db m"
  by (auto simp: db_rep_def intro: kh_tab_mono)

lemma dom_purge: "dom (purge now k m) \<subseteq> dom m"
  by (auto simp: purge_def split: option.splits if_splits)

text \<open>Writing a list back into the bucket it came from.\<close>

lemma write_list_rep:
  assumes rep: "db_rep p db m" and k: "kh_map (dbh db) k = Some v" "m k = Some (a, e)"
    and v: "expiration v = e" and L: "list_rep L xs" "xs \<noteq> []"
  shows "\<exists>db'. write_list db k (Some L) = Inr db' \<and> db_rep p db' (m(k \<mapsto> (AList xs, e)))"
proof -
  have tab: "kh_tab p (dbh db)" using rep by (simp add: db_rep_def)
  from write_list_raw [OF tab k(1), of L] obtain h' where
    h': "write_list db k (Some L) = Inr (db\<lparr>dbh := h'\<rparr>)" "kh_tab p h'"
    "kh_map h' = (kh_map (dbh db))(k \<mapsto> v\<lparr>rdata := Lst L\<rparr>)" by blast
  moreover have "db_rep p (db\<lparr>dbh := h'\<rparr>) (m(k \<mapsto> (AList xs, e)))"
    using rep h' v L k(2) by (auto simp: db_rep_def val_rep_def insert_absorb domIff)
  ultimately show ?thesis by blast
qed

lemma db_push_new:
  assumes rep: "db_rep p db m" and cap: "p < store_cap" and k: "m k = None"
    and L: "list_rep L xs" "xs \<noteq> []" and L0: "create_list True g = Some L0"
  shows "\<exists>db1 db2. db_set db k (Lst L0) e = Inr db1 \<and> write_list db1 k (Some L) = Inr db2 \<and>
    db_rep (Suc p) db2 (m(k \<mapsto> (AList xs, e)))"
proof -
  from db_set_raw [OF rep cap, of k "Lst L0" e] obtain db1 where
    db1: "db_set db k (Lst L0) e = Inr db1" "kh_tab (Suc p) (dbh db1)"
    "kh_map (dbh db1) = (kh_map (dbh db))(k \<mapsto> \<lparr>rdata = Lst L0, expiration = e\<rparr>)"
    "key_count db1 = of_nat (card (insert k (dom m)))" by blast
  from write_list_raw [OF db1(2), of k _ L] db1(3) obtain h' where
    h': "write_list db1 k (Some L) = Inr (db1\<lparr>dbh := h'\<rparr>)" "kh_tab (Suc p) h'"
    "kh_map h' = (kh_map (dbh db))(k \<mapsto> \<lparr>rdata = Lst L, expiration = e\<rparr>)" by auto
  have "db_rep (Suc p) (db1\<lparr>dbh := h'\<rparr>) (m(k \<mapsto> (AList xs, e)))"
    using rep h' L db1(4) by (auto simp: db_rep_def val_rep_def)
  with db1(1) h'(1) show ?thesis by blast
qed

lemma db_push_ok:
  assumes psh: "\<And>L xs out. list_rep L xs \<Longrightarrow>
      \<exists>L'. psh (Some L) out = Inr (Some L', int_of_size (of_nat (Suc (length xs)))) \<and> list_rep L' (f xs)"
    and f: "\<And>xs. f xs \<noteq> []"
    and rep: "db_rep p db m" and cap: "p < store_cap"
  shows "\<exists>db'. db_push psh e0 now g db k out =
      Inr (fst (push_keyspace f e0 now k m out), fst (snd (push_keyspace f e0 now k m out)), db') \<and>
    db_rep (Suc p) db' (snd (snd (push_keyspace f e0 now k m out)))"
proof -
  from db_get_ok [OF rep, of now k] obtain v db1 where
    get: "redis_db_get now db k = Inr (v, db1)" and rep1: "db_rep p db1 (purge now k m)"
    and rel: "rel_option val_rep v (purge now k m k)" and v: "kh_map (dbh db1) k = v" by blast
  show ?thesis
  proof (cases "purge now k m k")
    case None
    with rel have "v = None" by (cases v) auto
    obtain L0 where L0: "create_list True g = Some L0" by (simp add: create_list_def)
    from psh [OF create_list_rep [OF L0], of out] obtain L where
      L: "psh (Some L0) out = Inr (Some L, int_of_size 1)" "list_rep L (f [])" by auto
    from db_push_new [OF rep1 cap None L(2) f L0] obtain db2 db3 where
      "db_set db1 k (Lst L0) e0 = Inr db2" "write_list db2 k (Some L) = Inr db3"
      "db_rep (Suc p) db3 ((purge now k m)(k \<mapsto> (AList (f []), e0)))" by blast
    with None \<open>v = None\<close> show ?thesis
      by (simp add: db_push_def get L0 L(1) push_keyspace_def Let_def)
  next
    case (Some ae)
    obtain a e where ae: "ae = (a, e)" by force
    from rel Some ae obtain w where w: "v = Some w" "data_rep (rdata w) a" "expiration w = e"
      by (cases v) (auto simp: val_rep_def)
    show ?thesis
    proof (cases a)
      case (AStr s)
      with w(2) obtain t where t: "rdata w = Str t" by (cases "rdata w") auto
      from db_rep_mono [OF rep1, of "Suc p"] show ?thesis
        using Some ae AStr by (simp add: db_push_def get w(1) t push_keyspace_def Let_def)
    next
      case (AList xs)
      with w(2) obtain L where L: "rdata w = Lst L" "list_rep L xs" by (cases "rdata w") auto
      from psh [OF L(2), of out] obtain L' where
        L': "psh (Some L) out = Inr (Some L', int_of_size (of_nat (Suc (length xs))))"
        "list_rep L' (f xs)" by blast
      from v w(1) have "kh_map (dbh db1) k = Some w" by simp
      from write_list_rep [OF rep1 this Some [unfolded ae] w(3) L'(2) f] obtain db2 where
        "write_list db1 k (Some L') = Inr db2"
        "db_rep p db2 ((purge now k m)(k \<mapsto> (AList (f xs), e)))" by blast
      with db_rep_mono [OF this(2), of "Suc p"] show ?thesis
        using Some ae AList
        by (simp add: db_push_def get w(1) L(1) L'(1) push_keyspace_def Let_def del: of_nat_Suc)
    qed
  qed
qed

lemma db_lpush_ok:
  assumes "db_rep p db m" "p < store_cap"
  shows "\<exists>db'. redis_db_lpush now g db k item out =
      Inr (fst (push_keyspace ((#) item) (-1) now k m out),
           fst (snd (push_keyspace ((#) item) (-1) now k m out)), db') \<and>
    db_rep (Suc p) db' (snd (snd (push_keyspace ((#) item) (-1) now k m out)))"
  unfolding lpush_is_db_push
  by (rule db_push_ok [OF _ _ assms]) (use lpush_rep in force, simp)

lemma db_rpush_ok:
  assumes "db_rep p db m" "p < store_cap"
  shows "\<exists>db'. redis_db_rpush now g db k item out =
      Inr (fst (push_keyspace (\<lambda>xs. xs @ [item]) 0 now k m out),
           fst (snd (push_keyspace (\<lambda>xs. xs @ [item]) 0 now k m out)), db') \<and>
    db_rep (Suc p) db' (snd (snd (push_keyspace (\<lambda>xs. xs @ [item]) 0 now k m out)))"
  unfolding rpush_is_db_push
  by (rule db_push_ok [OF _ _ assms]) (use rpush_rep in force, simp)

definition range_keyspace :: "int \<Rightarrow> string \<Rightarrow> int \<Rightarrow> int \<Rightarrow> keyspace \<Rightarrow> int \<times> string list" where
  "range_keyspace now k start stop m =
     (case purge now k m k of
        None \<Rightarrow> (ERR_KEY_NOT_FOUND, [])
      | Some (AStr s, e) \<Rightarrow> (ERR_TYPE_MISMATCH, [])
      | Some (AList xs, e) \<Rightarrow> (0, lrange_spec xs start stop))"

definition small_lists :: "keyspace \<Rightarrow> bool" where
  "small_lists m \<longleftrightarrow> (\<forall>k xs e. m k = Some (AList xs, e) \<longrightarrow> int (length xs) \<le> INT_MAX)"

lemma db_lrange_ok:
  assumes rep: "db_rep p db m" and small: "small_lists m"
    and ix: "INT_MIN \<le> start" "start \<le> INT_MAX" "INT_MIN \<le> stop" "stop \<le> INT_MAX"
  shows "\<exists>r db'. redis_db_lrange now db k start stop =
      Inr (fst (range_keyspace now k start stop m), r,
           int (length (snd (range_keyspace now k start stop m))), db') \<and>
    (case r of None \<Rightarrow> snd (range_keyspace now k start stop m) = []
     | Some ys \<Rightarrow> ys = snd (range_keyspace now k start stop m)) \<and>
    db_rep p db' (purge now k m)"
proof -
  from db_get_ok [OF rep, of now k] obtain v db1 where
    get: "db_get now db k = Inr (v, db1)" and rep1: "db_rep p db1 (purge now k m)"
    and rel: "rel_option val_rep v (purge now k m k)" by (auto simp: redis_db_get_def)
  show ?thesis
  proof (cases "purge now k m k")
    case None
    with rel have "v = None" by (cases v) auto
    with None rep1 show ?thesis by (auto simp: redis_db_lrange_def get range_keyspace_def)
  next
    case (Some ae)
    obtain a e where ae: "ae = (a, e)" by force
    from rel Some ae obtain w where w: "v = Some w" "data_rep (rdata w) a" by (cases v) (auto simp: val_rep_def)
    show ?thesis
    proof (cases a)
      case (AStr s)
      with w(2) obtain t where "rdata w = Str t" by (cases "rdata w") auto
      with Some ae AStr rep1 w(1) show ?thesis by (auto simp: redis_db_lrange_def get range_keyspace_def)
    next
      case (AList xs)
      with w(2) obtain L where L: "rdata w = Lst L" "list_rep L xs" "xs \<noteq> []" by (cases "rdata w") auto
      have "m k = Some (AList xs, e)"
        using Some ae AList by (auto simp: purge_def split: option.splits if_splits)
      with small have "int (length xs) \<le> INT_MAX" by (auto simp: small_lists_def)
      note slice = lrange_rep [OF L(2,3) this ix]
      have rk: "range_keyspace now k start stop m = (0, lrange_spec xs start stop)"
        by (simp add: range_keyspace_def Some ae AList)
      show ?thesis
        using slice rep1 w(1) L(1) unfolding redis_db_lrange_def get rk fst_conv snd_conv by auto
    qed
  qed
qed

lemma db_dbsize_ok: "db_rep p db m \<Longrightarrow> p \<le> store_cap \<Longrightarrow> unat (redis_db_dbsize db) = card (dom m)"
  using db_rep_card(2) [of p db m]
  by (simp add: redis_db_dbsize_def db_rep_def store_cap_def unat_of_nat_64)

section \<open>Contract\<close>

datatype db_op =
    DbSet string string int
  | DbGet string
  | DbExist string
  | DbDelete string
  | DbLpush string string
  | DbRpush string string
  | DbLrange string int int
  | DbSize

datatype db_out =
    Done
  | Value "aval option"
  | Found bool
  | Pushed int int
  | Ranged int "string list"
  | Size nat

text \<open>One operation at time \<open>now\<close> on the abstract key space.\<close>

fun keyspace_step :: "int \<Rightarrow> keyspace \<Rightarrow> db_op \<Rightarrow> db_out \<times> keyspace" where
  "keyspace_step now m (DbSet k s e) = (Done, m(k \<mapsto> (AStr s, e)))"
| "keyspace_step now m (DbGet k) = (Value (map_option fst (purge now k m k)), purge now k m)"
| "keyspace_step now m (DbExist k) = (Found (m k \<noteq> None), m)"
| "keyspace_step now m (DbDelete k) = (Done, m(k := None))"
| "keyspace_step now m (DbLpush k x) =
     (case push_keyspace ((#) x) (-1) now k m 0 of (rc, n, m) \<Rightarrow> (Pushed rc n, m))"
| "keyspace_step now m (DbRpush k x) =
     (case push_keyspace (\<lambda>xs. xs @ [x]) 0 now k m 0 of (rc, n, m) \<Rightarrow> (Pushed rc n, m))"
| "keyspace_step now m (DbLrange k i j) =
     (case range_keyspace now k i j m of (rc, xs) \<Rightarrow> (Ranged rc xs, purge now k m))"
| "keyspace_step now m DbSize = (Size (card (dom m)), m)"

fun keyspace_run :: "keyspace \<Rightarrow> (int \<times> db_op) list \<Rightarrow> db_out list \<times> keyspace" where
  "keyspace_run m [] = ([], m)"
| "keyspace_run m ((now, op) # ops) =
     (case keyspace_step now m op of (y, m) \<Rightarrow>
      case keyspace_run m ops of (ys, m) \<Rightarrow> (y # ys, m))"

definition admissible :: "db_op \<Rightarrow> keyspace \<Rightarrow> bool" where
  \<comment> \<open>What \<open>lrange\<close> needs of its 32-bit arguments.\<close>
  "admissible op m =
     (case op of
        DbLrange k i j \<Rightarrow> INT_MIN \<le> i \<and> i \<le> INT_MAX \<and> INT_MIN \<le> j \<and> j \<le> INT_MAX \<and> small_lists m
      | _ \<Rightarrow> True)"

fun admissible_run :: "keyspace \<Rightarrow> (int \<times> db_op) list \<Rightarrow> bool" where
  "admissible_run m [] = True"
| "admissible_run m ((now, op) # ops) =
     (admissible op m \<and> admissible_run (snd (keyspace_step now m op)) ops)"

fun out_matches :: "('v \<Rightarrow> aval \<Rightarrow> bool) \<Rightarrow> 'v option + db_out \<Rightarrow> db_out \<Rightarrow> bool" where
  "out_matches dr (Inl v) (Value a) = rel_option dr v a"
| "out_matches dr (Inr y) z = (y = z)"
| "out_matches dr (Inl v) _ = False"

fun exec_ops ::
  "(int \<Rightarrow> 'd \<Rightarrow> db_op \<Rightarrow> ('y \<times> 'd) res) \<Rightarrow> 'd \<Rightarrow> (int \<times> db_op) list \<Rightarrow> ('y list \<times> 'd) res" where
  "exec_ops step d [] = Inr ([], d)"
| "exec_ops step d ((now, op) # ops) =
     rbind (step now d op) (\<lambda>(y, d). rbind (exec_ops step d ops) (\<lambda>(ys, d). Inr (y # ys, d)))"

locale key_space =
  fixes rep :: "nat \<Rightarrow> 'd \<Rightarrow> keyspace \<Rightarrow> bool"
    and cap :: nat
    and val :: "'v \<Rightarrow> aval \<Rightarrow> bool"
    and step :: "int \<Rightarrow> 'd \<Rightarrow> db_op \<Rightarrow> (('v option + db_out) \<times> 'd) res"
  assumes step_ok: "rep p d m \<Longrightarrow> p < cap \<Longrightarrow> admissible op m \<Longrightarrow>
      \<exists>y d'. step now d op = Inr (y, d') \<and> out_matches val y (fst (keyspace_step now m op)) \<and>
        rep (Suc p) d' (snd (keyspace_step now m op))"
begin

lemma run_follows_keyspace:
  "rep p d m \<Longrightarrow> p + length ops \<le> cap \<Longrightarrow> admissible_run m ops \<Longrightarrow>
   \<exists>ys d'. exec_ops step d ops = Inr (ys, d') \<and> list_all2 (out_matches val) ys (fst (keyspace_run m ops)) \<and>
     rep (p + length ops) d' (snd (keyspace_run m ops))"
proof (induction ops arbitrary: p d m)
  case Nil
  then show ?case by simp
next
  case (Cons no ops)
  obtain now op where no: "no = (now, op)" by force
  from Cons.prems no step_ok [of p d m op now] obtain y d1 where
    y: "step now d op = Inr (y, d1)" "out_matches val y (fst (keyspace_step now m op))"
    "rep (Suc p) d1 (snd (keyspace_step now m op))" by auto
  from Cons.IH [OF y(3)] Cons.prems no obtain ys d2 where
    "exec_ops step d1 ops = Inr (ys, d2)"
    "list_all2 (out_matches val) ys (fst (keyspace_run (snd (keyspace_step now m op)) ops))"
    "rep (Suc p + length ops) d2 (snd (keyspace_run (snd (keyspace_step now m op)) ops))" by auto
  with y no show ?case by (auto split: prod.splits)
qed

end

section \<open>The database provides the contract\<close>

definition db_step ::
  "u64 \<Rightarrow> int \<Rightarrow> redis_db \<Rightarrow> db_op \<Rightarrow> ((value_data option + db_out) \<times> redis_db) res" where
  "db_step g now db op =
     (case op of
        DbSet k s e \<Rightarrow> rbind (redis_db_set db k (Str s) e) (\<lambda>db. Inr (Inr Done, db))
      | DbGet k \<Rightarrow> rbind (redis_db_get now db k) (\<lambda>(v, db). Inr (Inl (map_option rdata v), db))
      | DbExist k \<Rightarrow> rbind (redis_db_exist db k) (\<lambda>b. Inr (Inr (Found b), db))
      | DbDelete k \<Rightarrow> rbind (redis_db_delete db k) (\<lambda>db. Inr (Inr Done, db))
      | DbLpush k x \<Rightarrow> rbind (redis_db_lpush now g db k x 0) (\<lambda>(rc, n, db). Inr (Inr (Pushed rc n), db))
      | DbRpush k x \<Rightarrow> rbind (redis_db_rpush now g db k x 0) (\<lambda>(rc, n, db). Inr (Inr (Pushed rc n), db))
      | DbLrange k i j \<Rightarrow>
          rbind (redis_db_lrange now db k i j) (\<lambda>(rc, r, n, db).
            Inr (Inr (Ranged rc (case r of None \<Rightarrow> [] | Some xs \<Rightarrow> xs)), db))
      | DbSize \<Rightarrow> Inr (Inr (Size (unat (redis_db_dbsize db))), db))"

lemma db_step_ok:
  assumes rep: "db_rep p db m" and cap: "p < store_cap" and adm: "admissible op m"
  shows "\<exists>y db'. db_step g now db op = Inr (y, db') \<and>
    out_matches data_rep y (fst (keyspace_step now m op)) \<and>
    db_rep (Suc p) db' (snd (keyspace_step now m op))"
proof (cases op)
  case (DbSet k s e)
  with db_set_ok [OF rep cap, of "Str s" "AStr s" k e] show ?thesis by (auto simp: db_step_def)
next
  case (DbGet k)
  from db_get_ok [OF rep, of now k] obtain v db' where
    get: "redis_db_get now db k = Inr (v, db')" "db_rep p db' (purge now k m)"
    "rel_option val_rep v (purge now k m k)" by blast
  then have "rel_option data_rep (map_option rdata v) (map_option fst (purge now k m k))"
    by (cases v; cases "purge now k m k") (auto simp: val_rep_def)
  with get DbGet db_rep_mono [OF get(2), of "Suc p"] show ?thesis by (simp add: db_step_def)
next
  case (DbExist k)
  with db_exist_ok [OF rep, of k] db_rep_mono [OF rep, of "Suc p"] show ?thesis by (auto simp: db_step_def)
next
  case (DbDelete k)
  from db_delete_ok [OF rep, of k] obtain db' where
    "redis_db_delete db k = Inr db'" "db_rep p db' (m(k := None))" by blast
  with DbDelete db_rep_mono [OF this(2), of "Suc p"] show ?thesis by (simp add: db_step_def)
next
  case (DbLpush k x)
  with db_lpush_ok [OF rep cap, of now g k x 0] show ?thesis by (auto simp: db_step_def split: prod.splits)
next
  case (DbRpush k x)
  with db_rpush_ok [OF rep cap, of now g k x 0] show ?thesis by (auto simp: db_step_def split: prod.splits)
next
  case (DbLrange k i j)
  with adm have "small_lists m" "INT_MIN \<le> i" "i \<le> INT_MAX" "INT_MIN \<le> j" "j \<le> INT_MAX"
    by (auto simp: admissible_def)
  from db_lrange_ok [OF rep this, of now k] obtain r db' where
    r: "redis_db_lrange now db k i j = Inr (fst (range_keyspace now k i j m), r,
         int (length (snd (range_keyspace now k i j m))), db')"
    "case r of None \<Rightarrow> snd (range_keyspace now k i j m) = []
       | Some ys \<Rightarrow> ys = snd (range_keyspace now k i j m)"
    "db_rep p db' (purge now k m)" by blast
  with DbLrange db_rep_mono [OF r(3), of "Suc p"] show ?thesis
    by (cases r) (auto simp: db_step_def split: prod.splits)
next
  case DbSize
  with db_dbsize_ok [OF rep] cap db_rep_mono [OF rep, of "Suc p"] show ?thesis by (simp add: db_step_def)
qed

interpretation db: key_space db_rep store_cap data_rep "db_step g" for g
  by unfold_locales (rule db_step_ok)

section \<open>Properties\<close>

text \<open>
  C7 (refinement): starting from a fresh database, any sequence of fewer than \<open>2 ^ 29\<close> set, get,
  exist, delete, push, range and size operations, each at its own time, ends without fault and
  returns what the abstract key space returns: an expired key is removed by the read that meets it,
  a push to a string reports the type mismatch, and \<^verbatim>\<open>key_count\<close> is the number of keys.
\<close>

theorem db_follows_keyspace:
  assumes "redis_db_create True = Some db" "length ops \<le> store_cap" "admissible_run Map.empty ops"
  shows "\<exists>ys db'. exec_ops (db_step g) db ops = Inr (ys, db') \<and>
    list_all2 (out_matches data_rep) ys (fst (keyspace_run Map.empty ops)) \<and>
    unat (redis_db_dbsize db') = card (dom (snd (keyspace_run Map.empty ops)))"
  using db.run_follows_keyspace [OF db_create_rep [OF assms(1)], of ops g] assms(2,3) db_dbsize_ok
  by fastforce

theorem db_follows_keyspace_witness:
  "\<exists>ys db'. exec_ops (db_step 77) \<lparr>dbh = kh_init, key_count = 0, expiry_count = 0\<rparr>
       [(5, DbSet ''k'' ''v'' 10), (9, DbGet ''k''), (11, DbGet ''k''), (12, DbRpush ''l'' ''a''),
        (12, DbLpush ''l'' ''b''), (13, DbLrange ''l'' 0 (-1)), (13, DbSize)] = Inr (ys, db') \<and>
     list_all2 (out_matches data_rep) ys
       [Done, Value (Some (AStr ''v'')), Value None, Pushed 0 1, Pushed 0 2, Ranged 0 [''b'', ''a''], Size 1]"
proof -
  let ?ops = "[(5, DbSet ''k'' ''v'' 10), (9, DbGet ''k''), (11, DbGet ''k''), (12, DbRpush ''l'' ''a''),
        (12, DbLpush ''l'' ''b''), (13, DbLrange ''l'' 0 (-1)), (13, DbSize)] :: (int \<times> db_op) list"
  have run: "fst (keyspace_run Map.empty ?ops) =
      [Done, Value (Some (AStr ''v'')), Value None, Pushed 0 1, Pushed 0 2, Ranged 0 [''b'', ''a''], Size 1]"
    by (simp add: purge_def expired_def push_keyspace_def range_keyspace_def lrange_spec_def
        int_of_size_def Let_def dom_def)
  have "admissible_run Map.empty ?ops"
    by (simp add: admissible_def small_lists_def purge_def expired_def push_keyspace_def c_limits Let_def)
  from db_follows_keyspace [OF _ _ this, of "\<lparr>dbh = kh_init, key_count = 0, expiry_count = 0\<rparr>" 77]
  show ?thesis unfolding run by (auto simp: redis_db_create_def store_cap_def)
qed

text \<open>What a live bucket of a database holds.\<close>

lemma live_entry:
  assumes rep: "db_rep p db m" and i: "i \<in> live (dbh db)"
  shows "\<exists>k v a. keys (dbh db) ! i = Some k \<and> vals (dbh db) ! i = Some v \<and> m k = Some a \<and> val_rep v a"
proof -
  have tab: "kh_tab p (dbh db)" and wf: "kh_wf (dbh db)" using rep by (auto simp: db_rep_def kh_tab_def)
  obtain k where k: "keys (dbh db) ! i = Some k" "kh_find (dbh db) k = Some i"
    using i wf live_less [OF i] by (auto simp: kh_wf_def table_ok_def reachable_slot_def kh_find_wf [OF wf])
  then have map: "kh_map (dbh db) k = vals (dbh db) ! i" "kh_map (dbh db) k \<noteq> None"
    using kh_map_dom [OF tab, of k] by (auto simp: kh_map_def kh_lookup_def)
  moreover have "rel_option val_rep (kh_map (dbh db) k) (m k)" using rep by (simp add: db_rep_def)
  ultimately show ?thesis using k(1) by (cases "kh_map (dbh db) k"; cases "m k") auto
qed

lemma slot_of_key:
  assumes rep: "db_rep p db m" and k: "k \<in> dom m"
  shows "\<exists>i \<in> live (dbh db). keys (dbh db) ! i = Some k"
proof -
  have wf: "kh_wf (dbh db)" using rep by (auto simp: db_rep_def kh_tab_def)
  have "k \<in> dom (kh_map (dbh db))" using k db_rep_dom(2) [OF rep] by simp
  then show ?thesis using kh_find_wf [OF wf] by (auto simp: kh_map_def split: option.splits)
qed

lemma slot_key_inj:
  assumes rep: "db_rep p db m"
  shows "inj_on (\<lambda>i. the (keys (dbh db) ! i)) (live (dbh db))"
proof -
  have wf: "kh_wf (dbh db)" using rep by (auto simp: db_rep_def kh_tab_def)
  show ?thesis by (rule inj_onI) (metis live_entry [OF rep] kh_wf_inj [OF wf] inj_onD option.sel)
qed

definition entry_blocks :: "keyspace \<Rightarrow> string \<Rightarrow> db_block list" where
  "entry_blocks m k = Key_Block k # (case m k of None \<Rightarrow> [] | Some (a, _) \<Rightarrow> data_blocks k a)"

lemma destroy_ok:
  assumes rep: "db_rep p db m"
  shows "\<exists>ks. redis_db_destroy (Some db) = Inr (concat (map (entry_blocks m) ks) @ map Table (kh_destroy (Some (dbh db))) @ [Db_Struct]) \<and>
    distinct ks \<and> set ks = dom m"
proof -
  let ?h = "dbh db" and ?key = "\<lambda>i. the (keys (dbh db) ! i)"
  have "free_slots ?h ks = Inr (concat (map (entry_blocks m) (map ?key ks)))" if "set ks \<subseteq> live ?h" for ks
    using that
  proof (induction ks)
    case (Cons i ks)
    then obtain k v a e where "keys ?h ! i = Some k" "vals ?h ! i = Some v" "data_rep (rdata v) a" "m k = Some (a, e)"
      using live_entry [OF rep, of i] by (force simp: val_rep_def)
    with Cons show ?case by (simp add: free_value_ok entry_blocks_def)
  qed simp
  then have "redis_db_destroy (Some db) =
      Inr (concat (map (entry_blocks m) (map ?key (kh_slots ?h))) @ map Table (kh_destroy (Some ?h)) @ [Db_Struct])"
    by (simp add: redis_db_destroy_def destroy_redis_hash_def set_kh_slots)
  moreover have "distinct (map ?key (kh_slots ?h))"
    using slot_key_inj [OF rep] by (simp add: distinct_map set_kh_slots) (simp add: kh_slots_def)
  moreover have "?key ` live ?h = dom m"
  proof (rule set_eqI)
    show "k \<in> ?key ` live ?h \<longleftrightarrow> k \<in> dom m" for k using live_entry [OF rep] slot_of_key [OF rep] by (force simp: image_iff)
  qed
  ultimately show ?thesis by (metis set_kh_slots set_map)
qed

text \<open>
  C26 (safety): destroying a database frees, for every key exactly once, the key string, the string or the
  list under it (no node of the list is left) and the structure of the value, then the three arrays and
  the structure of the table and last the structure of the database, without touching freed or unset
  memory.
\<close>

theorem db_destroy_frees_all:
  assumes "db_rep p db m"
  shows "\<exists>ks. redis_db_destroy (Some db) = Inr (concat (map (entry_blocks m) ks) @ map Table (kh_destroy (Some (dbh db))) @ [Db_Struct]) \<and>
    distinct ks \<and> set ks = dom m"
  using assms by (rule destroy_ok)

theorem db_destroy_frees_all_witness:
  "\<exists>db. redis_db_lpush 0 0 \<lparr>dbh = kh_init, key_count = 0, expiry_count = 0\<rparr> ''l'' ''a'' 0 = Inr (0, 1, db) \<and>
     redis_db_destroy (Some db) = Inr [Key_Block ''l'', List_Block ''l'' Map.empty, Value_Block ''l'',
       Table Keys_Array, Table Flags_Array, Table Vals_Array, Table Table_Struct, Db_Struct]"
proof -
  let ?m = "[''l'' \<mapsto> (AList [''a''], -1)] :: keyspace"
  have "db_rep 0 \<lparr>dbh = kh_init, key_count = 0, expiry_count = 0\<rparr> Map.empty"
    by (rule db_create_rep) (simp add: redis_db_create_def)
  from db_lpush_ok [OF this, of 0 0 "''l''" "''a''" 0] obtain db where
    db: "redis_db_lpush 0 0 \<lparr>dbh = kh_init, key_count = 0, expiry_count = 0\<rparr> ''l'' ''a'' 0 = Inr (0, 1, db)"
    "db_rep 1 db ?m"
    by (auto simp: store_cap_def push_keyspace_def purge_def int_of_size_def Let_def)
  from db_destroy_frees_all [OF db(2)] obtain ks where
    ks: "redis_db_destroy (Some db) = Inr (concat (map (entry_blocks ?m) ks) @ map Table (kh_destroy (Some (dbh db))) @ [Db_Struct])"
    "distinct ks" "set ks = {''l''}" by (auto simp del: concat_map_singleton)
  then have "ks = [''l'']" by (cases ks; cases "tl ks") auto
  with db(1) ks(1) show ?thesis by (simp add: kh_destroy_def entry_blocks_def)
qed

text \<open>
  C38 (error): \<^verbatim>\<open>expiry_count\<close> is not a count.  Overwriting a key that had no expiration with one
  that has does not increment it, the read that meets the expired key decrements it, and the
  unsigned counter wraps to \<open>2 ^ 64 - 1\<close> on an empty database.
\<close>

theorem expiry_count_wraps:
  assumes create: "redis_db_create True = Some db" and e: "0 < e" "e < now"
  shows "\<exists>db1 db2 db3. redis_db_set db k (Str s) 0 = Inr db1 \<and> redis_db_set db1 k (Str t) e = Inr db2 \<and>
    redis_db_get now db2 k = Inr (None, db3) \<and> redis_db_dbsize db3 = 0 \<and>
    unat (redis_db_expiry_count db3) = 2 ^ 64 - 1"
proof -
  have rep: "db_rep 0 db Map.empty" and ec: "expiry_count db = 0"
    using db_create_rep [OF create] create by (auto simp: redis_db_create_def)
  from db_set_raw [OF rep, of k "Str s" 0] db_set_ok [OF rep, of "Str s" "AStr s" k 0] obtain db1 where
    db1: "redis_db_set db k (Str s) 0 = Inr db1" "expiry_count db1 = 0" "db_rep 1 db1 [k \<mapsto> (AStr s, 0)]"
    by (auto simp: store_cap_def redis_db_set_def ec)
  from db_set_raw [OF db1(3), of k "Str t" e] db_set_ok [OF db1(3), of "Str t" "AStr t" k e] obtain db2 where
    db2: "redis_db_set db1 k (Str t) e = Inr db2" "expiry_count db2 = 0" "db_rep (Suc 1) db2 [k \<mapsto> (AStr t, e)]"
    by (auto simp: store_cap_def redis_db_set_def db1(2))
  have tab: "kh_tab (Suc 1) (dbh db2)" using db2(3) by (simp add: db_rep_def)
  from db2(3) have "rel_option val_rep (kh_map (dbh db2) k) (Some (AStr t, e))"
    unfolding db_rep_def by (metis fun_upd_same)
  then obtain v where v: "kh_map (dbh db2) k = Some v" "expiration v = e"
    by (cases "kh_map (dbh db2) k") (auto simp: val_rep_def)
  from db_remove_rep [OF db2(3), of k "(AStr t, e)"] obtain h where
    h: "kh_remove (dbh db2) k = Inr (True, h)" by auto
  have "key_count db2 = 1" using db2(3) by (simp add: db_rep_def)
  with db1(1) db2(1,2) show ?thesis
    using v e h kh.fetch_ok [OF tab, of k]
    by (simp add: redis_db_get_def db_get_eq redis_db_dbsize_def redis_db_expiry_count_def
        unsigned_minus_1_eq_mask mask_eq_exp_minus_1)
qed

theorem expiry_count_wraps_witness:
  "\<exists>db db1 db2 db3. redis_db_create True = Some db \<and> redis_db_set db ''k'' (Str ''a'') 0 = Inr db1 \<and>
    redis_db_set db1 ''k'' (Str ''b'') 5 = Inr db2 \<and> redis_db_get 6 db2 ''k'' = Inr (None, db3) \<and>
    unat (redis_db_expiry_count db3) = 2 ^ 64 - 1"
  using expiry_count_wraps [of "\<lparr>dbh = kh_init, key_count = 0, expiry_count = 0\<rparr>" 5 6 "''k''" "''a''" "''b''"]
  by (auto simp: redis_db_create_def)

end
