(* ===== verification/Command_Spec.thy ===== *)
theory Command_Spec
  imports Command_Handler Keyspace
begin

text \<open>
  What the commands promise, on the abstract key space: \<open>command_spec\<close> gives the replies of a command
  and the key space after it, and the lemmas show that the handlers of \<^verbatim>\<open>commands.c\<close> and the dispatch
  of \<^verbatim>\<open>command_handler.c\<close> compute it.  A command that the code answers with undefined behaviour (a list
  read as a string, an overflow) has no specified result.
\<close>

section \<open>Specification\<close>

abbreviation wrong_type :: reply where
  "wrong_type \<equiv> Error_Reply ''ERR Operation against a key holding the wrong kind of value''"

abbreviation arity_error :: "string \<Rightarrow> reply" where
  "arity_error name \<equiv> Error_Reply (''ERR wrong number of arguments for '' @ [CHR 0x27] @ name @ [CHR 0x27] @ '' command'')"

definition set_spec :: "int \<Rightarrow> keyspace \<Rightarrow> string \<Rightarrow> string \<Rightarrow> string list \<Rightarrow> (reply \<times> keyspace) option" where
  "set_spec t m k v options =
     (case parse_set_options t options no_options of
        Inl _ \<Rightarrow> None
      | Inr (rc, opts) \<Rightarrow>
          if rc = ERR_SYNTAX then Some (Error_Reply ''ERR syntax error'', m)
          else if rc = ERR_VALUE then Some (Error_Reply ''ERR value is not an integer or out of range'', m)
          else if opt_expiration opts < 0 then
            Some (Error_Reply ''ERR expiration must be a non-negative integer'', m)
          else
            let look = nx opts \<or> xx opts \<or> opt_get opts \<or> keepttl opts;
                m = (if look then purge t k m else m);
                old = (if look then m k else None);
                ex = (case old of Some (_, ex) \<Rightarrow> if keepttl opts then ex else opt_expiration opts
                                | None \<Rightarrow> opt_expiration opts);
                m' = m(k \<mapsto> (AStr v, ex))
            in
            if nx opts \<and> old \<noteq> None \<or> xx opts \<and> old = None then Some (Null_Reply, m)
            else if \<not> opt_get opts then Some (Simple_Reply ''OK'', m')
            else
              (case old of
                 None \<Rightarrow> Some (Null_Reply, m')
               | Some (AStr s, _) \<Rightarrow> Some (Bulk_Reply s, m')
               | Some (AList _, _) \<Rightarrow> None))"

definition get_spec :: "int \<Rightarrow> keyspace \<Rightarrow> string \<Rightarrow> reply \<times> keyspace" where
  "get_spec t m k =
     (case purge t k m k of
        None \<Rightarrow> Null_Reply
      | Some (AStr s, _) \<Rightarrow> Bulk_Reply s
      | Some (AList _, _) \<Rightarrow> wrong_type, purge t k m)"

definition incr_spec :: "int \<Rightarrow> keyspace \<Rightarrow> string \<Rightarrow> int \<Rightarrow> (reply \<times> keyspace) option" where
  "incr_spec t m k i =
     (let m = purge t k m;
          add = (\<lambda>v. if LONG_MIN \<le> v + i \<and> v + i \<le> LONG_MAX
                 then Some (Integer_Reply (int_of_long (v + i)), m(k \<mapsto> (AStr (show_int (v + i)), 0)))
                 else None)
      in
      case m k of
        None \<Rightarrow> add 0
      | Some (AStr s, _) \<Rightarrow>
          (case parse_integer s 0 of (rc, v) \<Rightarrow>
             if rc = ERR_VALUE then Some (Error_Reply ''ERR value is not an integer'', m) else add v)
      | Some (AList _, _) \<Rightarrow> None)"

definition push_spec_all :: "bool \<Rightarrow> int \<Rightarrow> keyspace \<Rightarrow> string \<Rightarrow> string list \<Rightarrow> reply \<times> keyspace" where
  \<comment> \<open>\<open>left\<close>: the elements go to the head one after the other, so the last one ends up first.\<close>
  "push_spec_all left t m k xs =
     (let m = purge t k m;
          add = (\<lambda>ys ex. (let zs = (if left then rev xs @ ys else ys @ xs) in
                 (Integer_Reply (int_of_size (of_nat (length zs))), m(k \<mapsto> (AList zs, ex)))))
      in
      case m k of
        None \<Rightarrow> add [] (if left then -1 else 0)
      | Some (AList ys, ex) \<Rightarrow> add ys ex
      | Some (AStr _, _) \<Rightarrow> (wrong_type, m))"

definition lrange_cmd_spec :: "int \<Rightarrow> keyspace \<Rightarrow> string \<Rightarrow> string \<Rightarrow> string \<Rightarrow> reply \<times> keyspace" where
  "lrange_cmd_spec t m k a b =
     (let i = int_of_long (snd (parse_integer a 0)); j = int_of_long (snd (parse_integer b 0)) in
      (case purge t k m k of
         None \<Rightarrow> Array_Reply []
       | Some (AStr _, _) \<Rightarrow> wrong_type
       | Some (AList xs, _) \<Rightarrow> Array_Reply (lrange_spec xs i j), purge t k m))"

definition config_spec :: "server \<Rightarrow> string list \<Rightarrow> reply" where
  "config_spec s ps =
     (if set ps \<subseteq> {''dir'', ''dbfilename''}
      then Array_Reply (concat (map (\<lambda>p. [p, if p = ''dir'' then cfg_dir s else cfg_dbfilename s]) ps))
      else Error_Reply ''ERR Unknown config parameter'')"

definition command_spec ::
  "int \<Rightarrow> server \<Rightarrow> keyspace \<Rightarrow> CommandType \<Rightarrow> string list \<Rightarrow> (reply list \<times> keyspace) option" where
  "command_spec t s m c as =
     (let one = map_option (\<lambda>(r, m). ([r], m)); n = length as in
      case c of
        CMD_PING \<Rightarrow>
          Some ([if n = 0 then Simple_Reply ''PONG'' else if n = 1 then Simple_Reply (as ! 0)
                 else arity_error ''ping''], m)
      | CMD_ECHO \<Rightarrow> Some ([if n = 1 then Simple_Reply (as ! 0) else arity_error ''echo''], m)
      | CMD_SET \<Rightarrow>
          if n < 2 then Some ([arity_error ''set''], m) else one (set_spec t m (as ! 0) (as ! 1) (drop 2 as))
      | CMD_GET \<Rightarrow> if n \<noteq> 1 then Some ([arity_error ''get''], m) else one (Some (get_spec t m (as ! 0)))
      | CMD_EXIST \<Rightarrow>
          if n < 1 then Some ([arity_error ''exist''], m)
          else Some ([Integer_Reply (int (length (filter (\<lambda>k. m k \<noteq> None) as)))], m)
      | CMD_DEL \<Rightarrow>
          if n < 1 then Some ([arity_error ''delete''], m) else Some ([Simple_Reply ''OK''], m |` (- set as))
      | CMD_INCR \<Rightarrow> if n < 1 then Some ([arity_error ''incr/decr''], m) else one (incr_spec t m (as ! 0) 1)
      | CMD_DECR \<Rightarrow> if n < 1 then Some ([arity_error ''incr/decr''], m) else one (incr_spec t m (as ! 0) (-1))
      | CMD_LPUSH \<Rightarrow>
          if n < 2 then Some ([arity_error ''lpush''], m)
          else one (Some (push_spec_all True t m (as ! 0) (drop 1 as)))
      | CMD_RPUSH \<Rightarrow>
          if n < 2 then Some ([arity_error ''rpush''], m)
          else one (Some (push_spec_all False t m (as ! 0) (drop 1 as)))
      | CMD_LRANGE \<Rightarrow>
          if n < 3 then Some ([arity_error ''rpush''], m)
          else one (Some (lrange_cmd_spec t m (as ! 0) (as ! 1) (as ! 2)))
      | CMD_CONFIG \<Rightarrow>
          if n < 2 then Some ([arity_error ''config get''], m)
          else Some (if as ! 0 = ''GET'' then [config_spec s (drop 1 as)] else [], m)
      | CMD_DBSIZE \<Rightarrow> Some ([Integer_Reply (int (card (dom m)))], m)
      | CMD_UNKNOWN \<Rightarrow> Some ([Error_Reply ''ERR unknown command''], m)
      | _ \<Rightarrow> None)"

section \<open>Replying\<close>

definition done_with :: "CommandHandler \<Rightarrow> ring_buffer \<Rightarrow> redis_db \<Rightarrow> CommandHandler" where
  "done_with ch rb d = ch\<lparr>srv := (srv ch)\<lparr>db := d\<rparr>, client := (client ch)\<lparr>output_buffer := rb\<rparr>\<rparr>"

text \<open>\<open>answers ch r rs d\<close>: the outcome \<open>r\<close> is \<open>ch\<close> with the replies sent and the database \<open>d\<close>.\<close>

definition answers :: "CommandHandler \<Rightarrow> CommandHandler res \<Rightarrow> reply list \<Rightarrow> redis_db \<Rightarrow> bool" where
  "answers ch r rs d \<longleftrightarrow>
     (\<exists>rb. r = Inr (done_with ch rb d) \<and>
        appends (output_buffer (client ch)) (concat (map encode_reply rs)) rb)"

definition room :: "CommandHandler \<Rightarrow> reply list \<Rightarrow> bool" where
  "room ch rs \<longleftrightarrow> sink_ready (output_buffer (client ch)) (Suc (length (concat (map encode_reply rs))))"

lemma set_db_the_db [simp]: "set_db ch (the_db ch) = ch"
  by (simp add: set_db_def)

lemma set_db_simps [simp]: "the_db (set_db ch d) = d" "set_db (set_db ch d) d' = set_db ch d'"
  "client (set_db ch d) = client ch" "args (set_db ch d) = args ch"
  by (simp_all add: set_db_def)

lemma reply_answers:
  assumes "room ch [r]" "reply_in_range r"
  shows "answers ch (reply (set_db ch d) (\<lambda>rb. send_reply rb r)) [r] d"
  using send_reply_ok [of "output_buffer (client ch)" r] assms
  by (auto simp: room_def answers_def reply_def set_db_def done_with_def)

lemma reply_kinds:
  assumes "room ch [r]" "reply_in_range r"
  shows "r = Simple_Reply s \<Longrightarrow> answers ch (reply (set_db ch d) (\<lambda>rb. add_simple_string_reply rb s)) [r] d"
    "r = Error_Reply s \<Longrightarrow> answers ch (reply (set_db ch d) (\<lambda>rb. add_error_reply rb s)) [r] d"
    "r = Integer_Reply i \<Longrightarrow> answers ch (reply (set_db ch d) (\<lambda>rb. add_integer_reply rb i)) [r] d"
    "r = Bulk_Reply s \<Longrightarrow> answers ch (reply (set_db ch d) (\<lambda>rb. add_bulk_string_reply rb s)) [r] d"
    "r = Null_Reply \<Longrightarrow> answers ch (reply (set_db ch d) add_null_reply) [r] d"
    "r = Array_Reply xs \<Longrightarrow> answers ch (reply (set_db ch d) (\<lambda>rb. add_array_reply rb (Some xs) (int (length xs)))) [r] d"
  using reply_answers [OF assms, of d] by auto

lemma reply_if_on [simp]: "should_reply (client ch) \<Longrightarrow> reply_if (set_db ch d) f = reply (set_db ch d) f"
  "should_reply (client ch) \<Longrightarrow> reply_if ch f = reply ch f"
  by (simp_all add: reply_if_def)

lemmas reply_here = reply_kinds [where ch = ch and d = "the_db ch" for ch, unfolded set_db_the_db]

section \<open>Commands\<close>

text \<open>The lists of a key space are bounded; a command adds at most one element per argument.\<close>

definition lists_le :: "nat \<Rightarrow> keyspace \<Rightarrow> bool" where
  "lists_le n m \<longleftrightarrow> (\<forall>k xs ex. m k = Some (AList xs, ex) \<longrightarrow> length xs \<le> n)"

definition represents :: "nat \<Rightarrow> redis_db \<Rightarrow> keyspace \<Rightarrow> bool" where
  "represents p d m \<longleftrightarrow> db_rep p d m \<and> lists_le p m"

lemma lists_le_upd [simp]:
  "lists_le n m \<Longrightarrow> lists_le n (m(k \<mapsto> (AStr s, ex)))"
  "lists_le n m \<Longrightarrow> length xs \<le> n \<Longrightarrow> lists_le n (m(k \<mapsto> (AList xs, ex)))"
  "lists_le n m \<Longrightarrow> lists_le n (purge t k m)"
  "lists_le n m \<Longrightarrow> lists_le n (m |` A)"
  "lists_le n m \<Longrightarrow> n \<le> n' \<Longrightarrow> lists_le n' m"
  by (auto simp: lists_le_def purge_def restrict_map_def dest: le_trans split: option.splits if_splits)

lemma lists_le_small: "lists_le n m \<Longrightarrow> n \<le> store_cap \<Longrightarrow> small_lists m"
  by (fastforce simp: lists_le_def small_lists_def store_cap_def c_limits)

lemma int_of_size_range: "INT_MIN \<le> int_of_size x" "int_of_size x \<le> INT_MAX"
  using signed_take_bit_int_less_exp [of 31 "uint x"] signed_take_bit_int_greater_eq_minus_exp [of 31 "uint x"]
  by (simp_all add: int_of_size_def c_limits)

lemma int_of_long_range: "INT_MIN \<le> int_of_long x" "int_of_long x \<le> INT_MAX"
  using signed_take_bit_int_less_exp [of 31 x] signed_take_bit_int_greater_eq_minus_exp [of 31 x]
  by (simp_all add: int_of_long_def c_limits)



text \<open>\<open>commits p ch r rs m\<close>: the outcome sends \<open>rs\<close> and leaves a database that stands for \<open>m\<close>.\<close>

definition commits :: "nat \<Rightarrow> CommandHandler \<Rightarrow> CommandHandler res \<Rightarrow> reply list \<Rightarrow> keyspace \<Rightarrow> bool" where
  "commits p ch r rs m \<longleftrightarrow> (\<exists>d. answers ch r rs d \<and> represents p d m)"

lemma represents_get:
  assumes "represents p d m"
  obtains v d' where "redis_db_get t d k = Inr (v, d')" "represents p d' (purge t k m)"
    "rel_option val_rep v (purge t k m k)"
  using db_get_ok [of p d m t k] assms by (auto simp: represents_def)

lemma represents_set:
  assumes "represents p d m" "p < store_cap"
  obtains d' where "redis_db_set d k (Str v) ex = Inr d'" "represents (Suc p) d' (m(k \<mapsto> (AStr v, ex)))"
  using db_set_ok [of p d m "Str v" "AStr v" k ex] assms
  by (auto simp: represents_def intro: lists_le_upd(5) [of p])

lemma represents_mono: "represents p d m \<Longrightarrow> p \<le> q \<Longrightarrow> represents q d m"
  by (auto simp: represents_def intro: db_rep_mono)

lemma val_rep_cases:
  assumes "rel_option val_rep v a"
  obtains (None) "v = None" "a = None"
  | (Str) w s where "v = Some w" "rdata w = Str s" "a = Some (AStr s, expiration w)"
  | (Lst) w L xs where "v = Some w" "rdata w = Lst L" "a = Some (AList xs, expiration w)" "list_rep L xs"
proof (cases v)
  case None
  with assms that(1) show thesis by simp
next
  case (Some w)
  with assms obtain x ex where "a = Some (x, ex)" "data_rep (rdata w) x" "ex = expiration w"
    by (cases a) (auto simp: val_rep_def)
  with Some that(2,3) show thesis by (cases x; cases "rdata w") auto
qed

lemma answers_get:
  assumes rep: "represents p (the_db ch) m" and out: "should_reply (client ch)"
    and as: "args ch = [c, k]" and room: "room ch [fst (get_spec (now e) m k)]"
  shows "commits p ch (handle_get e ch) [fst (get_spec (now e) m k)] (snd (get_spec (now e) m k))"
proof -
  from rep obtain v d where
    get: "redis_db_get (now e) (the_db ch) k = Inr (v, d)" "represents p d (purge (now e) k m)"
    "rel_option val_rep v (purge (now e) k m k)" by (rule represents_get)
  from get(3) have "answers ch (handle_get e ch) [fst (get_spec (now e) m k)] d"
    by (cases rule: val_rep_cases)
      (use as out room in \<open>simp_all add: handle_get_def get(1) get_spec_def reply_kinds\<close>)
  with get(2) show ?thesis by (auto simp: commits_def get_spec_def)
qed

text \<open>SET looks the key up only when an option asks for it.\<close>

lemma represents_lookup:
  assumes "represents p d m"
  obtains v d' where "(if look then redis_db_get t d k else Inr (None, d)) = Inr (v, d')"
    "represents p d' (if look then purge t k m else m)"
    "rel_option val_rep v (if look then purge t k m k else None)"
  using assms represents_get [OF assms, of t k] by (cases look) auto

lemma answers_error: "represents p (the_db ch) m \<Longrightarrow> room ch [Error_Reply s] \<Longrightarrow>
    commits p ch (reply ch (\<lambda>rb. add_error_reply rb s)) [Error_Reply s] m"
  using reply_here(2) by (auto simp: commits_def)

lemma commits_mono: "commits p ch r rs m \<Longrightarrow> p \<le> q \<Longrightarrow> commits q ch r rs m"
  by (auto simp: commits_def intro: represents_mono)

lemma commitsI: "answers ch r rs d \<Longrightarrow> represents p d m \<Longrightarrow> commits p ch r rs m"
  by (auto simp: commits_def)

lemma answers_set_ok:
  assumes rep: "represents p (the_db ch) m" "p < store_cap" and out: "should_reply (client ch)"
    and as: "args ch = c # k # v # options"
    and opts: "parse_set_options (now e) options no_options = Inr (rc, opts)"
    and rc: "rc \<noteq> ERR_SYNTAX" "rc \<noteq> ERR_VALUE" "\<not> opt_expiration opts < 0"
    and spec: "set_spec (now e) m k v options = Some (r, m')" and room: "room ch [r]"
  shows "commits (Suc p) ch (handle_set e ch) [r] m'"
proof -
  define look where "look = (nx opts \<or> xx opts \<or> opt_get opts \<or> keepttl opts)"
  define m1 where "m1 = (if look then purge (now e) k m else m)"
  define old where "old = (if look then m1 k else None)"
  have old_eq: "old = (if look then purge (now e) k m k else None)" by (simp add: old_def m1_def)
  from rep(1) obtain x d where
    look: "(if look then redis_db_get (now e) (the_db ch) k else Inr (None, the_db ch)) = Inr (x, d)"
    and d: "represents p d m1" and rel: "rel_option val_rep x old"
    unfolding old_eq m1_def by (rule represents_lookup)
  define ex where "ex = (case old of Some (_, ex) \<Rightarrow> if keepttl opts then ex else opt_expiration opts
                                | None \<Rightarrow> opt_expiration opts)"
  from d rep(2) obtain d' where
    set: "redis_db_set d k (Str v) ex = Inr d'" "represents (Suc p) d' (m1(k \<mapsto> (AStr v, ex)))"
    by (rule represents_set)
  have x: "x = None \<longleftrightarrow> old = None"
    "(case x of Some v \<Rightarrow> if keepttl opts then expiration v else opt_expiration opts
        | None \<Rightarrow> opt_expiration opts) = ex"
    using rel by (cases rule: val_rep_cases; simp add: ex_def)+
  have spec': "(if nx opts \<and> old \<noteq> None \<or> xx opts \<and> old = None then Some (Null_Reply, m1)
      else if \<not> opt_get opts then Some (Simple_Reply ''OK'', m1(k \<mapsto> (AStr v, ex)))
      else case old of None \<Rightarrow> Some (Null_Reply, m1(k \<mapsto> (AStr v, ex)))
         | Some (AStr s, _) \<Rightarrow> Some (Bulk_Reply s, m1(k \<mapsto> (AStr v, ex)))
         | Some (AList _, _) \<Rightarrow> None) = Some (r, m')"
    using spec [unfolded set_spec_def opts Let_def sum.case prod.case, folded look_def, folded m1_def,
        folded old_def, folded ex_def] rc by simp
  have run: "handle_set e ch =
      (if nx opts \<and> old \<noteq> None \<or> xx opts \<and> old = None then reply (set_db ch d) add_null_reply
       else rbind (case x of
                     Some v \<Rightarrow> if opt_get opts then rbind (data_str v) (\<lambda>s. Inr (Some s)) else Inr None
                   | None \<Rightarrow> Inr None) (\<lambda>old_value.
         if opt_get opts then
           (case old_value of
              Some s \<Rightarrow> reply_if (set_db ch d') (\<lambda>rb. add_bulk_string_reply rb s)
            | None \<Rightarrow> reply_if (set_db ch d') add_null_reply)
         else reply_if (set_db ch d') (\<lambda>rb. add_simple_string_reply rb ''OK'')))"
    using as opts rc out
    by (simp add: handle_set_def look [unfolded look_def] Let_def x set(1) del: not_None_eq)
  show ?thesis
  proof (cases "nx opts \<and> old \<noteq> None \<or> xx opts \<and> old = None")
    case True
    with run spec' room reply_kinds(5) [of ch r d] have "answers ch (handle_set e ch) [r] d" "m' = m1" by auto
    with d show ?thesis by (auto intro: commitsI commits_mono)
  next
    case False
    with rel spec' run room out reply_kinds [where ch = ch and r = r and d = d'] have "answers ch (handle_set e ch) [r] d'" "m' = m1(k \<mapsto> (AStr v, ex))"
      by (cases rule: val_rep_cases; auto simp: data_str_def split: if_splits)+
    with set(2) show ?thesis by (auto intro: commitsI)
  qed
qed

lemma answers_set:
  assumes rep: "represents p (the_db ch) m" "p < store_cap" and out: "should_reply (client ch)"
    and as: "args ch = c # k # v # options"
    and spec: "set_spec (now e) m k v options = Some (r, m')" and room: "room ch [r]"
  shows "commits (Suc p) ch (handle_set e ch) [r] m'"
proof -
  from spec obtain rc opts where opts: "parse_set_options (now e) options no_options = Inr (rc, opts)"
    by (auto simp: set_spec_def split: sum.splits)
  show ?thesis
  proof (cases "rc = ERR_SYNTAX \<or> rc = ERR_VALUE \<or> opt_expiration opts < 0")
    case True
    with answers_error [OF rep(1)] opts as out spec room have "commits p ch (handle_set e ch) [r] m'"
      by (auto simp: handle_set_def set_spec_def split: if_splits)
    then show ?thesis by (rule commits_mono) simp
  next
    case False
    with answers_set_ok [OF assms(1-4) opts _ _ _ spec room] show ?thesis by simp
  qed
qed

lemma count_existing_ok:
  "represents p d m \<Longrightarrow> count_existing d ks = Inr (int (length (filter (\<lambda>k. m k \<noteq> None) ks)))"
  by (induction ks) (auto simp: db_exist_ok represents_def)

lemma delete_all_ok: "represents p d m \<Longrightarrow> \<exists>d'. delete_all d ks = Inr d' \<and> represents p d' (m |` (- set ks))"
proof (induction ks arbitrary: d m)
  case (Cons k ks)
  then obtain d1 where d1: "redis_db_delete d k = Inr d1" "db_rep p d1 (m(k := None))"
    using db_delete_ok [of p d m k] by (auto simp: represents_def)
  have m: "m(k := None) = m |` (- {k})" by (auto simp: restrict_map_def)
  with d1(2) Cons.prems have "represents p d1 (m |` (- {k}))" by (simp add: represents_def)
  from Cons.IH [OF this] obtain d2 where
    "delete_all d1 ks = Inr d2" "represents p d2 (m |` (- {k} \<inter> - set ks))" by auto
  moreover have "- {k} \<inter> - set ks = - set (k # ks)" by auto
  ultimately show ?case using d1(1) by simp
qed (simp add: restrict_map_def)

lemma answers_exist:
  assumes "represents p (the_db ch) m" "args ch = c # k # ks" "int (length (k # ks)) \<le> INT_MAX"
    and "room ch [Integer_Reply (int (length (filter (\<lambda>k. m k \<noteq> None) (k # ks))))]"
  shows "commits p ch (handle_exist e ch) [Integer_Reply (int (length (filter (\<lambda>k. m k \<noteq> None) (k # ks))))] m"
proof -
  let ?n = "int (length (filter (\<lambda>k. m k \<noteq> None) (k # ks)))"
  have "length (filter (\<lambda>k. m k \<noteq> None) (k # ks)) \<le> length (k # ks)" by (rule length_filter_le)
  with assms(3) have "?n \<le> INT_MAX" by linarith
  then have "reply_in_range (Integer_Reply ?n)" by (simp add: c_limits)
  with reply_here(3) [OF assms(4)] have "answers ch (handle_exist e ch) [Integer_Reply ?n] (the_db ch)"
    using count_existing_ok [OF assms(1), of "k # ks"] assms(2) by (simp add: handle_exist_def del: filter.simps)
  with assms(1) show ?thesis by (auto intro: commitsI)
qed

lemma answers_delete:
  assumes "represents p (the_db ch) m" "args ch = c # k # ks" "room ch [Simple_Reply ''OK'']" "should_reply (client ch)"
  shows "commits p ch (handle_delete e ch) [Simple_Reply ''OK''] (m |` (- set (k # ks)))"
proof -
  from delete_all_ok [OF assms(1), of "k # ks"] obtain d where
    d: "delete_all (the_db ch) (k # ks) = Inr d" "represents p d (m |` (- set (k # ks)))" by blast
  then have "answers ch (handle_delete e ch) [Simple_Reply ''OK''] d"
    using assms reply_kinds(1) by (simp add: handle_delete_def del: delete_all.simps)
  with d(2) show ?thesis by (auto intro: commitsI)
qed

text \<open>A \<^verbatim>\<open>long\<close> has at most 20 characters, so the buffer of 21 holds it.\<close>

lemma long_text_fits:
  assumes "LONG_MIN \<le> i" "i \<le> LONG_MAX"
  shows "cstr (snprintf 21 (show_int i)) = show_int i"
proof -
  have digits: "length (show_nat n) \<le> 19" if "n < 10 ^ 19" for n
    using length_show_nat [of n 18] that by simp
  have "length (show_nat (nat i)) \<le> 19" "length (show_nat (nat (- i))) \<le> 19"
    using assms by (intro digits; simp add: c_limits)+
  then have "length (show_int i) < 21" by (simp add: show_int_def)
  then have "snprintf 21 (show_int i) = show_int i @ [NUL]" by (rule snprintf_fits)
  moreover have "nul_free (show_int i)"
    using show_nat_digits by (fastforce simp: show_int_def nul_free_def is_digit_def)
  ultimately show ?thesis by simp
qed

lemma answers_incr:
  assumes rep: "represents p (the_db ch) m" "p < store_cap" and out: "should_reply (client ch)"
    and as: "args ch = c # k # as"
    and spec: "incr_spec (now e) m k i = Some (r, m')" and room: "room ch [r]"
  shows "commits (Suc p) ch (handle_incr_decr e ch i) [r] m'"
proof -
  from rep(1) obtain x d where
    get: "redis_db_get (now e) (the_db ch) k = Inr (x, d)" "represents p d (purge (now e) k m)"
    "rel_option val_rep x (purge (now e) k m k)" by (rule represents_get)
  have add: "commits (Suc p) ch
      (rbind (redis_db_set d k (Str (show_int (v + i))) 0) (\<lambda>d.
         reply_if (set_db ch d) (\<lambda>rb. add_integer_reply rb (int_of_long (v + i))))) [r] m'"
    if r: "r = Integer_Reply (int_of_long (v + i))" and m': "m' = (purge (now e) k m)(k \<mapsto> (AStr (show_int (v + i)), 0))"
    for v
  proof -
    from get(2) rep(2) obtain d' where
      "redis_db_set d k (Str (show_int (v + i))) 0 = Inr d'" "represents (Suc p) d' m'"
      unfolding m' by (rule represents_set)
    then show ?thesis using r out room reply_kinds(3) [of ch r] by (auto intro!: commitsI simp: int_of_long_range)
  qed
  have nz: "ERR_VALUE \<noteq> 0" by (simp add: ERR_VALUE_def)
  note defs = nz handle_incr_decr_def incr_spec_def get(1) Let_def long_arith_def data_str_def
  from get(3) show ?thesis
  proof (cases rule: val_rep_cases)
    case None
    with spec as add [of 0] show ?thesis by (simp add: defs long_text_fits split: if_splits)
  next
    case (Str w s)
    obtain rc v where pi: "parse_integer s 0 = (rc, v)" by force
    show ?thesis
    proof (cases "rc = ERR_VALUE")
      case True
      with Str spec pi have r: "r = Error_Reply ''ERR value is not an integer''" and m': "m' = purge (now e) k m"
        by (simp_all add: incr_spec_def)
      have "handle_incr_decr e ch i = reply (set_db ch d) (\<lambda>rb. add_error_reply rb ''ERR value is not an integer'')"
        using True Str as out pi by (simp add: defs)
      with reply_kinds(2) [OF room _ r] r have "answers ch (handle_incr_decr e ch i) [r] d" by simp
      then have "commits p ch (handle_incr_decr e ch i) [r] m'" using get(2) unfolding m' by (rule commitsI)
      then show ?thesis by (rule commits_mono) simp
    next
      case False
      with Str spec as pi add [of v] show ?thesis by (simp add: defs long_text_fits split: if_splits)
    qed
  next
    case (Lst w L xs)
    with spec show ?thesis by (simp add: defs)
  qed
qed

section \<open>List commands\<close>

text \<open>The two push loops differ only in the push they call.\<close>

fun push_all ::
  "(redis_db \<Rightarrow> string \<Rightarrow> int \<Rightarrow> (int \<times> int \<times> redis_db) res) \<Rightarrow> redis_db \<Rightarrow> string list \<Rightarrow> int \<Rightarrow> (int \<times> int \<times> redis_db) res" where
  "push_all psh d [] out = Inr (0, out, d)"
| "push_all psh d (x # xs) out =
     rbind (psh d x out) (\<lambda>(rc, out, d).
       if rc = ERR_TYPE_MISMATCH then Inr (rc, out, d) else push_all psh d xs out)"

lemma lpush_all_eq:
  "lpush_all e d k xs out = push_all (\<lambda>d x out. redis_db_lpush (now e) (list_junk e) d k x out) d xs out"
  by (induction xs arbitrary: d out) (simp_all add: split_def cong: if_cong)

lemma rpush_all_eq:
  "rpush_all e d k xs out = push_all (\<lambda>d x out. redis_db_rpush (now e) (list_junk e) d k x out) d xs out"
  by (induction xs arbitrary: d out) (simp_all add: split_def cong: if_cong)

lemma purge_idem [simp]: "purge t k (purge t k m) = purge t k m"
  by (auto simp: purge_def split: option.split)

lemma purge_upd [simp]: "\<not> expired t (a, ex) \<Longrightarrow> purge t k (m(k \<mapsto> (a, ex))) = m(k \<mapsto> (a, ex))"
  by (simp add: purge_def)

lemma purge_live: "purge t k m k = Some a \<Longrightarrow> \<not> expired t a"
  by (auto simp: purge_def split: option.splits if_splits)

text \<open>What one push gives, for both ends: \<open>f x\<close> adds the element \<open>x\<close>.\<close>

definition pushes :: "(redis_db \<Rightarrow> string \<Rightarrow> int \<Rightarrow> (int \<times> int \<times> redis_db) res) \<Rightarrow>
    (string \<Rightarrow> string list \<Rightarrow> string list) \<Rightarrow> int \<Rightarrow> int \<Rightarrow> string \<Rightarrow> bool" where
  "pushes psh f e0 t k \<longleftrightarrow>
     (\<forall>p d m x out. db_rep p d m \<longrightarrow> p < store_cap \<longrightarrow>
        (\<exists>d'. psh d x out = Inr (fst (push_keyspace (f x) e0 t k m out),
                 fst (snd (push_keyspace (f x) e0 t k m out)), d') \<and>
              db_rep (Suc p) d' (snd (snd (push_keyspace (f x) e0 t k m out)))))"

lemma push_all_list:
  assumes psh: "pushes psh f e0 t k" and live: "\<not> expired t (AList [], ex)"
    and f: "\<And>x ys. length (f x ys) = Suc (length ys)"
  shows "db_rep p d (m(k \<mapsto> (AList ys, ex))) \<Longrightarrow> p + length xs \<le> store_cap \<Longrightarrow> xs \<noteq> [] \<Longrightarrow>
    \<exists>d'. push_all psh d xs out = Inr (0, int_of_size (of_nat (length xs + length ys)), d') \<and>
      db_rep (p + length xs) d' (m(k \<mapsto> (AList (fold f xs ys), ex)))"
proof (induction xs arbitrary: d p ys out)
  case (Cons x xs)
  have live': "\<not> expired t (AList zs, ex)" for zs using live by (simp add: expired_def)
  have pk: "push_keyspace (f x) e0 t k (m(k \<mapsto> (AList ys, ex))) out =
      (0, int_of_size (of_nat (Suc (length ys))), m(k \<mapsto> (AList (f x ys), ex)))"
    by (simp add: push_keyspace_def live' Let_def)
  from psh Cons.prems obtain d1 where d1:
    "psh d x out = Inr (0, int_of_size (of_nat (Suc (length ys))), d1)"
    "db_rep (Suc p) d1 (m(k \<mapsto> (AList (f x ys), ex)))"
    unfolding pushes_def by (metis pk fst_conv snd_conv length_Cons add_Suc_right Suc_le_lessD add_leD1 add_Suc)
  show ?case
  proof (cases "xs = []")
    case True
    with d1 show ?thesis by (simp add: ERR_TYPE_MISMATCH_def del: fun_upd_apply)
  next
    case False
    from Cons.IH [OF d1(2) _ False, of "int_of_size (of_nat (Suc (length ys)))"] Cons.prems(2) d1(1) show ?thesis
      by (auto simp: ERR_TYPE_MISMATCH_def f algebra_simps simp del: fun_upd_apply)
  qed
qed simp

lemma fold_length:
  assumes "\<And>x ys. length (f x ys) = Suc (length ys)"
  shows "length (fold f zs ys) = length zs + length ys"
  using assms by (induction zs arbitrary: ys) simp_all

lemma push_all_adds:
  assumes psh: "pushes psh f e0 t k" and e0: "e0 \<le> 0" and f: "\<And>x ys. length (f x ys) = Suc (length ys)"
    and rep: "represents p d m" and cap: "p + length xs \<le> store_cap" and xs: "xs \<noteq> []"
    and list: "purge t k m k = None \<and> ys = [] \<and> ex = e0 \<or> purge t k m k = Some (AList ys, ex)"
  shows "\<exists>d'. push_all psh d xs out = Inr (0, int_of_size (of_nat (length xs + length ys)), d') \<and>
      represents (p + length xs) d' ((purge t k m)(k \<mapsto> (AList (fold f xs ys), ex)))"
proof -
  let ?m = "\<lambda>zs. (purge t k m)(k \<mapsto> (AList zs, ex))"
  have dr: "db_rep p d m" and ll: "lists_le p m" using rep by (auto simp: represents_def)
  obtain x xs' where xs': "xs = x # xs'" using xs by (cases xs) auto
  have live: "\<not> expired t (AList zs, ex)" for zs
    using list e0 purge_live [of t k m "(AList ys, ex)"] by (auto simp: expired_def)
  have pk: "push_keyspace (f x) e0 t k m out = (0, int_of_size (of_nat (Suc (length ys))), ?m (f x ys))"
    using list by (auto simp: push_keyspace_def Let_def)
  have "p < store_cap" using cap xs' by simp
  with psh dr pk obtain d1 where
    d1: "psh d x out = Inr (0, int_of_size (of_nat (Suc (length ys))), d1)" "db_rep (Suc p) d1 (?m (f x ys))"
    unfolding pushes_def by (metis fst_conv snd_conv)
  have "\<exists>d'. push_all psh d xs out = Inr (0, int_of_size (of_nat (length xs + length ys)), d') \<and>
      db_rep (p + length xs) d' (?m (fold f xs ys))"
  proof (cases "xs' = []")
    case True
    with d1 show ?thesis by (simp add: xs' ERR_TYPE_MISMATCH_def del: fun_upd_apply)
  next
    case False
    have "Suc p + length xs' \<le> store_cap" using cap xs' by simp
    from push_all_list [OF psh live f d1(2) this False] d1(1) show ?thesis
      by (auto simp: xs' ERR_TYPE_MISMATCH_def f simp del: fun_upd_apply)
  qed
  moreover have "length ys \<le> p" using list lists_le_upd(3) [OF ll, of t k] by (auto simp: lists_le_def)
  then have "lists_le (p + length xs) (?m (fold f xs ys))"
    using ll by (intro lists_le_upd(2)) (auto simp: fold_length f intro: lists_le_upd(5) [of p])
  ultimately show ?thesis by (auto simp: represents_def)
qed

lemma push_all_mismatch:
  assumes psh: "pushes psh f e0 t k" and rep: "represents p d m" and cap: "p < store_cap"
    and str: "purge t k m k = Some (AStr s, ex)"
  shows "\<exists>d'. push_all psh d (x # xs) out = Inr (ERR_TYPE_MISMATCH, out, d') \<and> represents (Suc p) d' (purge t k m)"
proof -
  have "push_keyspace (f x) e0 t k m out = (ERR_TYPE_MISMATCH, out, purge t k m)"
    using str by (simp add: push_keyspace_def)
  with psh rep cap obtain d' where
    "psh d x out = Inr (ERR_TYPE_MISMATCH, out, d')" "db_rep (Suc p) d' (purge t k m)"
    unfolding pushes_def represents_def by (metis fst_conv snd_conv)
  with rep show ?thesis by (auto simp: represents_def intro: lists_le_upd(5) [of p])
qed

lemma lpush_pushes: "pushes (\<lambda>d x out. redis_db_lpush t g d k x out) (#) (-1) t k"
  unfolding pushes_def using db_lpush_ok by blast

lemma rpush_pushes: "pushes (\<lambda>d x out. redis_db_rpush t g d k x out) (\<lambda>x xs. xs @ [x]) 0 t k"
  unfolding pushes_def using db_rpush_ok by blast

lemma fold_snoc: "fold (\<lambda>x ys. ys @ [x]) xs ys = ys @ xs"
  by (induction xs arbitrary: ys) simp_all

lemma fold_Cons: "fold (#) xs ys = rev xs @ ys"
  by (induction xs arbitrary: ys) simp_all

text \<open>Both push commands, from their loop: \<open>left\<close> says which end.\<close>

lemma answers_push:
  assumes psh: "pushes psh (if left then (#) else (\<lambda>x xs. xs @ [x])) (if left then -1 else 0) (now e) k"
    and rep: "represents p (the_db ch) m" and cap: "p + length (x # xs) \<le> store_cap"
    and out: "should_reply (client ch)" and room: "room ch [fst (push_spec_all left (now e) m k (x # xs))]"
    and run: "handler = rbind (push_all psh (the_db ch) (x # xs) 0) (\<lambda>(rc, n, d).
          let ch = set_db ch d in
          if rc = ERR_TYPE_MISMATCH then
            reply_if ch (\<lambda>rb. add_error_reply rb
              ''ERR Operation against a key holding the wrong kind of value'')
          else reply_if ch (\<lambda>rb. add_integer_reply rb n))"
  shows "commits (p + length (x # xs)) ch handler [fst (push_spec_all left (now e) m k (x # xs))]
     (snd (push_spec_all left (now e) m k (x # xs)))"
proof (cases "\<exists>s ex. purge (now e) k m k = Some (AStr s, ex)")
  case True
  then obtain s ex where s: "purge (now e) k m k = Some (AStr s, ex)" by blast
  have "p < store_cap" using cap by simp
  from push_all_mismatch [OF psh rep this s, of x xs 0] obtain d where
    d: "push_all psh (the_db ch) (x # xs) 0 = Inr (ERR_TYPE_MISMATCH, 0, d)" "represents (Suc p) d (purge (now e) k m)" by blast
  have spec: "push_spec_all left (now e) m k (x # xs) = (wrong_type, purge (now e) k m)"
    using s by (simp add: push_spec_all_def)
  have "answers ch handler [wrong_type] d"
    using run d(1) out room reply_kinds(2) [of ch wrong_type _ d] by (simp add: spec del: push_all.simps)
  then show ?thesis unfolding spec using d(2) by (auto intro: commitsI commits_mono [of "Suc p"])
next
  case False
  then obtain ys ex where ys: "purge (now e) k m k = None \<and> ys = [] \<and> ex = (if left then -1 else 0) \<or>
      purge (now e) k m k = Some (AList ys, ex)"
    by (cases "purge (now e) k m k") (auto, metis aval.exhaust)
  define zs where "zs = (if left then rev (x # xs) @ ys else ys @ x # xs)"
  have zs: "fold (if left then (#) else (\<lambda>x xs. xs @ [x])) (x # xs) ys = zs"
    by (simp only: zs_def fold_Cons fold_snoc split: if_split) simp
  have len: "length zs = length (x # xs) + length ys" by (simp add: zs_def)
  have f: "length ((if left then (#) else (\<lambda>x xs. xs @ [x])) x ys) = Suc (length ys)" for x and ys :: "string list"
    by simp
  have e0: "(if left then -1 else 0 :: int) \<le> 0" by simp
  from push_all_adds [OF psh e0 f rep cap _ ys, of 0, unfolded zs, folded len] obtain d where
    d: "push_all psh (the_db ch) (x # xs) 0 = Inr (0, int_of_size (of_nat (length zs)), d)"
      "represents (p + length (x # xs)) d ((purge (now e) k m)(k \<mapsto> (AList zs, ex)))" by blast
  let ?r = "Integer_Reply (int_of_size (of_nat (length zs)))"
  have spec: "push_spec_all left (now e) m k (x # xs) = (?r, (purge (now e) k m)(k \<mapsto> (AList zs, ex)))"
    using ys by (auto simp: push_spec_all_def zs_def Let_def)
  have "answers ch handler [?r] d"
    using run d(1) out room reply_kinds(3) [of ch ?r _ d]
    by (simp add: spec ERR_TYPE_MISMATCH_def int_of_size_range del: push_all.simps)
  then show ?thesis unfolding spec using d(2) by (auto intro: commitsI)
qed

lemma add_array_None: "add_array_reply rb None 0 = add_array_reply rb (Some []) 0"
  by (simp add: add_array_reply_def)

lemma cleanup_range: "n = int (length xs) \<Longrightarrow> (r = None \<longrightarrow> xs = []) \<Longrightarrow> (\<forall>ys. r = Some ys \<longrightarrow> ys = xs) \<Longrightarrow>
    cleanup_lrange_result r n = Inr ()"
  by (cases r) (auto simp: cleanup_lrange_result_def)

lemma reply_array:
  assumes "room ch [Array_Reply xs]" "case r of None \<Rightarrow> xs = [] | Some ys \<Rightarrow> ys = xs"
  shows "answers ch (reply (set_db ch d) (\<lambda>rb. add_array_reply rb r (int (length xs)))) [Array_Reply xs] d"
  using reply_kinds(6) [OF assms(1), of xs d] assms(2) by (cases r) (simp_all add: add_array_None)

lemma answers_lrange:
  assumes rep: "represents p (the_db ch) m" "p \<le> store_cap" and as: "args ch = c # k # a # b # as"
    and room: "room ch [fst (lrange_cmd_spec (now e) m k a b)]"
  shows "commits p ch (handle_lrange e ch) [fst (lrange_cmd_spec (now e) m k a b)] (snd (lrange_cmd_spec (now e) m k a b))"
proof -
  let ?i = "int_of_long (snd (parse_integer a 0))" and ?j = "int_of_long (snd (parse_integer b 0))"
  let ?rk = "range_keyspace (now e) k ?i ?j m"
  have "small_lists m" using rep lists_le_small by (auto simp: represents_def)
  from db_lrange_ok [OF _ this int_of_long_range [of "snd (parse_integer a 0)"] int_of_long_range [of "snd (parse_integer b 0)"],
      of p "the_db ch" "now e" k] rep obtain r d where
    r: "redis_db_lrange (now e) (the_db ch) k ?i ?j = Inr (fst ?rk, r, int (length (snd ?rk)), d)"
    "case r of None \<Rightarrow> snd ?rk = [] | Some ys \<Rightarrow> ys = snd ?rk" "db_rep p d (purge (now e) k m)"
    unfolding represents_def by blast
  have clean: "cleanup_lrange_result r (int (length (snd ?rk))) = Inr ()"
    using r(2) by (intro cleanup_range [of _ "snd ?rk"]) (auto split: option.splits)
  have run: "handle_lrange e ch =
      (if fst ?rk = ERR_TYPE_MISMATCH then
         reply (set_db ch d) (\<lambda>rb. add_error_reply rb ''ERR Operation against a key holding the wrong kind of value'')
       else reply (set_db ch d) (\<lambda>rb. add_array_reply rb r (int (length (snd ?rk)))))"
    using as by (simp add: handle_lrange_def r(1) clean)
  have "answers ch (handle_lrange e ch) [fst (lrange_cmd_spec (now e) m k a b)] d"
  proof (cases "fst ?rk = ERR_TYPE_MISMATCH")
    case True
    then have "fst (lrange_cmd_spec (now e) m k a b) = wrong_type"
      by (auto simp: range_keyspace_def lrange_cmd_spec_def ERR_TYPE_MISMATCH_def ERR_KEY_NOT_FOUND_def
          split: option.splits aval.splits)
    with True run room reply_kinds(2) [of ch] show ?thesis by simp
  next
    case False
    then have "fst (lrange_cmd_spec (now e) m k a b) = Array_Reply (snd ?rk)"
      by (auto simp: range_keyspace_def lrange_cmd_spec_def Let_def split: option.splits aval.splits)
    with False run room reply_array [OF _ r(2)] show ?thesis by simp
  qed
  moreover have "represents p d (snd (lrange_cmd_spec (now e) m k a b))"
    using r(3) rep by (simp add: represents_def lrange_cmd_spec_def Let_def)
  ultimately show ?thesis by (rule commitsI)
qed

lemma config_response_spec:
  "config_response s ps =
     (if set ps \<subseteq> {''dir'', ''dbfilename''}
      then Some (concat (map (\<lambda>p. [p, if p = ''dir'' then cfg_dir s else cfg_dbfilename s]) ps)) else None)"
  by (induction s ps rule: config_response.induct) auto

lemma answers_config:
  assumes rep: "represents p (the_db ch) m" and as: "args ch = c # ''GET'' # q # ps"
    and room: "room ch [config_spec (srv ch) (q # ps)]"
  shows "commits p ch (handle_config e ch) [config_spec (srv ch) (q # ps)] m"
proof -
  have "answers ch (handle_config e ch) [config_spec (srv ch) (q # ps)] (the_db ch)"
    using as room reply_here(2,6) [of ch "config_spec (srv ch) (q # ps)"]
    by (auto simp: handle_config_def config_response_spec config_spec_def simp del: concat.simps)
  then show ?thesis using rep by (rule commitsI)
qed

lemma answers_dbsize:
  assumes rep: "represents p (the_db ch) m" "p \<le> store_cap" and room: "room ch [Integer_Reply (int (card (dom m)))]"
  shows "commits p ch (handle_dbsize e ch) [Integer_Reply (int (card (dom m)))] m"
proof -
  have u: "unat (redis_db_dbsize (the_db ch)) = card (dom m)" and le: "card (dom m) \<le> store_cap"
    using db_dbsize_ok rep db_rep_card(2) [of p "the_db ch" m] by (auto simp: represents_def)
  then have i: "uint (redis_db_dbsize (the_db ch)) = int (card (dom m))" by (metis uint_nat)
  have "int_of_size (redis_db_dbsize (the_db ch)) = int (card (dom m))"
    using le by (simp add: int_of_size_def i store_cap_def signed_take_bit_int_eq_self_iff)
  moreover have "reply_in_range (Integer_Reply (int (card (dom m))))" using le by (simp add: store_cap_def c_limits)
  ultimately have "answers ch (handle_dbsize e ch) [Integer_Reply (int (card (dom m)))] (the_db ch)"
    using reply_here(3) [OF room] by (simp add: handle_dbsize_def)
  then show ?thesis using rep(1) by (rule commitsI)
qed

lemma answers_ping:
  assumes rep: "represents p (the_db ch) m"
  shows "args ch = [c] \<Longrightarrow> room ch [Simple_Reply ''PONG''] \<Longrightarrow> commits p ch (handle_ping e ch) [Simple_Reply ''PONG''] m"
    "args ch = [c, x] \<Longrightarrow> room ch [Simple_Reply x] \<Longrightarrow> commits p ch (handle_ping e ch) [Simple_Reply x] m"
    "args ch = [c, x] \<Longrightarrow> room ch [Simple_Reply x] \<Longrightarrow> commits p ch (handle_echo e ch) [Simple_Reply x] m"
  using reply_here(1) rep by (auto simp: handle_ping_def handle_echo_def intro!: commitsI)

section \<open>Dispatch\<close>

lemma arity_answers:
  assumes rep: "represents p (the_db ch) m" and out: "should_reply (client ch)"
  shows "room ch [arity_error ''ping''] \<Longrightarrow> 2 < length (args ch) \<Longrightarrow> commits p ch (handle_ping e ch) [arity_error ''ping''] m"
    "room ch [arity_error ''echo''] \<Longrightarrow> length (args ch) \<noteq> 2 \<Longrightarrow> commits p ch (handle_echo e ch) [arity_error ''echo''] m"
    "room ch [arity_error ''set''] \<Longrightarrow> length (args ch) < 3 \<Longrightarrow> commits p ch (handle_set e ch) [arity_error ''set''] m"
    "room ch [arity_error ''get''] \<Longrightarrow> length (args ch) \<noteq> 2 \<Longrightarrow> commits p ch (handle_get e ch) [arity_error ''get''] m"
    "room ch [arity_error ''exist''] \<Longrightarrow> length (args ch) < 2 \<Longrightarrow> commits p ch (handle_exist e ch) [arity_error ''exist''] m"
    "room ch [arity_error ''delete''] \<Longrightarrow> length (args ch) < 2 \<Longrightarrow> commits p ch (handle_delete e ch) [arity_error ''delete''] m"
    "room ch [arity_error ''incr/decr''] \<Longrightarrow> length (args ch) < 2 \<Longrightarrow>
       commits p ch (handle_incr_decr e ch i) [arity_error ''incr/decr''] m"
    "room ch [arity_error ''lpush''] \<Longrightarrow> length (args ch) < 3 \<Longrightarrow> commits p ch (handle_lpush e ch) [arity_error ''lpush''] m"
    "room ch [arity_error ''rpush''] \<Longrightarrow> length (args ch) < 3 \<Longrightarrow> commits p ch (handle_rpush e ch) [arity_error ''rpush''] m"
    "room ch [arity_error ''rpush''] \<Longrightarrow> length (args ch) < 4 \<Longrightarrow> commits p ch (handle_lrange e ch) [arity_error ''rpush''] m"
    "room ch [arity_error ''config get''] \<Longrightarrow> length (args ch) < 3 \<Longrightarrow>
       commits p ch (handle_config e ch) [arity_error ''config get''] m"
  using answers_error [OF rep] out
  by (simp_all add: handle_ping_def handle_echo_def handle_set_def handle_get_def handle_exist_def
      handle_delete_def handle_incr_decr_def handle_lpush_def handle_rpush_def handle_lrange_def handle_config_def)

lemma answers_lpush:
  assumes "represents p (the_db ch) m" "p + length (x # xs) \<le> store_cap" "should_reply (client ch)"
    and "room ch [fst (push_spec_all True (now e) m k (x # xs))]" "args ch = c # k # x # xs"
  shows "commits (p + length (x # xs)) ch (handle_lpush e ch) [fst (push_spec_all True (now e) m k (x # xs))]
     (snd (push_spec_all True (now e) m k (x # xs)))"
  by (rule answers_push [OF _ assms(1-4), where psh = "\<lambda>d x out. redis_db_lpush (now e) (list_junk e) d k x out"])
    (use lpush_pushes assms(5) in \<open>simp_all add: handle_lpush_def lpush_all_eq del: push_all.simps lpush_all.simps\<close>)

lemma answers_rpush:
  assumes "represents p (the_db ch) m" "p + length (x # xs) \<le> store_cap" "should_reply (client ch)"
    and "room ch [fst (push_spec_all False (now e) m k (x # xs))]" "args ch = c # k # x # xs"
  shows "commits (p + length (x # xs)) ch (handle_rpush e ch) [fst (push_spec_all False (now e) m k (x # xs))]
     (snd (push_spec_all False (now e) m k (x # xs)))"
  by (rule answers_push [OF _ assms(1-4), where psh = "\<lambda>d x out. redis_db_rpush (now e) (list_junk e) d k x out"])
    (use rpush_pushes assms(5) in \<open>simp_all add: handle_rpush_def rpush_all_eq del: push_all.simps rpush_all.simps\<close>)

lemmas shapes = not_less numeral_2_eq_2 numeral_3_eq_3 Suc_le_length_iff length_Suc_conv neq_Nil_conv
lemmas run_defs = run_command_def command_spec_def handle_incr_def handle_decr_def split_def

text \<open>\<open>implements t\<close>: whenever the specification of \<open>t\<close> gives a result, the handler computes it.\<close>

definition implements :: "CommandType \<Rightarrow> bool" where
  "implements t \<longleftrightarrow> (\<forall>p ch m e c as rs m'.
     represents p (the_db ch) m \<longrightarrow> p + length (args ch) \<le> store_cap \<longrightarrow> should_reply (client ch) \<longrightarrow>
     args ch = c # as \<longrightarrow> command_spec (now e) (srv ch) m t as = Some (rs, m') \<longrightarrow> room ch rs \<longrightarrow>
     commits (p + length (args ch)) ch (run_command e t ch) rs m')"

lemma implementsI:
  assumes "\<And>p ch m e c as rs m'. represents p (the_db ch) m \<Longrightarrow> p + length (args ch) \<le> store_cap \<Longrightarrow>
     should_reply (client ch) \<Longrightarrow> args ch = c # as \<Longrightarrow>
     command_spec (now e) (srv ch) m t as = Some (rs, m') \<Longrightarrow> room ch rs \<Longrightarrow>
     commits (p + length (args ch)) ch (run_command e t ch) rs m'"
  shows "implements t"
  using assms unfolding implements_def by blast

lemma answers_nothing: "represents p (the_db ch) m \<Longrightarrow> room ch [] \<Longrightarrow> commits p ch (Inr ch) [] m"
  by (rule commitsI [of _ _ _ "the_db ch"])
    (auto simp: answers_def done_with_def room_def sink_ready_def appends_def intro!: exI [of _ "output_buffer (client ch)"])

lemma implements_set: "implements CMD_SET"
proof (rule implementsI)
  fix p ch m c as rs m' and e :: env
  assume rep: "represents p (the_db ch) m" and cap: "p + length (args ch) \<le> store_cap"
    and out: "should_reply (client ch)" and as: "args ch = c # as"
    and spec: "command_spec (now e) (srv ch) m CMD_SET as = Some (rs, m')" and room: "room ch rs"
  show "commits (p + length (args ch)) ch (run_command e CMD_SET ch) rs m'"
  proof (cases "length as < 2")
    case True
    with spec room arity_answers(3) [OF rep out] as show ?thesis
      by (auto simp: run_defs intro: commits_mono [of p])
  next
    case False
    then obtain k v options where "as = k # v # options" by (auto simp: shapes)
    with spec room answers_set [OF rep _ out] as cap show ?thesis
      by (auto simp: run_defs  intro: commits_mono [of "Suc p"])
  qed
qed

lemma implements_get: "implements CMD_GET"
proof (rule implementsI)
  fix p ch m c as rs m' and e :: env
  assume rep: "represents p (the_db ch) m" and cap: "p + length (args ch) \<le> store_cap"
    and out: "should_reply (client ch)" and as: "args ch = c # as"
    and spec: "command_spec (now e) (srv ch) m CMD_GET as = Some (rs, m')" and room: "room ch rs"
  show "commits (p + length (args ch)) ch (run_command e CMD_GET ch) rs m'"
  proof (cases "length as \<noteq> 1")
    case True
    with spec room arity_answers(4) [OF rep out] as show ?thesis
      by (auto simp: run_defs intro: commits_mono [of p])
  next
    case False
    then obtain k where "as = [k]" by (auto simp: shapes)
    with spec room answers_get [OF rep out] as cap show ?thesis
      by (auto simp: run_defs  intro: commits_mono [of "p"])
  qed
qed

lemma implements_exist: "implements CMD_EXIST"
proof (rule implementsI)
  fix p ch m c as rs m' and e :: env
  assume rep: "represents p (the_db ch) m" and cap: "p + length (args ch) \<le> store_cap"
    and out: "should_reply (client ch)" and as: "args ch = c # as"
    and spec: "command_spec (now e) (srv ch) m CMD_EXIST as = Some (rs, m')" and room: "room ch rs"
  show "commits (p + length (args ch)) ch (run_command e CMD_EXIST ch) rs m'"
  proof (cases "length as < 1")
    case True
    with spec room arity_answers(5) [OF rep out] as show ?thesis
      by (auto simp: run_defs intro: commits_mono [of p])
  next
    case False
    then obtain k ks where "as = k # ks" by (auto simp: shapes)
    with spec room answers_exist [OF rep] as cap show ?thesis
      by (auto simp: run_defs store_cap_def c_limits intro: commits_mono [of "p"])
  qed
qed

lemma implements_del: "implements CMD_DEL"
proof (rule implementsI)
  fix p ch m c as rs m' and e :: env
  assume rep: "represents p (the_db ch) m" and cap: "p + length (args ch) \<le> store_cap"
    and out: "should_reply (client ch)" and as: "args ch = c # as"
    and spec: "command_spec (now e) (srv ch) m CMD_DEL as = Some (rs, m')" and room: "room ch rs"
  show "commits (p + length (args ch)) ch (run_command e CMD_DEL ch) rs m'"
  proof (cases "length as < 1")
    case True
    with spec room arity_answers(6) [OF rep out] as show ?thesis
      by (auto simp: run_defs intro: commits_mono [of p])
  next
    case False
    then obtain k ks where "as = k # ks" by (auto simp: shapes)
    with spec room answers_delete [OF rep _ _ out] as cap show ?thesis
      by (auto simp: run_defs  intro: commits_mono [of "p"])
  qed
qed

lemma implements_incr: "implements CMD_INCR"
proof (rule implementsI)
  fix p ch m c as rs m' and e :: env
  assume rep: "represents p (the_db ch) m" and cap: "p + length (args ch) \<le> store_cap"
    and out: "should_reply (client ch)" and as: "args ch = c # as"
    and spec: "command_spec (now e) (srv ch) m CMD_INCR as = Some (rs, m')" and room: "room ch rs"
  show "commits (p + length (args ch)) ch (run_command e CMD_INCR ch) rs m'"
  proof (cases "length as < 1")
    case True
    with spec room arity_answers(7) [OF rep out] as show ?thesis
      by (auto simp: run_defs intro: commits_mono [of p])
  next
    case False
    then obtain k ks where "as = k # ks" by (auto simp: shapes)
    with spec room answers_incr [OF rep _ out] as cap show ?thesis
      by (auto simp: run_defs  intro: commits_mono [of "Suc p"])
  qed
qed

lemma implements_decr: "implements CMD_DECR"
proof (rule implementsI)
  fix p ch m c as rs m' and e :: env
  assume rep: "represents p (the_db ch) m" and cap: "p + length (args ch) \<le> store_cap"
    and out: "should_reply (client ch)" and as: "args ch = c # as"
    and spec: "command_spec (now e) (srv ch) m CMD_DECR as = Some (rs, m')" and room: "room ch rs"
  show "commits (p + length (args ch)) ch (run_command e CMD_DECR ch) rs m'"
  proof (cases "length as < 1")
    case True
    with spec room arity_answers(7) [OF rep out] as show ?thesis
      by (auto simp: run_defs intro: commits_mono [of p])
  next
    case False
    then obtain k ks where "as = k # ks" by (auto simp: shapes)
    with spec room answers_incr [OF rep _ out] as cap show ?thesis
      by (auto simp: run_defs  intro: commits_mono [of "Suc p"])
  qed
qed

lemma implements_lpush: "implements CMD_LPUSH"
proof (rule implementsI)
  fix p ch m c as rs m' and e :: env
  assume rep: "represents p (the_db ch) m" and cap: "p + length (args ch) \<le> store_cap"
    and out: "should_reply (client ch)" and as: "args ch = c # as"
    and spec: "command_spec (now e) (srv ch) m CMD_LPUSH as = Some (rs, m')" and room: "room ch rs"
  show "commits (p + length (args ch)) ch (run_command e CMD_LPUSH ch) rs m'"
  proof (cases "length as < 2")
    case True
    with spec room arity_answers(8) [OF rep out] as show ?thesis
      by (auto simp: run_defs intro: commits_mono [of p])
  next
    case False
    then obtain k x xs where "as = k # x # xs" by (auto simp: shapes)
    with spec room answers_lpush [OF rep _ out] as cap show ?thesis
      by (auto simp: run_defs  intro: commits_mono [of "Suc (p + length xs)"])
  qed
qed

lemma implements_rpush: "implements CMD_RPUSH"
proof (rule implementsI)
  fix p ch m c as rs m' and e :: env
  assume rep: "represents p (the_db ch) m" and cap: "p + length (args ch) \<le> store_cap"
    and out: "should_reply (client ch)" and as: "args ch = c # as"
    and spec: "command_spec (now e) (srv ch) m CMD_RPUSH as = Some (rs, m')" and room: "room ch rs"
  show "commits (p + length (args ch)) ch (run_command e CMD_RPUSH ch) rs m'"
  proof (cases "length as < 2")
    case True
    with spec room arity_answers(9) [OF rep out] as show ?thesis
      by (auto simp: run_defs intro: commits_mono [of p])
  next
    case False
    then obtain k x xs where "as = k # x # xs" by (auto simp: shapes)
    with spec room answers_rpush [OF rep _ out] as cap show ?thesis
      by (auto simp: run_defs  intro: commits_mono [of "Suc (p + length xs)"])
  qed
qed

lemma implements_lrange: "implements CMD_LRANGE"
proof (rule implementsI)
  fix p ch m c as rs m' and e :: env
  assume rep: "represents p (the_db ch) m" and cap: "p + length (args ch) \<le> store_cap"
    and out: "should_reply (client ch)" and as: "args ch = c # as"
    and spec: "command_spec (now e) (srv ch) m CMD_LRANGE as = Some (rs, m')" and room: "room ch rs"
  show "commits (p + length (args ch)) ch (run_command e CMD_LRANGE ch) rs m'"
  proof (cases "length as < 3")
    case True
    with spec room arity_answers(10) [OF rep out] as show ?thesis
      by (auto simp: run_defs intro: commits_mono [of p])
  next
    case False
    then obtain k a b bs where "as = k # a # b # bs" by (auto simp: shapes)
    with spec room answers_lrange [OF rep] as cap show ?thesis
      by (auto simp: run_defs  intro: commits_mono [of "p"])
  qed
qed

lemma implements_config: "implements CMD_CONFIG"
proof (rule implementsI)
  fix p ch m c as rs m' and e :: env
  assume rep: "represents p (the_db ch) m" and cap: "p + length (args ch) \<le> store_cap"
    and out: "should_reply (client ch)" and as: "args ch = c # as"
    and spec: "command_spec (now e) (srv ch) m CMD_CONFIG as = Some (rs, m')" and room: "room ch rs"
  show "commits (p + length (args ch)) ch (run_command e CMD_CONFIG ch) rs m'"
  proof (cases "length as < 2")
    case True
    with spec room arity_answers(11) [OF rep out] as show ?thesis
      by (auto simp: run_defs intro: commits_mono [of p])
  next
    case False
    then obtain g q ps where "as = g # q # ps" by (auto simp: shapes)
    with spec room answers_config [OF rep] answers_nothing [OF rep] as cap show ?thesis
      by (auto simp: run_defs handle_config_def split: if_splits intro: commits_mono [of "p"])
  qed
qed

lemma implements_ping: "implements CMD_PING"
proof (rule implementsI)
  fix p ch m c as rs m' and e :: env
  assume rep: "represents p (the_db ch) m" and cap: "p + length (args ch) \<le> store_cap"
    and out: "should_reply (client ch)" and as: "args ch = c # as"
    and spec: "command_spec (now e) (srv ch) m CMD_PING as = Some (rs, m')" and room: "room ch rs"
  consider "as = []" | x where "as = [x]" | "1 < length as" by (cases as rule: remdups_adj.cases) auto
  then have "commits p ch (run_command e CMD_PING ch) rs m'"
    using spec room arity_answers(1) [OF rep out, of e] answers_ping(1,2) [OF rep] as
    by cases (auto simp: run_defs)
  then show "commits (p + length (args ch)) ch (run_command e CMD_PING ch) rs m'" by (rule commits_mono) simp
qed

lemma implements_echo: "implements CMD_ECHO"
proof (rule implementsI)
  fix p ch m c as rs m' and e :: env
  assume rep: "represents p (the_db ch) m" and cap: "p + length (args ch) \<le> store_cap"
    and out: "should_reply (client ch)" and as: "args ch = c # as"
    and spec: "command_spec (now e) (srv ch) m CMD_ECHO as = Some (rs, m')" and room: "room ch rs"
  consider x where "as = [x]" | "length as \<noteq> 1" by (cases as rule: remdups_adj.cases) auto
  then have "commits p ch (run_command e CMD_ECHO ch) rs m'"
    using spec room arity_answers(2) [OF rep out] answers_ping(3) [OF rep] as
    by cases (auto simp: run_defs)
  then show "commits (p + length (args ch)) ch (run_command e CMD_ECHO ch) rs m'" by (rule commits_mono) simp
qed

lemma implements_rest: "implements CMD_DBSIZE" "implements CMD_UNKNOWN" "implements CMD_SAVE"
  "implements CMD_INFO" "implements CMD_REPLCONF" "implements CMD_PSYNC"
  using commits_mono [OF answers_dbsize] commits_mono [OF answers_error]
  by (auto simp: implements_def run_defs)

lemma run_command_spec: "implements t"
  using implements_set implements_get implements_exist implements_del implements_incr implements_decr
    implements_lpush implements_rpush implements_lrange implements_config implements_ping implements_echo
    implements_rest
  by (cases t) simp_all

end
