(* ===== verification/Sessions.thy ===== *)
theory Sessions
  imports Command_Spec
begin

text \<open>
  From bytes to replies: the callbacks of the command handler collect the arguments of a request
  (\<open>collected\<close>), and a pipeline of requests that the parser meets in the input buffer is answered as
  the commands specify, one after the other (\<open>session_spec\<close>).
\<close>

section \<open>One command\<close>

lemma handle_command_spec:
  assumes rep: "represents p (the_db ch) m" and cap: "p + length (args ch) \<le> store_cap"
    and out: "should_reply (client ch)" and as: "args ch = c # as" and live: "\<not> args_freed ch"
    and spec: "command_spec (now e) (srv ch) m (get_command_type c) as = Some (rs, m')" and room: "room ch rs"
  shows "\<exists>rb d. handle_command e ch = Inr (set_propagate (get_command_type c = CMD_SET) (done_with ch rb d)) \<and>
    appends (output_buffer (client ch)) (concat (map encode_reply rs)) rb \<and>
    represents (p + length (args ch)) d m'"
proof -
  let ?ch = "set_propagate False ch" and ?t = "get_command_type c"
  have same: "the_db ?ch = the_db ch" "args ?ch = args ch" "should_reply (client ?ch) = should_reply (client ch)"
    "srv ?ch = srv ch" "output_buffer (client ?ch) = output_buffer (client ch)"
    by (simp_all add: set_propagate_def)
  then have "room ?ch rs" using room by (simp add: room_def)
  with run_command_spec [of ?t] rep cap out as spec same
  have "commits (p + length (args ch)) ?ch (run_command e ?t ?ch) rs m'"
    unfolding implements_def by metis
  then obtain rb d where
    "run_command e ?t ?ch = Inr (done_with ?ch rb d)" "appends (output_buffer (client ch)) (concat (map encode_reply rs)) rb"
    "represents (p + length (args ch)) d m'"
    by (auto simp: commits_def answers_def same)
  moreover have "done_with ?ch rb d = set_propagate False (done_with ch rb d)"
    "set_propagate True (set_propagate False x) = set_propagate True x" for rb d x
    by (simp_all add: done_with_def set_propagate_def)
  ultimately show ?thesis using as live by (auto simp: handle_command_def)
qed

section \<open>Collecting the arguments\<close>

primrec bounds :: "nat \<Rightarrow> bytes list \<Rightarrow> nat list" where
  "bounds n [] = []"
| "bounds n (s # ss) = (n + length s) # bounds (n + length s) ss"

definition collected :: "CommandHandler \<Rightarrow> bytes list \<Rightarrow> CommandHandler" where
  "collected ch as = ch\<lparr>buf := concat as, buf_size := max (buf_size ch) (length (concat as)),
     args := map cstr as, args_freed := False, arg_capacity := max (arg_capacity ch) (length as),
     ends := bounds 0 as, ends_capacity := max (ends_capacity ch) (length as)\<rparr>"

text \<open>Every allocation that a request of \<open>n\<close> bytes and arguments causes succeeds.\<close>

definition allocates :: "env \<Rightarrow> nat \<Rightarrow> bool" where
  "allocates e n \<longleftrightarrow> (\<forall>k \<le> 8 * n. alloc e k)"

lemma size_t_of_nat [simp]: "n < 2 ^ 64 \<Longrightarrow> size_t_of (int n) = n"
  by (simp add: size_t_of_def)

lemma call_bulk_collects:
  assumes "length (buf ch) \<le> buf_size ch" "length (ends ch) < ends_capacity ch"
    and "length (buf ch) + length s \<le> n" "allocates e n" "n < 2 ^ 31"
  shows "call_bulk (create_handler e) ch s =
    Inr (ch\<lparr>buf := buf ch @ s, buf_size := max (buf_size ch) (length (buf ch) + length s),
            ends := ends ch @ [length (buf ch) + length s]\<rparr>)"
proof -
  have "size_t_of (int (length s)) = length s" "(length (buf ch) + length s) mod 2 ^ 64 = length (buf ch) + length s"
    "alloc e (length (buf ch) + length s)"
    using assms by (simp_all add: allocates_def)
  then show ?thesis using assms(1,2)
    by (auto simp: call_bulk_def create_handler_def begin_bulk_string_handler_def chars_handler_def
        end_bulk_string_handler_def Let_def max_def)
qed

lemma call_bulks_collect:
  assumes "length (buf ch) \<le> buf_size ch" "length (ends ch) + length ss \<le> ends_capacity ch"
    and "length (buf ch) + length (concat ss) \<le> n" "allocates e n" "n < 2 ^ 31"
  shows "call_bulks (create_handler e) ch ss =
    Inr (ch\<lparr>buf := buf ch @ concat ss, buf_size := max (buf_size ch) (length (buf ch) + length (concat ss)),
            ends := ends ch @ bounds (length (buf ch)) ss\<rparr>)"
  using assms
proof (induction ss arbitrary: ch)
  case (Cons s ss)
  let ?ch = "ch\<lparr>buf := buf ch @ s, buf_size := max (buf_size ch) (length (buf ch) + length s),
            ends := ends ch @ [length (buf ch) + length s]\<rparr>"
  have "call_bulk (create_handler e) ch s = Inr ?ch"
    using Cons.prems by (intro call_bulk_collects [of _ _ n]) auto
  moreover have "call_bulks (create_handler e) ?ch ss =
    Inr (?ch\<lparr>buf := buf ?ch @ concat ss, buf_size := max (buf_size ?ch) (length (buf ?ch) + length (concat ss)),
            ends := ends ?ch @ bounds (length (buf ?ch)) ss\<rparr>)"
    using Cons.prems by (intro Cons.IH) auto
  ultimately show ?case by (simp add: max_def add.assoc)
qed (simp add: max_def)

lemma split_args_collected:
  assumes "allocates e n" "n < 2 ^ 31" "length acc + length ss \<le> k" "drop i b = concat ss" "length (concat ss) < n"
  shows "split_args e k b i (bounds i ss) acc = Inr (True, acc @ map cstr ss)"
  using assms
proof (induction ss arbitrary: i acc)
  case (Cons s ss)
  have "alloc e (Suc (length s))" using Cons.prems by (simp add: allocates_def)
  moreover have "take (length s) (drop i b) = s" "drop (i + length s) b = concat ss"
    using Cons.prems(4) by (simp_all add: add.commute [of i] drop_drop [symmetric] del: drop_drop)
  ultimately show ?case using Cons.prems Cons.IH [of "acc @ [cstr s]" "i + length s"] by simp
qed simp

lemma call_request_collects:
  assumes "length as \<le> n" "length (concat as) < n" "allocates e n" "n < 2 ^ 31"
  shows "call_request (create_handler e) ch as =
    rbind (handle_command e (collected ch as)) (\<lambda>ch. Inr (ch\<lparr>args_freed := True\<rparr>))"
proof -
  let ?ch0 = "ch\<lparr>buf := [], args := [], args_freed := False, ends := [],
     arg_capacity := max (arg_capacity ch) (length as), ends_capacity := max (ends_capacity ch) (length as)\<rparr>"
  let ?ch1 = "?ch0\<lparr>buf := concat as, buf_size := max (buf_size ch) (length (concat as)), ends := bounds 0 as\<rparr>"
  have "alloc e ((8 * length as) mod 2 ^ 64)" "size_t_of (int (length as)) = length as"
    using assms by (simp_all add: allocates_def)
  then have start: "begin_array_handler e ch (int (length as)) = Inr ?ch0"
    by (auto simp: begin_array_handler_def Let_def max_def)
  have bulks: "call_bulks (create_handler e) ?ch0 as = Inr ?ch1"
    using call_bulks_collect [of ?ch0 as n e] assms by simp
  have "split_args e (arg_capacity ?ch1) (buf ?ch1) 0 (ends ?ch1) (args ?ch1) = Inr (True, map cstr as)"
    using split_args_collected [OF assms(3,4), of "[]" as "max (arg_capacity ch) (length as)" 0 "concat as"] assms by simp
  then have "end_array_handler e ?ch1 =
      rbind (handle_command e (?ch1\<lparr>args := map cstr as\<rparr>)) (\<lambda>ch. Inr (ch\<lparr>args_freed := True\<rparr>))"
    by (simp add: end_array_handler_def)
  moreover have "?ch1\<lparr>args := map cstr as\<rparr> = collected ch as" by (simp add: collected_def)
  ultimately show ?thesis using start bulks by (simp add: call_request_def create_handler_def)
qed

section \<open>Sessions\<close>

fun session_spec :: "int \<Rightarrow> server \<Rightarrow> keyspace \<Rightarrow> bytes list list \<Rightarrow> (reply list \<times> keyspace) option" where
  "session_spec t s m [] = Some ([], m)"
| "session_spec t s m ([] # reqs) = None"
| "session_spec t s m ((c # as) # reqs) =
     (case command_spec t s m (get_command_type (cstr c)) (map cstr as) of
        None \<Rightarrow> None
      | Some (rs, m) \<Rightarrow> map_option (\<lambda>(rs', m). (rs @ rs', m)) (session_spec t s m reqs))"

definition request_fits :: "nat \<Rightarrow> bytes list \<Rightarrow> bool" where
  "request_fits n as \<longleftrightarrow> length as \<le> n \<and> length (concat as) < n"

lemma config_spec_db [simp]: "config_spec (s\<lparr>db := d\<rparr>) ps = config_spec s ps"
  by (simp add: config_spec_def cong: if_cong)

lemma command_spec_db [simp]: "command_spec t (s\<lparr>db := d\<rparr>) m c as = command_spec t s m c as"
  by (cases c) (simp_all add: command_spec_def)

lemma session_spec_db [simp]: "session_spec t (s\<lparr>db := d\<rparr>) m reqs = session_spec t s m reqs"
  by (induction t s m reqs rule: session_spec.induct) (auto split: option.split)

text \<open>Requests change of the client the output buffer and the propagation flag, of the server the database.\<close>

definition same_frame :: "CommandHandler \<Rightarrow> CommandHandler \<Rightarrow> bool" where
  "same_frame ch ch' \<longleftrightarrow>
     (\<exists>rb b d. client ch' = (client ch)\<lparr>output_buffer := rb, should_propogate_command := b\<rparr> \<and>
        srv ch' = (srv ch)\<lparr>db := d\<rparr>)"

lemma same_frame_refl [simp]: "same_frame ch ch"
  unfolding same_frame_def
  by (intro exI [of _ "output_buffer (client ch)"] exI [of _ "should_propogate_command (client ch)"]
      exI [of _ "the_db ch"]) simp

lemma same_frame_trans: "same_frame ch ch1 \<Longrightarrow> same_frame ch1 ch2 \<Longrightarrow> same_frame ch ch2"
  unfolding same_frame_def by force

definition after_request :: "CommandHandler \<Rightarrow> bytes list \<Rightarrow> ring_buffer \<Rightarrow> redis_db \<Rightarrow> CommandHandler" where
  "after_request ch as rb d =
     (set_propagate (get_command_type (cstr (hd as)) = CMD_SET) (done_with (collected ch as) rb d))\<lparr>args_freed := True\<rparr>"

lemma after_request_simps [simp]:
  "srv (after_request ch as rb d) = (srv ch)\<lparr>db := d\<rparr>"
  "output_buffer (client (after_request ch as rb d)) = rb"
  "should_reply (client (after_request ch as rb d)) = should_reply (client ch)"
  "client_type (client (after_request ch as rb d)) = client_type (client ch)"
  "should_propogate_command (client (after_request ch as rb d)) = (get_command_type (cstr (hd as)) = CMD_SET)"
  "same_frame ch (after_request ch as rb d)"
  by (simp_all add: after_request_def set_propagate_def done_with_def collected_def)
    (force simp: same_frame_def)

lemma call_request_spec:
  assumes rep: "represents p (the_db ch) m" "p + length (c # as) \<le> store_cap" and out: "should_reply (client ch)"
    and fit: "request_fits n (c # as)" "allocates e n" "n < 2 ^ 31" and room: "room ch rs"
    and spec: "command_spec (now e) (srv ch) m (get_command_type (cstr c)) (map cstr as) = Some (rs, m')"
  shows "\<exists>rb d. call_request (create_handler e) ch (c # as) = Inr (after_request ch (c # as) rb d) \<and>
    appends (output_buffer (client ch)) (concat (map encode_reply rs)) rb \<and>
    represents (p + length (c # as)) d m'"
proof -
  let ?ch = "collected ch (c # as)"
  have same: "the_db ?ch = the_db ch" "srv ?ch = srv ch" "args ?ch = cstr c # map cstr as" "\<not> args_freed ?ch"
    "client ?ch = client ch" by (simp_all add: collected_def)
  obtain rb d where run: "handle_command e ?ch =
      Inr (set_propagate (get_command_type (cstr c) = CMD_SET) (done_with ?ch rb d))"
    and ok: "appends (output_buffer (client ?ch)) (concat (map encode_reply rs)) rb"
      "represents (p + length (args ?ch)) d m'"
    using handle_command_spec [of p ?ch m "cstr c" "map cstr as" e rs m'] rep out room spec
    by (auto simp: same room_def)
  then have "call_request (create_handler e) ch (c # as) = Inr (after_request ch (c # as) rb d)"
    using call_request_collects [of "c # as" n e ch] fit by (simp add: request_fits_def after_request_def)
  with ok same show ?thesis by auto
qed

definition is_set_request :: "bytes list \<Rightarrow> bool" where
  "is_set_request r \<longleftrightarrow> get_command_type (cstr (hd r)) = CMD_SET"

lemma call_requests_spec:
  assumes "represents p (the_db ch) m" "p + length (concat reqs) \<le> store_cap" "should_reply (client ch)"
    and "\<forall>r \<in> set reqs. request_fits n r" "allocates e n" "n < 2 ^ 31" "room ch rs"
    and "session_spec (now e) (srv ch) m reqs = Some (rs, m')"
  shows "\<exists>ch'. call_requests (create_handler e) ch reqs = Inr ch' \<and>
    appends (output_buffer (client ch)) (concat (map encode_reply rs)) (output_buffer (client ch')) \<and>
    represents (p + length (concat reqs)) (the_db ch') m' \<and> same_frame ch ch' \<and>
    should_propogate_command (client ch') =
      (if reqs = [] then should_propogate_command (client ch) else is_set_request (last reqs))"
  using assms
proof (induction reqs arbitrary: ch p m rs)
  case Nil
  then show ?case by (simp add: sink.app_nil room_def sink_ready_def fits_def)
next
  case (Cons r reqs)
  then obtain c as where r: "r = c # as" by (cases r) auto
  from Cons.prems(8) r obtain rs1 m1 rs2 where
    spec: "command_spec (now e) (srv ch) m (get_command_type (cstr c)) (map cstr as) = Some (rs1, m1)"
    "session_spec (now e) (srv ch) m1 reqs = Some (rs2, m')" "rs = rs1 @ rs2"
    by (auto split: option.splits)
  have ready: "sink_ready (output_buffer (client ch)) (length (concat (map encode_reply rs1)) + Suc (length (concat (map encode_reply rs2))))"
    using Cons.prems(7) spec(3) by (simp add: room_def)
  then have room1: "room ch rs1" unfolding room_def by (rule sink.ready_mono) simp
  have cap1: "p + length (c # as) \<le> store_cap" using Cons.prems(2) r by simp
  from call_request_spec [OF Cons.prems(1) cap1 Cons.prems(3) _ Cons.prems(5,6) room1 spec(1)] Cons.prems(4) r
  obtain rb d where one: "call_request (create_handler e) ch (c # as) = Inr (after_request ch (c # as) rb d)"
    "appends (output_buffer (client ch)) (concat (map encode_reply rs1)) rb"
    "represents (p + length (c # as)) d m1" by auto
  have room2: "room (after_request ch (c # as) rb d) rs2"
    unfolding room_def using sink.app_ready [OF one(2) ready] by simp
  from Cons.IH [of "p + length (c # as)" "after_request ch (c # as) rb d" m1 rs2] Cons.prems one(3) r spec(2) room2
  obtain ch' where "call_requests (create_handler e) (after_request ch (c # as) rb d) reqs = Inr ch'"
    "appends rb (concat (map encode_reply rs2)) (output_buffer (client ch'))"
    "represents (p + length (c # as) + length (concat reqs)) (the_db ch') m'"
    "same_frame (after_request ch (c # as) rb d) ch'"
    "should_propogate_command (client ch') =
       (if reqs = [] then should_propogate_command (client (after_request ch (c # as) rb d)) else is_set_request (last reqs))"
    by (auto simp del: after_request_simps(5))
  moreover have "should_propogate_command (client (after_request ch (c # as) rb d)) = is_set_request r"
    by (simp add: is_set_request_def r)
  ultimately show ?case using one r spec(3) sink.app_trans [OF one(2)] same_frame_trans [OF after_request_simps(6)]
    by (auto simp: add.assoc simp del: after_request_simps(5))
qed

lemma request_fits_sizes: "request_fits n as \<Longrightarrow> n < 2 ^ 31 \<Longrightarrow> sizes_ok as"
proof -
  assume fit: "request_fits n as" "n < 2 ^ 31"
  have "length s \<le> length (concat as)" if "s \<in> set as" for s
    using that by (induction as) auto
  with fit show ?thesis by (force simp: request_fits_def sizes_ok_def c_limits)
qed

lemma holds_middle: "holds (xs @ ys @ zs) (length xs) ys"
  by (auto simp: holds_def)

section \<open>An example state\<close>

definition sample_buffer :: "nat \<Rightarrow> ring_buffer" where
  "sample_buffer n = \<lparr>read_index = 0, write_index = 0, region = Some (replicate n (CHR ''.'')), rb_size = of_nat n, rb_fd = 3\<rparr>"

definition sample_client :: Client where
  "sample_client = \<lparr>fd = 7, input_buffer = sample_buffer 256, output_buffer = sample_buffer 256,
     client_type = CLIENT_TYPE_REGULAR, epoll_events = 1, master_repl_state = MASTER_REPL_STATE_PROPAGATE,
     rdb_fd = 0, rdb_file_offset = 0, rdb_file_size = 0, repl_offset = 0, repl_client_state = REPL_STATE_NONE,
     rdb_expected_bytes = 0, rdb_received_bytes = 0, rdb_written_bytes = 0, tmp_rdb_fp = None,
     should_propogate_command = False, should_reply = True\<rparr>"

definition sample_server :: server where
  "sample_server = \<lparr>db = \<lparr>dbh = kh_init, key_count = 0, expiry_count = 0\<rparr>, cfg_dir = ''/tmp'', cfg_dbfilename = ''dump.rdb'',
     cfg_port = ''6379'', cfg_master_host = [], cfg_master_port = [], role = ROLE_MASTER, master_replid = ''id'',
     master_repl_offset = 0, repl_backlog = sample_buffer 256, repl_backlog_base_offset = 0, replicas = [],
     files = (\<lambda>_. None), open_files = (\<lambda>_. None)\<rparr>"

definition sample_handler :: CommandHandler where
  "sample_handler = \<lparr>buf = [], buf_size = 256, args = [], args_freed = False, arg_capacity = 10, ends = [],
     ends_capacity = 10, client = sample_client, srv = sample_server\<rparr>"

definition sample_env :: env where
  "sample_env = \<lparr>now = 1000, list_junk = 77, alloc = (\<lambda>_. True), file_os = \<lparr>mkdir_ok = True, fopen_write_ok = True\<rparr>,
     next_fd = 9, epoll_ok = True, struct_bytes = replicate 40 (CHR ''?'')\<rparr>"

lemma sample_buffer_facts:
  assumes "0 < n" "n < 2 ^ 32"
  shows "rb_inv (sample_buffer n)" "contents (sample_buffer n) = []" "capacity (sample_buffer n) = n"
    "index_budget (sample_buffer n) = 2 ^ 64 - 1"
  using assms by (simp_all add: sample_buffer_def rb_inv_def assert_state_def mem_def capacity_def contents_def
      load_bytes_def readable_len_def index_budget_def unat_of_nat_64 word_less_nat_alt)

lemma sample_represents: "represents 0 (the_db sample_handler) Map.empty"
  using db_create_rep [of "the_db sample_handler"]
  by (simp add: represents_def lists_le_def redis_db_create_def sample_handler_def sample_server_def)

lemma sample_simps [simp]:
  "client sample_handler = sample_client" "srv sample_handler = sample_server" "now sample_env = 1000"
  "should_reply sample_client" "client_type sample_client = CLIENT_TYPE_REGULAR"
  "output_buffer sample_client = sample_buffer 256" "allocates sample_env n"
  by (simp_all add: sample_handler_def sample_client_def sample_env_def allocates_def)

end
