(* ===== verification/Command_Safety.thy ===== *)
theory Command_Safety
  imports Parser_Safety Command_Handler Sessions
begin

text \<open>
  What no input can break: every command and every callback keeps the buffers of its connection
  well-formed, the argument arrays within their capacities and the array of replicas within its bounds.
  The commands provide the interface \<open>callback_invariant\<close> of the parser.
\<close>

section \<open>Ring buffers\<close>

lemma region_store_keeps: "region_store rb off bs = Inr rb' \<Longrightarrow> rb_inv rb \<Longrightarrow> rb_inv rb'"
  using region_store_inv(2) [of rb off bs]
  by (auto simp: region_store_def capacity_def mem_def split: option.splits if_splits)

lemma rb_write_keeps: "rb_write rb n = Inr (rc, rb') \<Longrightarrow> rb_inv rb \<Longrightarrow> rb_inv rb'"
  by (auto simp: rb_write_def rb_inv_def mem_def Let_def rbind_eq_Inr_iff split: if_splits)

lemma rb_read_keeps: "rb_read rb n = Inr (rc, rb') \<Longrightarrow> rb_inv rb \<Longrightarrow> rb_inv rb'"
  by (auto simp: rb_read_def rb_inv_def mem_def Let_def rbind_eq_Inr_iff split: if_splits)

lemma rb_commit_keeps: "rb_commit rb off bs n = Inr rb' \<Longrightarrow> rb_inv rb \<Longrightarrow> rb_inv rb'"
  by (auto simp: rb_commit_def rbind_eq_Inr_iff dest: region_store_keeps rb_write_keeps)

text \<open>\<open>keeps_rb f\<close>: the writer \<open>f\<close> keeps the invariant of the buffer.\<close>

definition keeps_rb :: "(ring_buffer \<Rightarrow> ring_buffer res) \<Rightarrow> bool" where
  "keeps_rb f \<longleftrightarrow> (\<forall>rb rb'. f rb = Inr rb' \<longrightarrow> rb_inv rb \<longrightarrow> rb_inv rb')"

lemma keeps_rbD: "keeps_rb f \<Longrightarrow> f rb = Inr rb' \<Longrightarrow> rb_inv rb \<Longrightarrow> rb_inv rb'"
  by (simp add: keeps_rb_def)

lemma keeps_rb_seq: "keeps_rb f \<Longrightarrow> (\<And>x. keeps_rb g) \<Longrightarrow> keeps_rb (\<lambda>rb. rbind (f rb) g)"
  by (auto simp: keeps_rb_def rbind_eq_Inr_iff)

lemma keeps_rb_basic [simp]:
  "keeps_rb (\<lambda>rb. write_fixed rb bs)" "keeps_rb (\<lambda>rb. write_begin_bulk_string rb n)"
  "keeps_rb (\<lambda>rb. write_begin_array rb n)" "keeps_rb (\<lambda>rb. write_chars rb bs)" "keeps_rb Inr"
  by (auto simp: keeps_rb_def write_fixed_def write_begin_bulk_string_def write_begin_array_def write_chars_def
      rbind_eq_Inr_iff Let_def dest: rb_commit_keeps split: if_splits)

lemma keeps_rb_elements [simp]: "keeps_rb (\<lambda>rb. add_array_elements rb xs)"
  by (induction xs) (simp_all add: writer_defs keeps_rb_seq)

lemma keeps_rb_const [simp]: "keeps_rb (\<lambda>rb. Inl err)"
  by (simp add: keeps_rb_def)

lemma keeps_rb_end_array [simp]: "keeps_rb write_end_array"
  by (simp add: keeps_rb_def write_end_array_def)

lemma keeps_rb_array [simp]: "keeps_rb (\<lambda>rb. add_array_reply rb xs n)"
  by (cases xs; cases "int (length (the xs)) < n")
    (simp_all add: add_array_reply_def keeps_rb_seq)

lemma keeps_rb_null [simp]: "keeps_rb add_null_reply"
  using keeps_rb_seq [of "\<lambda>rb. write_begin_bulk_string rb (-1)" "\<lambda>rb. write_fixed rb crlf"]
  by (simp add: keeps_rb_def add_null_reply_def writer_defs)

lemma keeps_rb_replies [simp]:
  "keeps_rb (\<lambda>rb. add_simple_string_reply rb s)" "keeps_rb (\<lambda>rb. add_bulk_string_reply rb s)"
  "keeps_rb (\<lambda>rb. add_error_reply rb s)" "keeps_rb (\<lambda>rb. add_integer_reply rb i)"
  "keeps_rb (\<lambda>rb. add_fullresync_reply rb s i)"
  by (simp_all add: add_simple_string_reply_def add_bulk_string_reply_def add_error_reply_def add_integer_reply_def
      add_fullresync_reply_def writer_defs keeps_rb_seq Let_def)

section \<open>The invariant of a connection\<close>

definition rb_sound :: "ring_buffer \<Rightarrow> bool" where
  \<comment> \<open>Never created, or well-formed.\<close>
  "rb_sound rb \<longleftrightarrow> region rb = None \<or> rb_inv rb"

definition client_ok :: "int \<Rightarrow> Client \<Rightarrow> bool" where
  "client_ok i c \<longleftrightarrow> fd c = i \<and> rb_inv (input_buffer c) \<and> rb_inv (output_buffer c)"

definition arrays_ok :: "CommandHandler \<Rightarrow> bool" where
  "arrays_ok ch \<longleftrightarrow> length (buf ch) \<le> buf_size ch \<and> length (args ch) \<le> arg_capacity ch \<and>
     length (ends ch) \<le> ends_capacity ch"

text \<open>What the command line settles: the invariant says that it stays at the value \<open>K\<close>.\<close>

datatype settings = Settings string string string string string server_role string

definition settings :: "server \<Rightarrow> settings" where
  "settings s = Settings (cfg_dir s) (cfg_dbfilename s) (cfg_port s) (cfg_master_host s) (cfg_master_port s) (role s) (master_replid s)"

lemma settings_simps [simp]:
  "settings (s\<lparr>db := d\<rparr>) = settings s" "settings (s\<lparr>master_repl_offset := n\<rparr>) = settings s"
  "settings (s\<lparr>repl_backlog := rb\<rparr>) = settings s" "settings (s\<lparr>repl_backlog_base_offset := n\<rparr>) = settings s"
  "settings (s\<lparr>replicas := rs\<rparr>) = settings s" "settings (s\<lparr>files := fs\<rparr>) = settings s"
  "settings (s\<lparr>open_files := fds\<rparr>) = settings s"
  by (simp_all add: settings_def)

definition server_ok :: "settings \<Rightarrow> server \<Rightarrow> bool" where
  "server_ok K s \<longleftrightarrow> settings s = K \<and> length (replicas s) \<le> MAX_REPLICAS \<and> rb_sound (repl_backlog s)"

definition ch_inv :: "settings \<Rightarrow> int \<Rightarrow> CommandHandler \<Rightarrow> bool" where
  "ch_inv K i ch \<longleftrightarrow> client_ok i (client ch) \<and> arrays_ok ch \<and> server_ok K (srv ch)"

lemmas inv_defs = ch_inv_def client_ok_def arrays_ok_def server_ok_def

definition keeps :: "CommandHandler \<Rightarrow> CommandHandler \<Rightarrow> bool" where
  "keeps ch ch' \<longleftrightarrow> (\<forall>K i. ch_inv K i ch \<longrightarrow> ch_inv K i ch')"

lemma keeps_refl [simp]: "keeps ch ch"
  by (simp add: keeps_def)

lemma keeps_trans: "keeps ch ch1 \<Longrightarrow> keeps ch1 ch2 \<Longrightarrow> keeps ch ch2"
  by (simp add: keeps_def)

lemma keeps_simps [simp]:
  "keeps (set_db ch d) ch' = keeps ch ch'" "keeps ch (set_propagate b ch') = keeps ch ch'"
  "keeps (set_propagate b ch) ch' = keeps ch ch'" "keeps ch (set_repl_state ch' st) = keeps ch ch'"
  "keeps ch (ch'\<lparr>args_freed := fr\<rparr>) = keeps ch ch'"
  by (simp_all add: keeps_def inv_defs set_db_def set_propagate_def set_repl_state_def)

section \<open>Commands\<close>

lemma reply_keeps: "reply ch f = Inr ch' \<Longrightarrow> keeps_rb f \<longrightarrow> keeps ch ch'"
  by (auto simp: reply_def rbind_eq_Inr_iff keeps_def inv_defs dest: keeps_rbD)

lemma reply_if_keeps: "reply_if ch f = Inr ch' \<Longrightarrow> keeps_rb f \<longrightarrow> keeps ch ch'"
  by (auto simp: reply_if_def reply_keeps split: if_splits)

lemma add_replica_keeps: "add_replica ch = Inr ch' \<Longrightarrow> keeps ch ch'"
  by (auto simp: add_replica_def Let_def keeps_def inv_defs split: if_splits)

lemma save_db_keeps: "save_db e ch = Inr ch' \<Longrightarrow> keeps ch ch'"
  by (auto simp: save_db_def rbind_eq_Inr_iff keeps_def inv_defs)

lemma enable_writes_keeps: "enable_writes e ch = Inr ch' \<Longrightarrow> keeps ch ch'"
  by (auto simp: enable_writes_def client_enable_write_events_def rbind_eq_Inr_iff keeps_def inv_defs split: if_splits)

lemmas keeps_rules = reply_keeps reply_if_keeps add_replica_keeps save_db_keeps enable_writes_keeps

lemma get_keeps: "handle_get e ch = Inr ch' \<Longrightarrow> keeps ch ch'"
proof (cases "length (args ch) = 2")
  case True
  assume run: "handle_get e ch = Inr ch'"
  with True obtain v d where get: "redis_db_get (now e) (the_db ch) (args ch ! 1) = Inr (v, d)"
    by (auto simp: handle_get_def rbind_eq_Inr_iff)
  with True run show ?thesis
    by (cases v) (auto simp: handle_get_def Let_def dest: reply_if_keeps split: value_data.splits)
qed (auto simp: handle_get_def dest: reply_if_keeps)

lemma simple_commands_keep:
  "handle_ping e ch = Inr ch' \<Longrightarrow> keeps ch ch'" "handle_echo e ch = Inr ch' \<Longrightarrow> keeps ch ch'"
  "handle_exist e ch = Inr ch' \<Longrightarrow> keeps ch ch'" "handle_delete e ch = Inr ch' \<Longrightarrow> keeps ch ch'"
  "handle_dbsize e ch = Inr ch' \<Longrightarrow> keeps ch ch'" "handle_info e ch = Inr ch' \<Longrightarrow> keeps ch ch'"
  "handle_config e ch = Inr ch' \<Longrightarrow> keeps ch ch'" "handle_replconf e ch = Inr ch' \<Longrightarrow> keeps ch ch'"
  by (auto simp: handle_ping_def handle_echo_def handle_exist_def handle_delete_def
      handle_dbsize_def handle_info_def handle_config_def handle_replconf_def rbind_eq_Inr_iff Let_def
      dest!: keeps_rules split: if_splits option.splits)

lemma list_commands_keep:
  "handle_lpush e ch = Inr ch' \<Longrightarrow> keeps ch ch'" "handle_rpush e ch = Inr ch' \<Longrightarrow> keeps ch ch'"
  "handle_lrange e ch = Inr ch' \<Longrightarrow> keeps ch ch'"
  by (auto simp: handle_lpush_def handle_rpush_def handle_lrange_def rbind_eq_Inr_iff Let_def
      dest!: keeps_rules split: if_splits)

lemma update_commands_keep:
  "handle_set e ch = Inr ch' \<Longrightarrow> keeps ch ch'" "handle_incr_decr e ch i = Inr ch' \<Longrightarrow> keeps ch ch'"
  by (auto simp: handle_set_def handle_incr_decr_def rbind_eq_Inr_iff Let_def
      dest!: keeps_rules split: if_splits option.splits)

lemma save_keeps: "handle_save e ch = Inr ch' \<Longrightarrow> keeps ch ch'"
  by (auto simp: handle_save_def rbind_eq_Inr_iff dest!: keeps_rules split: if_splits intro: keeps_trans)

lemma keeps_announced:
  "keeps (ch\<lparr>client := (client ch)\<lparr>rdb_fd := f, rdb_file_size := n, rdb_file_offset := k, master_repl_state := st\<rparr>,
     srv := (srv ch)\<lparr>open_files := fs\<rparr>\<rparr>) ch' = keeps ch ch'"
  by (simp add: keeps_def inv_defs)

lemma full_resync_keeps: "full_resync e ch = Inr ch' \<Longrightarrow> keeps ch ch'"
  by (auto simp: full_resync_def rbind_eq_Inr_iff Let_def keeps_announced dest!: keeps_rules split: option.splits)
    (meson keeps_trans)

lemma psync_keeps: "handle_psync e ch = Inr ch' \<Longrightarrow> keeps ch ch'"
proof (cases "length (args ch) < 3")
  case False
  assume run: "handle_psync e ch = Inr ch'"
  with False obtain ch1 where ch1: "add_replica ch = Inr ch1" by (auto simp: handle_psync_def rbind_eq_Inr_iff split: if_splits)
  have "keeps ch1 ch'"
  proof (cases "partial_resync_ok (srv ch) (args ch ! 1) (args ch ! 2)")
    case True
    with run False ch1 obtain ch2 c where "reply ch1 (\<lambda>rb. add_simple_string_reply rb ''CONTINUE'') = Inr ch2"
      "enable_writes e (ch2\<lparr>client := (client ch2)\<lparr>repl_offset := c, master_repl_state := MASTER_REPL_STATE_PSYNC\<rparr>\<rparr>) = Inr ch'"
      by (auto simp: handle_psync_def rbind_eq_Inr_iff)
    then have "keeps ch1 ch2" "keeps ch2 ch'" by (auto dest!: keeps_rules simp: keeps_def inv_defs)
    then show ?thesis by (rule keeps_trans)
  next
    case False
    with run \<open>\<not> length (args ch) < 3\<close> ch1 show ?thesis by (auto simp: handle_psync_def intro: full_resync_keeps)
  qed
  with add_replica_keeps [OF ch1] show ?thesis by (rule keeps_trans)
qed (auto simp: handle_psync_def dest!: keeps_rules)

lemma run_command_keeps: "run_command e t ch = Inr ch' \<Longrightarrow> keeps ch ch'"
  using get_keeps simple_commands_keep list_commands_keep update_commands_keep save_keeps psync_keeps
  by (cases t) (auto simp: run_command_def handle_incr_def handle_decr_def dest!: reply_keeps)

lemma handle_command_keeps: "handle_command e ch = Inr ch' \<Longrightarrow> keeps ch ch'"
  by (auto simp: handle_command_def Let_def rbind_eq_Inr_iff dest!: run_command_keeps split: list.splits if_splits)

section \<open>Callbacks\<close>

lemma split_args_bound: "split_args e cap b i es acc = Inr (r, as) \<Longrightarrow> length acc \<le> cap \<Longrightarrow> length as \<le> cap"
  by (induction e cap b i es acc rule: split_args.induct) (auto split: if_splits)

lemma end_array_keeps: "end_array_handler e ch = Inr ch' \<Longrightarrow> ch_inv K i ch \<Longrightarrow> ch_inv K i ch'"
proof -
  assume run: "end_array_handler e ch = Inr ch'" and inv: "ch_inv K i ch"
  then obtain r as where split: "split_args e (arg_capacity ch) (buf ch) 0 (ends ch) (args ch) = Inr (r, as)"
    by (auto simp: end_array_handler_def rbind_eq_Inr_iff)
  then have "length as \<le> arg_capacity ch" using inv split_args_bound by (auto simp: inv_defs)
  then have "ch_inv K i (ch\<lparr>args := as\<rparr>)" using inv by (auto simp: inv_defs)
  with run split show ?thesis
    by (auto simp: end_array_handler_def rbind_eq_Inr_iff Let_def keeps_def split: if_splits dest!: handle_command_keeps)
      (auto simp: inv_defs)
qed

lemma simple_reply_keeps: "handle_simple_string_reply ch = Inr ch' \<Longrightarrow> keeps ch ch'"
  by (auto simp: handle_simple_string_reply_def Let_def split: if_splits ReplicaClientState.splits)

interpretation conn: callback_invariant "create_handler e" "ch_inv K i" for e K i
proof unfold_locales
  show "ch_inv K i ch'" if "end_array (create_handler e) ch = Inr ch'" "ch_inv K i ch" for ch ch'
    using that end_array_keeps by (simp add: create_handler_def)
  show "ch_inv K i ch'" if "end_simple_string (create_handler e) ch = Inr ch'" "ch_inv K i ch" for ch ch'
    using that by (auto simp: create_handler_def end_simple_string_handler_def keeps_def split: if_splits
        dest!: simple_reply_keeps) (auto simp: inv_defs set_repl_state_def)
qed (auto simp: create_handler_def begin_array_handler_def begin_bulk_string_handler_def chars_handler_def
    end_bulk_string_handler_def begin_simple_string_handler_def unimplemented_def inv_defs Let_def rbind_eq_Inr_iff
    split: if_splits)

end
