(* ===== verification/World_Safety.thy ===== *)
theory World_Safety
  imports Server Command_Safety
begin

text \<open>
  An invariant of the whole server: in every world that the event loop reaches, whatever the clients
  send and whatever the system calls return, the connections are well-formed and the globals are within
  their bounds.
\<close>

section \<open>The invariant\<close>

definition conn_ok :: "int \<Rightarrow> CommandHandler Parser \<Rightarrow> bool" where
  "conn_ok i p \<longleftrightarrow> stack_ok p \<and> client_ok i (client (command_handler p)) \<and> arrays_ok (command_handler p)"

definition world_ok :: "settings \<Rightarrow> world \<Rightarrow> bool" where
  "world_ok K w \<longleftrightarrow> server_ok K (globals w) \<and> (\<forall>i p. conns w i = Some p \<longrightarrow> conn_ok i p)"

lemma arrays_ok_simps [simp]:
  "arrays_ok (ch\<lparr>client := c\<rparr>) = arrays_ok ch" "arrays_ok (ch\<lparr>srv := s\<rparr>) = arrays_ok ch"
  by (simp_all add: arrays_ok_def)

lemma get_conn_ok: "get_conn w i = Inr p \<Longrightarrow> world_ok K w \<Longrightarrow> stack_ok p \<and> ch_inv K i (command_handler p)"
  by (auto simp: get_conn_def world_ok_def conn_ok_def ch_inv_def split: option.splits)

lemma put_conn_ok: "world_ok K w \<Longrightarrow> stack_ok p \<Longrightarrow> ch_inv K i (command_handler p) \<Longrightarrow> world_ok K (put_conn w i p)"
  by (auto simp: put_conn_def world_ok_def conn_ok_def ch_inv_def)

lemma get_client_ok: "get_client w i = Inr c \<Longrightarrow> world_ok K w \<Longrightarrow> client_ok i c"
  by (auto simp: get_client_def rbind_eq_Inr_iff ch_inv_def dest!: get_conn_ok)

lemma put_client_ok: "put_client w i c = Inr w' \<Longrightarrow> world_ok K w \<Longrightarrow> client_ok i c \<Longrightarrow> world_ok K w'"
  using get_conn_ok by (fastforce simp: put_client_def rbind_eq_Inr_iff ch_inv_def intro!: put_conn_ok)

lemma world_ok_simps [simp]:
  "world_ok K (w\<lparr>wire := x\<rparr>) = world_ok K w" "world_ok K (w\<lparr>released := y\<rparr>) = world_ok K w"
  "world_ok K (w\<lparr>globals := s\<rparr>) \<longleftrightarrow> server_ok K s \<and> (\<forall>i p. conns w i = Some p \<longrightarrow> conn_ok i p)"
  by (simp_all add: world_ok_def)

lemma world_ok_globals: "world_ok K w \<Longrightarrow> server_ok K s \<Longrightarrow> world_ok K (w\<lparr>globals := s\<rparr>)"
  by (simp add: world_ok_def)

lemma server_ok_globals: "world_ok K w \<Longrightarrow> server_ok K (globals w)"
  by (simp add: world_ok_def)

lemma world_ok_settings: "world_ok K w \<Longrightarrow> settings (globals w) = K"
  by (simp add: world_ok_def server_ok_def)

section \<open>Connections\<close>

lemma flush_output_ok: "flush_client_output ws c = Inr (rc, sent, c', ws') \<Longrightarrow> client_ok i c \<Longrightarrow> client_ok i c'"
  using flush_loop_ok [of "output_buffer c" ws "[]"]
  by (auto simp: flush_client_output_def rbind_eq_Inr_iff client_ok_def)

lemma flush_ok_world: "flush ws w i = Inr (rc, w', ws') \<Longrightarrow> world_ok K w \<Longrightarrow> world_ok K w'"
  by (auto simp: flush_def rbind_eq_Inr_iff dest!: put_client_ok intro: flush_output_ok get_client_ok)

lemma remove_replica_ok: "remove_replica i s = Inr s' \<Longrightarrow> server_ok K s \<Longrightarrow> server_ok K s'"
  by (auto simp: remove_replica_def Let_def server_ok_def split: if_splits)

lemma disconnection_ok: "handle_client_disconnection w i = Inr w' \<Longrightarrow> world_ok K w \<Longrightarrow> world_ok K w'"
  by (auto simp: handle_client_disconnection_def rbind_eq_Inr_iff world_ok_def dest: remove_replica_ok split: if_splits)

lemma rb_writable_sound: "rb_writable rb = Inr x \<Longrightarrow> rb_sound rb \<Longrightarrow> rb_inv rb"
  by (auto simp: rb_sound_def rb_writable_def assert_state_def rbind_eq_Inr_iff)

lemma append_backlog_keeps:
  assumes run: "append_backlog e n s = Inr s'" and ok: "server_ok K s"
  shows "server_ok K s'"
proof -
  obtain off wl where wr: "rb_writable (repl_backlog s) = Inr (off, wl)"
    using run by (auto simp: append_backlog_def rbind_eq_Inr_iff)
  then have inv: "rb_inv (repl_backlog s)" using ok rb_writable_sound by (auto simp: server_ok_def)
  have "settings s' = settings s \<and> replicas s' = replicas s \<and> rb_inv (repl_backlog s')"
    using run inv wr
    by (auto simp: append_backlog_def rbind_eq_Inr_iff Let_def split: if_splits
        dest!: region_store_keeps rb_write_keeps rb_read_keeps)
  then show ?thesis using ok by (simp add: server_ok_def rb_sound_def)
qed

lemma enable_write_ok: "client_enable_write_events e c = Inr c' \<Longrightarrow> client_ok i c' = client_ok i c"
  by (auto simp: client_enable_write_events_def client_ok_def split: if_splits)

lemma disable_write_ok: "client_disable_write_events e c = Inr c' \<Longrightarrow> client_ok i c' = client_ok i c"
  by (auto simp: client_disable_write_events_def client_ok_def split: if_splits)

lemma enable_read_ok: "client_enable_read_events e c = Inr c' \<Longrightarrow> client_ok i c' = client_ok i c"
  by (auto simp: client_enable_read_events_def client_ok_def split: if_splits)

text \<open>Bytes stored in a buffer of a client.\<close>

lemma output_stored_ok:
  "client_ok i c \<Longrightarrow> region_store (output_buffer c) off bs = Inr rb \<Longrightarrow> rb_write rb n = Inr (rc, rb') \<Longrightarrow>
   client_ok i (c\<lparr>output_buffer := rb'\<rparr>)"
  by (auto simp: client_ok_def dest: region_store_keeps rb_write_keeps)

lemma input_stored_ok:
  "client_ok i c \<Longrightarrow> region_store (input_buffer c) off bs = Inr rb \<Longrightarrow> rb_write rb n = Inr (rc, rb') \<Longrightarrow>
   client_ok i (c\<lparr>input_buffer := rb'\<rparr>)"
  by (auto simp: client_ok_def dest: region_store_keeps rb_write_keeps)

lemma input_read_ok:
  "client_ok i c \<Longrightarrow> rb_read (input_buffer c) n = Inr (rc, rb) \<Longrightarrow> client_ok i (c\<lparr>input_buffer := rb\<rparr>)"
  by (auto simp: client_ok_def dest: rb_read_keeps)

lemma propagate_to_keeps:
  assumes run: "propagate_to e i bs r w = Inr w'" and ok: "world_ok K w"
  shows "world_ok K w'"
proof -
  obtain c off wl where c: "get_client w r = Inr c" "rb_writable (output_buffer c) = Inr (off, wl)"
    using run by (auto simp: propagate_to_def rbind_eq_Inr_iff)
  note cok = get_client_ok [OF c(1) ok]
  show ?thesis
  proof (cases "length bs \<le> unat wl")
    case True
    with run c obtain rb rc rb' where st: "region_store (output_buffer c) off bs = Inr rb"
      "rb_write rb (of_nat (length bs)) = Inr (rc, rb')" by (auto simp: propagate_to_def rbind_eq_Inr_iff)
    note stored = output_stored_ok [OF cok st]
    show ?thesis
      using run c True st put_client_ok [OF _ ok stored] put_client_ok [OF _ ok] stored
      by (auto simp: propagate_to_def rbind_eq_Inr_iff enable_write_ok split: if_splits)
  next
    case False
    with run c show ?thesis using disconnection_ok [OF _ ok] by (auto simp: propagate_to_def)
  qed
qed

lemma propagate_from_keeps: "propagate_from n e i bs k w = Inr w' \<Longrightarrow> world_ok K w \<Longrightarrow> world_ok K w'"
  by (induction n arbitrary: k w) (auto simp: rbind_eq_Inr_iff dest: propagate_to_keeps split: if_splits)

lemma propagate_keeps:
  assumes run: "propagate e i bs w = Inr w'" and ok: "world_ok K w"
  shows "world_ok K w'"
proof -
  obtain off s where "append_backlog e (length bs) ((globals w)\<lparr>master_repl_offset := off\<rparr>) = Inr s"
    "propagate_from MAX_REPLICAS e i bs 0 (w\<lparr>globals := s\<rparr>) = Inr w'"
    using run by (auto simp: propagate_def rbind_eq_Inr_iff Let_def)
  moreover have "server_ok K ((globals w)\<lparr>master_repl_offset := off\<rparr>)" using ok by (simp add: world_ok_def server_ok_def)
  ultimately show ?thesis using append_backlog_keeps propagate_from_keeps world_ok_globals [OF ok] by blast
qed

text \<open>One parse with what follows it, and the loop over the reads.\<close>

lemma advance_keeps: "advance_replica_offset c n s = Inr s' \<Longrightarrow> server_ok K s \<Longrightarrow> server_ok K s'"
  by (auto simp: advance_replica_offset_def rbind_eq_Inr_iff server_ok_def split: if_splits)

lemma rbindE: "rbind m f = Inr y \<Longrightarrow> (\<And>x. m = Inr x \<Longrightarrow> f x = Inr y \<Longrightarrow> P) \<Longrightarrow> P"
  by (auto simp: rbind_eq_Inr_iff)

definition drop_input :: "int \<Rightarrow> nat \<Rightarrow> nat \<Rightarrow> nat \<Rightarrow> world \<Rightarrow> (bool \<times> bool \<times> world) res" where
  \<comment> \<open>The end of \<open>consume\<close>: the parsed bytes leave the input buffer.\<close>
  "drop_input i n received writable w =
     rbind (get_client w i) (\<lambda>c.
     rbind (rb_read (input_buffer c) (of_nat n)) (\<lambda>(rc, rb).
       if rc \<noteq> 0 then Inr (False, False, w)
       else
         rbind (put_client w i (c\<lparr>input_buffer := rb\<rparr>)) (\<lambda>w.
           Inr (if received < writable then (True, False, w) else (False, True, w)))))"

lemma drop_input_keeps: "drop_input i n received writable w = Inr (fl, go_on, w') \<Longrightarrow> world_ok K w \<Longrightarrow> world_ok K w'"
  by (auto simp: drop_input_def rbind_eq_Inr_iff split: if_splits
      intro: put_client_ok [OF _ _ input_read_ok [OF get_client_ok]])

lemma consume_keeps:
  assumes run: "consume e i received writable w = Some (Inr (fl, go_on, w'))" and ok: "world_ok K w"
  shows "world_ok K w'"
proof -
  obtain p pos readable where p: "get_conn w i = Inr p" "rb_readable (input_buffer (client (command_handler p))) = Inr (pos, readable)"
    using run by (auto simp: consume_def rbind_def split: sum.splits prod.splits)
  let ?m = "mapped (input_buffer (client (command_handler p)))"
  obtain pos' p' where parse: "parser_parse (create_handler e) awaiting_snapshot ?m (pos + unat readable) p pos = Some (Inr (pos', p'))"
    using run p by (auto simp: consume_def Let_def rbind_eq_Inr_iff split: option.splits)
  note pok = get_conn_ok [OF p(1) ok]
  have "conn.ok K i p" using pok by (simp add: conn.ok_def)
  from conn.parser_parse_ok [OF parse this] have "stack_ok p'" "ch_inv K i (command_handler p')" by (simp_all add: conn.ok_def)
  note w1 = put_conn_ok [OF ok this]
  let ?w1 = "put_conn w i p'" and ?c = "client (command_handler p')"
  have "rbind (advance_replica_offset ?c (pos' - pos) (globals ?w1)) (\<lambda>s.
      rbind (if should_propogate_command ?c then propagate e i (slice ?m pos pos') (?w1\<lparr>globals := s\<rparr>) else Inr (?w1\<lparr>globals := s\<rparr>))
        (drop_input i (pos' - pos) received writable)) = Inr (fl, go_on, w')"
    using run p parse by (simp add: consume_def Let_def drop_input_def [abs_def])
  then obtain s w2 where adv: "advance_replica_offset ?c (pos' - pos) (globals ?w1) = Inr s"
    and feed: "(if should_propogate_command ?c then propagate e i (slice ?m pos pos') (?w1\<lparr>globals := s\<rparr>)
      else Inr (?w1\<lparr>globals := s\<rparr>)) = Inr w2"
    and rest: "drop_input i (pos' - pos) received writable w2 = Inr (fl, go_on, w')"
    by (elim rbindE)
  have "world_ok K (?w1\<lparr>globals := s\<rparr>)" using w1 advance_keeps [OF adv] server_ok_globals world_ok_globals by blast
  then have "world_ok K w2" using feed propagate_keeps by (auto split: if_splits)
  with rest show ?thesis by (rule drop_input_keeps)
qed

lemma received_keeps:
  assumes run: "rbind (region_store (input_buffer c) off bs) (\<lambda>rb. rbind (rb_write rb n) (\<lambda>(rc, rb).
      rbind (put_client w i (c\<lparr>input_buffer := rb\<rparr>)) (\<lambda>w. Inr (rc, w)))) = Inr (rc, w')"
    and ok: "world_ok K w" "client_ok i c"
  shows "world_ok K w'"
  using assms by (auto simp: rbind_eq_Inr_iff intro: put_client_ok [OF _ _ input_stored_ok])

lemma process_loop_keeps: "process_loop e i rs ws w = Some (Inr w') \<Longrightarrow> world_ok K w \<Longrightarrow> world_ok K w'"
proof (induction rs arbitrary: w)
  case Nil
  then show ?case by (auto simp: rbind_eq_Inr_iff split: if_splits intro: flush_ok_world)
next
  case (Cons r rs)
  note run = Cons.prems(1) and ok = Cons.prems(2)
  obtain c off wl where c: "get_client w i = Inr c" "rb_writable (input_buffer c) = Inr (off, wl)"
    using run by (auto simp: rbind_def split: sum.splits prod.splits)
  show ?case
  proof (cases "wl = 0 \<or> (\<forall>bs. r \<noteq> Received bs) \<or> r = Received []")
    case True
    then show ?thesis
      using run c ok by (auto simp: rbind_eq_Inr_iff split: read_result.splits if_splits
          intro: flush_ok_world disconnection_ok Cons.IH)
  next
    case False
    then obtain bs where r: "r = Received bs" "bs \<noteq> []" and wl: "wl \<noteq> 0" by auto
    let ?got = "take (unat wl) bs"
    let ?store = "rbind (region_store (input_buffer c) off ?got) (\<lambda>rb. rbind (rb_write rb (of_nat (length ?got))) (\<lambda>(rc, rb).
      rbind (put_client w i (c\<lparr>input_buffer := rb\<rparr>)) (\<lambda>w. Inr (rc, w))))"
    have run': "(case ?store of Inl err \<Rightarrow> Some (Inl err)
      | Inr (rc, w) \<Rightarrow>
          if rc \<noteq> 0 then Some (Inr w)
          else case consume e i (length ?got) (unat wl) w of
              None \<Rightarrow> None
            | Some (Inl err) \<Rightarrow> Some (Inl err)
            | Some (Inr (do_flush, go_on, w)) \<Rightarrow>
                if do_flush then Some (rbind (flush ws w i) (\<lambda>(_, w, _). Inr w))
                else if go_on then process_loop e i rs ws w
                else Some (Inr w)) = Some (Inr w')"
      using run c wl r by (simp only: process_loop.simps rbind_Inr sum.case prod.case read_result.case if_False Let_def)
    then obtain rc w1 where st: "?store = Inr (rc, w1)" by (cases ?store) auto
    have w1: "world_ok K w1" by (rule received_keeps [OF st ok get_client_ok [OF c(1) ok]])
    show ?thesis
    proof (cases "rc = 0")
      case True
      with run' st obtain fl go_on w2 where
        co: "consume e i (length ?got) (unat wl) w1 = Some (Inr (fl, go_on, w2))"
        and rest: "(if fl then Some (rbind (flush ws w2 i) (\<lambda>(_, w, _). Inr w))
          else if go_on then process_loop e i rs ws w2 else Some (Inr w2)) = Some (Inr w')"
        by (auto split: option.splits sum.splits prod.splits)
      from consume_keeps [OF co w1] rest show ?thesis
        by (auto simp: rbind_eq_Inr_iff split: if_splits intro: flush_ok_world Cons.IH)
    qed (use run' st w1 in auto)
  qed
qed

section \<open>Replication\<close>

lemma send_command_ok: "send_command ws as st c = Inr (sent, c', ws') \<Longrightarrow> client_ok i c \<Longrightarrow> client_ok i c'"
proof -
  assume run: "send_command ws as st c = Inr (sent, c', ws')" and ok: "client_ok i c"
  then obtain rb rc c1 where rb: "add_array_reply (output_buffer c) (Some as) (int (length as)) = Inr rb"
    "flush_client_output ws (c\<lparr>output_buffer := rb\<rparr>) = Inr (rc, sent, c1, ws')" "c' = c1\<lparr>repl_client_state := st\<rparr>"
    by (auto simp: send_command_def rbind_eq_Inr_iff)
  have "client_ok i (c\<lparr>output_buffer := rb\<rparr>)"
    using ok keeps_rbD [OF keeps_rb_array rb(1)] by (simp add: client_ok_def)
  from flush_output_ok [OF rb(2) this] rb(3) show ?thesis by (simp add: client_ok_def)
qed

lemmas send_defs = send_ping_command_def send_replconf_listening_port_command_def send_replconf_capa_command_def
  send_psync_command_def

lemma master_send_keeps: "master_send_rdb_snapshot e rs s c = Inr (sent, c') \<Longrightarrow> client_ok i c \<Longrightarrow> client_ok i c'"
  by (auto simp: master_send_rdb_snapshot_def Let_def rbind_eq_Inr_iff client_disable_write_events_def client_ok_def
      split: if_splits option.splits prod.splits)

lemma store_received_keeps: "store_received bs c = Inr c' \<Longrightarrow> client_ok i c \<Longrightarrow> client_ok i c'"
  by (auto simp: store_received_def rbind_eq_Inr_iff client_ok_def dest: region_store_keeps rb_write_keeps)

lemma write_snapshot_keeps:
  assumes run: "write_snapshot e n c s = Inr (fin, c', s')" and ok: "client_ok i c" "server_ok K s"
  shows "client_ok i c' \<and> server_ok K s'"
proof -
  obtain k path where n: "n = Some k" "tmp_rdb_fp c = Some (Open_File path)"
    using run by (cases n; cases "tmp_rdb_fp c"; cases "the (tmp_rdb_fp c)") (auto simp: write_snapshot_def rbind_eq_Inr_iff)
  let ?old = "case files s path of None \<Rightarrow> [] | Some old \<Rightarrow> old"
  obtain off readable bs rc rb where rb: "rb_readable (input_buffer c) = Inr (off, readable)"
    "region_load (input_buffer c) off k = Inr bs" "rb_read (input_buffer c) (of_nat k) = Inr (rc, rb)"
    using run n by (auto simp: write_snapshot_def rbind_eq_Inr_iff Let_def)
  have c1: "client_ok i (c\<lparr>input_buffer := rb, rdb_written_bytes := rdb_written_bytes c + int k\<rparr>)"
    using input_read_ok [OF ok(1) rb(3)] by (simp add: client_ok_def)
  have s1: "server_ok K (s\<lparr>files := (files s)(path \<mapsto> ?old @ bs)\<rparr>)" "server_ok K (s\<lparr>files := f, db := d\<rparr>)" for f d
    using ok(2) by (simp_all add: server_ok_def)
  have "if rdb_written_bytes c + int k = rdb_expected_bytes c
      then client_enable_read_events e (c\<lparr>input_buffer := rb, rdb_written_bytes := rdb_written_bytes c + int k,
          tmp_rdb_fp := Some Closed_File, repl_client_state := REPL_STATE_READY\<rparr>) = Inr c' \<and> server_ok K s'
      else c' = c\<lparr>input_buffer := rb, rdb_written_bytes := rdb_written_bytes c + int k\<rparr> \<and>
        s' = s\<lparr>files := (files s)(path \<mapsto> ?old @ bs)\<rparr>"
    using run n rb s1 unfolding write_snapshot_def by (auto simp: rbind_eq_Inr_iff Let_def)
  then show ?thesis using c1 s1 by (auto simp: client_enable_read_events_def client_ok_def split: if_splits)
qed

lemma chunk_keeps:
  "rbind (store_received bs c) (\<lambda>c. write_snapshot e n c s) = Inr (fin, c', s') \<Longrightarrow> client_ok i c \<Longrightarrow> server_ok K s \<Longrightarrow>
   client_ok i c' \<and> server_ok K s'"
  by (elim rbindE) (blast dest: store_received_keeps write_snapshot_keeps)

definition keeps_client :: "Client \<Rightarrow> server \<Rightarrow> (Client \<times> server) res \<Rightarrow> bool" where
  "keeps_client c s r \<longleftrightarrow> (\<forall>K i c' s'. r = Inr (c', s') \<longrightarrow> client_ok i c \<longrightarrow> server_ok K s \<longrightarrow> client_ok i c' \<and> server_ok K s')"

lemma keeps_client_simps [simp]: "keeps_client c s (Inl err)" "keeps_client c s (Inr (c, s))"
  by (simp_all add: keeps_client_def)

lemma keeps_client_chunk:
  "rbind (store_received bs c) (\<lambda>c. write_snapshot e n c s) = Inr (fin, c1, s1) \<Longrightarrow> keeps_client c1 s1 r \<Longrightarrow> keeps_client c s r"
  "write_snapshot e n c s = Inr (fin, c1, s1) \<Longrightarrow> keeps_client c1 s1 r \<Longrightarrow> keeps_client c s r"
  unfolding keeps_client_def by (blast dest: chunk_keeps write_snapshot_keeps)+

lemma receive_loop_keeps:
  assumes "receive_loop e rs br c s = Some r"
  shows "keeps_client c s r"
  using assms
proof (rule receive_loop.raw_induct [of "\<lambda>e rs br c s r. keeps_client c s r", rotated])
  fix loop e rs br c s r
  assume ih: "\<And>e rs br c s r. loop e rs br c s = Some r \<Longrightarrow> keeps_client c s r"
    and body: "(if rdb_received_bytes c < rdb_expected_bytes c then
        case rb_writable (input_buffer c) of
          Inl err \<Rightarrow> Some (Inl err)
        | Inr (_, writable) \<Rightarrow>
            if writable = 0 then Some (Inr (c, s))
            else
              case rs of
                [] \<Rightarrow> Some (Inr (c, s))
              | Read_Blocked # rs \<Rightarrow> Some (Inr (c, s))
              | Read_Interrupted # rs \<Rightarrow> loop e rs br c s
              | Read_Failed # rs \<Rightarrow> Some (Inr (c, s))
              | Received bs # rs \<Rightarrow>
                  let got = take (nat (rdb_expected_bytes c - rdb_received_bytes c)) bs in
                  if got = [] then Some (Inr (c, s))
                  else
                    case rbind (store_received got c) (\<lambda>c. write_snapshot e (Some (length got)) c s) of
                      Inl err \<Rightarrow> Some (Inl err)
                    | Inr (complete, c, s) \<Rightarrow>
                        if complete then Some (Inr (c, s)) else loop e rs (Some (length got)) c s
      else
        case write_snapshot e br c s of
          Inl err \<Rightarrow> Some (Inl err)
        | Inr (complete, c, s) \<Rightarrow> if complete then Some (Inr (c, s)) else loop e rs br c s) = Some r"
  show "keeps_client c s r"
    using body ih
    by (auto simp: Let_def split: if_splits sum.splits list.splits read_result.splits prod.splits)
      (erule keeps_client_chunk; (simp | (rule ih, assumption)))+
qed

lemma receive_rdb_keeps:
  assumes run: "replica_receive_rdb_snapshot e rs c s = Some (Inr (c', s'))" and ok: "client_ok i c" "server_ok K s"
  shows "client_ok i c' \<and> server_ok K s'"
proof -
  have "client_ok i (c\<lparr>tmp_rdb_fp := p\<rparr>)" "server_ok K (s\<lparr>files := f\<rparr>)" for p f
    using ok by (simp_all add: client_ok_def server_ok_def)
  then show ?thesis
    using run ok receive_loop_keeps unfolding keeps_client_def
    by (auto simp: replica_receive_rdb_snapshot_def Let_def split: option.splits if_splits) blast+
qed

lemma receive_snapshot_keeps:
  assumes run: "receive_snapshot e rs w i = Some (Inr w')" and ok: "world_ok K w"
  shows "world_ok K w'"
proof -
  obtain c c' s' where c: "get_client w i = Inr c" "replica_receive_rdb_snapshot e rs c (globals w) = Some (Inr (c', s'))"
    "put_client (w\<lparr>globals := s'\<rparr>) i c' = Inr w'"
    using run by (auto simp: receive_snapshot_def rbind_eq_Inr_iff split: sum.splits option.splits)
  from receive_rdb_keeps [OF c(2) get_client_ok [OF c(1) ok] server_ok_globals [OF ok]]
  show ?thesis using put_client_ok [OF c(3) world_ok_globals [OF ok]] by blast
qed

lemma on_client_keeps:
  assumes run: "on_client w i f = Inr w'" and ok: "world_ok K w"
    and f: "\<And>c sent c' x. f c = Inr (sent, c', x) \<Longrightarrow> client_ok i c \<Longrightarrow> client_ok i c'"
  shows "world_ok K w'"
proof -
  obtain c sent c' x w1 where c: "get_client w i = Inr c" "f c = Inr (sent, c', x)" "put_client w i c' = Inr w1"
    "w' = w1\<lparr>wire := (wire w1)(i := wire w1 i @ sent)\<rparr>"
    using run by (auto simp: on_client_def rbind_eq_Inr_iff)
  from put_client_ok [OF c(3) ok f [OF c(2) get_client_ok [OF c(1) ok]]] c(4) show ?thesis by simp
qed

lemma parse_header_keeps: "parse_snapshot_header c = Inr (b, c') \<Longrightarrow> client_ok i c \<Longrightarrow> client_ok i c'"
  by (auto simp: parse_snapshot_header_def rbind_eq_Inr_iff Let_def client_ok_def dest: rb_read_keeps
      split: if_splits option.splits)

lemma announced_keeps:
  "rbind (parse_snapshot_header c) (\<lambda>(found, c). if found then rbind (put_client w i c) (\<lambda>w. Inr (found, w)) else Inr (found, w)) =
     Inr (b, w') \<Longrightarrow> world_ok K w \<Longrightarrow> client_ok i c \<Longrightarrow> world_ok K w'"
  by (auto simp: rbind_eq_Inr_iff split: if_splits intro: put_client_ok parse_header_keeps)

lemma sends_keep:
  "on_client w i (send_ping_command ws) = Inr w' \<Longrightarrow> world_ok K w \<Longrightarrow> world_ok K w'"
  "on_client w i (\<lambda>c. send_replconf_listening_port_command ws c port) = Inr w' \<Longrightarrow> world_ok K w \<Longrightarrow> world_ok K w'"
  "on_client w i (send_replconf_capa_command ws) = Inr w' \<Longrightarrow> world_ok K w \<Longrightarrow> world_ok K w'"
  "on_client w i (send_psync_command ws) = Inr w' \<Longrightarrow> world_ok K w \<Longrightarrow> world_ok K w'"
  by (erule on_client_keeps, assumption, simp add: send_defs, erule send_command_ok, assumption)+

lemma snapshot_sent_keeps:
  "on_client w i (\<lambda>c. rbind (master_send_rdb_snapshot e ws s c) (\<lambda>(sent, c). Inr (sent, c, ()))) = Inr w' \<Longrightarrow>
   world_ok K w \<Longrightarrow> world_ok K w'"
  by (erule on_client_keeps, assumption) (auto simp: rbind_eq_Inr_iff intro: master_send_keeps)

lemma master_data_keeps:
  assumes run: "replica_handle_master_data e rs ws w i = Some (Inr w')" and ok: "world_ok K w"
  shows "world_ok K w'"
proof -
  obtain c where c: "get_client w i = Inr c" using run by (auto simp: replica_handle_master_data_def split: sum.splits)
  note cok = get_client_ok [OF c ok]
  show ?thesis
  proof (cases "repl_client_state c = REPL_STATE_RECEIVED_FULLRESYNC_RESPONSE")
    case True
    with run c show ?thesis
      by (auto simp: replica_handle_master_data_def split: sum.splits if_splits
          dest!: announced_keeps [OF _ ok cok] intro: receive_snapshot_keeps)
  next
    case False
    with run c ok show ?thesis
      by (cases "repl_client_state c")
        (auto simp: replica_handle_master_data_def intro: sends_keep process_loop_keeps receive_snapshot_keeps)
  qed
qed

lemma continue_psync_keeps:
  assumes run: "continue_psync e w i = Inr w'" and ok: "world_ok K w"
  shows "world_ok K w'"
proof -
  obtain c where c: "get_client w i = Inr c" using run by (auto simp: continue_psync_def rbind_eq_Inr_iff)
  have "client_ok i (c\<lparr>master_repl_state := MASTER_REPL_STATE_PROPAGATE\<rparr>)"
    using get_client_ok [OF c ok] by (simp add: client_ok_def)
  then show ?thesis using run c ok
    by (auto simp: continue_psync_def rbind_eq_Inr_iff Let_def disable_write_ok split: if_splits
        intro: disconnection_ok put_client_ok)
qed

lemma replica_out_keeps:
  assumes run: "master_handle_replica_out e ws w i = Inr w'" and ok: "world_ok K w"
  shows "world_ok K w'"
proof -
  obtain c where c: "get_client w i = Inr c" using run by (auto simp: master_handle_replica_out_def rbind_eq_Inr_iff)
  with run ok show ?thesis
    by (cases "master_repl_state c")
      (auto simp: master_handle_replica_out_def rbind_eq_Inr_iff
        intro: flush_ok_world continue_psync_keeps snapshot_sent_keeps)
qed

section \<open>The event loop\<close>

lemma rb_create_keeps: "rb_create os sz = Inr (rc, Some rb, calls) \<Longrightarrow> 0 < sz \<Longrightarrow> rb_inv rb"
  by (auto simp: rb_create_def Let_def rbind_eq_Inr_iff rb_inv_def mem_def split: if_splits)

lemma create_client_keeps: "create_client a b os1 os2 junk i = Inr (Some c, calls) \<Longrightarrow> client_ok i c"
  by (auto simp: create_client_def Let_def rbind_eq_Inr_iff client_ok_def RING_BUFFER_SIZE_def
      dest!: rb_create_keeps split: if_splits option.splits)

lemma create_handler_keeps:
  "create_command_handler e c s n k = Inr ch \<Longrightarrow> client_ok i c \<Longrightarrow> server_ok K s \<Longrightarrow> ch_inv K i ch"
  by (auto simp: create_command_handler_def inv_defs split: if_splits)

lemma open_connection_keeps:
  assumes run: "open_connection e os i prep w = Inr w'" and ok: "world_ok K w"
    and prep: "\<And>c. client_ok i c \<Longrightarrow> client_ok i (prep c)"
  shows "world_ok K w'"
proof -
  obtain c calls ch where c:
    "create_client (client_malloc_ok os) (parser_malloc_ok os) (input_os os) (output_os os) (unset os) i = Inr (Some c, calls)"
    "create_command_handler e (prep c) (globals w) 256 10 = Inr ch" "w' = put_conn w i (parser_init ch)"
    using run by (auto simp: open_connection_def select_client_db_def rbind_eq_Inr_iff split: option.splits if_splits)
  have "ch_inv K i ch"
    by (rule create_handler_keeps [OF c(2) prep [OF create_client_keeps [OF c(1)]] server_ok_globals [OF ok]])
  then show ?thesis unfolding c(3) by (intro put_conn_ok ok stack_ok_init) (simp add: parser_init_def)
qed

lemma on_conn_keeps:
  assumes run: "on_conn w i f = Inr w'" and ok: "world_ok K w" and f: "\<And>c c'. f c = Inr c' \<Longrightarrow> client_ok i c' = client_ok i c"
  shows "world_ok K w'"
proof -
  obtain c c' where c: "get_client w i = Inr c" "f c = Inr c'" "put_client w i c' = Inr w'"
    using run by (auto simp: on_conn_def rbind_eq_Inr_iff)
  with f get_client_ok [OF c(1) ok] show ?thesis by (blast intro: put_client_ok [OF c(3) ok])
qed

lemma accept_keeps:
  assumes run: "accept_connection e os i w = Inr w'" and ok: "world_ok K w"
  shows "world_ok K w'"
proof -
  obtain w1 where w1: "open_connection e os i (\<lambda>c. c\<lparr>client_type := CLIENT_TYPE_REGULAR\<rparr>) w = Inr w1"
    "on_conn w1 i (client_enable_read_events e) = Inr w'"
    using run by (auto simp: accept_connection_def rbind_eq_Inr_iff split: if_splits)
  have "world_ok K w1" by (rule open_connection_keeps [OF w1(1) ok]) (simp add: client_ok_def)
  from on_conn_keeps [OF w1(2) this] enable_read_ok show ?thesis by blast
qed

lemma handle_event_keeps: "handle_event e ev w = Some (Inr w') \<Longrightarrow> world_ok K w \<Longrightarrow> world_ok K w'"
  by (auto simp: handle_event_def input_event_def output_event_def rbind_eq_Inr_iff
      split: event.splits if_splits sum.splits option.splits ClientType.splits
      intro: accept_keeps disconnection_ok process_loop_keeps master_data_keeps replica_out_keeps flush_ok_world)

lemma server_ok_initial: "server_ok (settings (initial_server fs d)) (initial_server fs d)"
  by (simp add: server_ok_def initial_server_def rb_sound_def null_ring_buffer_def)

lemma create_backlog_keeps:
  assumes run: "create_backlog os s = Inr s'" and ok: "server_ok K s"
  shows "server_ok K s'"
proof -
  have pos: "0 < REPL_BACKLOG_SIZE" by (simp add: REPL_BACKLOG_SIZE_def)
  obtain rc r calls where r: "rb_create os REPL_BACKLOG_SIZE = Inr (rc, r, calls)"
    using run by (auto simp: create_backlog_def rbind_eq_Inr_iff)
  with run ok show ?thesis
    using rb_create_keeps [OF _ pos] by (cases r) (auto simp: create_backlog_def server_ok_def rb_sound_def)
qed

text \<open>Whatever the settings do not touch outlives the command line.\<close>

lemma parse_args_preserves:
  assumes run: "parse_args argv s port = Inr (s', port')" and P: "P s"
    and upd: "\<And>s x. P s \<Longrightarrow> P (s\<lparr>cfg_dir := x\<rparr>)" "\<And>s x. P s \<Longrightarrow> P (s\<lparr>cfg_dbfilename := x\<rparr>)"
      "\<And>s x. P s \<Longrightarrow> P (s\<lparr>cfg_port := x\<rparr>)"
      "\<And>s x y. P s \<Longrightarrow> P (s\<lparr>role := ROLE_SLAVE, cfg_master_host := x, cfg_master_port := y\<rparr>)"
  shows "P s'"
  using run P
proof (induction argv s port rule: parse_args.induct)
  case (1 argv s port)
  show ?case
    using 1(11,12) upd 1(1-10)
    by (subst (asm) parse_args.simps) (auto simp: rbind_eq_Inr_iff split: list.splits if_splits)
qed

lemma connect_keeps:
  assumes run: "connect_to_master e addresses os w = Inr w'" and ok: "world_ok K w"
  shows "world_ok K w'"
proof -
  obtain i w1 where w1: "open_connection e os i
      (\<lambda>c. c\<lparr>client_type := CLIENT_TYPE_MASTER, repl_client_state := REPL_STATE_CONNECTING\<rparr>) w = Inr w1"
    "on_conn w1 i (client_enable_write_events e) = Inr w'"
    using run by (auto simp: connect_to_master_def rbind_eq_Inr_iff split: option.splits)
  have "world_ok K w1" by (rule open_connection_keeps [OF w1(1) ok]) (simp add: client_ok_def)
  from on_conn_keeps [OF w1(2) this] enable_write_ok show ?thesis by blast
qed

lemma load_keeps: "load_at_start w = Inr w' \<Longrightarrow> world_ok K w \<Longrightarrow> world_ok K w'"
  by (auto simp: load_at_start_def Let_def rbind_eq_Inr_iff world_ok_def server_ok_def split: if_splits)

lemma startE:
  assumes "start_server e os fs argv = Inr (w, port)"
  obtains d s0 s w1 w2 where "redis_db_create True = Some d" "create_backlog (backlog_os os) (initial_server fs d) = Inr s0"
    "parse_args argv s0 DEFAULT_PORT = Inr (s, port)"
    "w1 = \<lparr>globals = s, conns = (\<lambda>_. None), wire = (\<lambda>_. []), released = []\<rparr>"
    "(if role s = ROLE_SLAVE then connect_to_master e (master_addresses os) (master_os os) w1 else Inr w1) = Inr w2"
    "load_at_start w2 = Inr w"
proof -
  have "redis_db_create b = Some d \<Longrightarrow> b" for b d by (simp add: redis_db_create_def split: if_splits)
  then show ?thesis
    using assms that
    by (auto simp: start_server_def start_listening_def Let_def split: option.splits if_splits elim!: rbindE) metis+
qed

lemma start_ok:
  assumes run: "start_server e os fs argv = Inr (w, port)"
  shows "world_ok (settings (globals w)) w"
proof -
  obtain d s0 s w1 w2 where boot: "create_backlog (backlog_os os) (initial_server fs d) = Inr s0"
    "parse_args argv s0 DEFAULT_PORT = Inr (s, port)"
    "w1 = \<lparr>globals = s, conns = (\<lambda>_. None), wire = (\<lambda>_. []), released = []\<rparr>"
    "(if role s = ROLE_SLAVE then connect_to_master e (master_addresses os) (master_os os) w1 else Inr w1) = Inr w2"
    "load_at_start w2 = Inr w"
    using run by (rule startE)
  have "server_ok (settings s) s"
    by (rule parse_args_preserves [OF boot(2)]) (use create_backlog_keeps [OF boot(1) server_ok_initial] in \<open>auto simp: server_ok_def\<close>)
  with boot(3) have "world_ok (settings s) w1" by (simp add: world_ok_def)
  with boot(4) have "world_ok (settings s) w2" by (auto split: if_splits intro: connect_keeps)
  from load_keeps [OF boot(5) this] show ?thesis using world_ok_settings by metis
qed

section \<open>Every reachable world\<close>

lemma server_step_keeps: "server_step w w' \<Longrightarrow> world_ok K w \<Longrightarrow> world_ok K w'"
  by (auto elim!: server_stepE intro: handle_event_keeps)

lemma reachable_ok: "reachable w \<Longrightarrow> world_ok (settings (globals w)) w"
  by (induction rule: reachable.induct) (use start_ok server_step_keeps world_ok_settings in \<open>metis\<close>)+

lemma handle_events_keeps: "handle_events evs w = Some (Inr w') \<Longrightarrow> world_ok K w \<Longrightarrow> world_ok K w'"
  by (induction evs arbitrary: w) (auto split: option.splits sum.splits dest: handle_event_keeps)

lemma event_loop_keeps: "event_loop rounds w = Some (Inr (stopped, w')) \<Longrightarrow> world_ok K w \<Longrightarrow> world_ok K w'"
  by (induction rounds w rule: event_loop.induct)
    (auto split: option.splits sum.splits if_splits dest: handle_events_keeps)

text \<open>No event changes what the command line has settled.\<close>

lemma event_loop_settings:
  assumes "start_server e os fs argv = Inr (w0, port)" "event_loop rounds w0 = Some (Inr (stopped, w))"
  shows "settings (globals w) = settings (globals w0)"
  using event_loop_keeps [OF assms(2) start_ok [OF assms(1)]] by (rule world_ok_settings)

end
