(* ===== verification/Serving.thy ===== *)
theory Serving
  imports Sessions Connections
begin

text \<open>
  A connection served from socket to socket: the bytes of a pipeline are received, parsed and executed,
  propagated when the last command asks for it, and the replies are handed to the kernel.
\<close>

lemma nth_double: "j < 2 * length m \<Longrightarrow> (m @ m) ! j = m ! (j mod length m)"
  by (cases "j < length m") (simp_all add: nth_append le_mod_geq)

lemma mapped_holds:
  assumes inv: "rb_inv rb"
  shows "holds (mapped rb) (unat (read_index rb) mod unat (rb_size rb)) (contents rb)"
proof -
  note facts = rb_invD [OF inv]
  let ?pos = "unat (read_index rb) mod unat (rb_size rb)" and ?n = "unat (readable_len rb)"
  have pos: "?pos < length (mem rb)" using facts(2,4) by simp
  have n: "?n \<le> length (mem rb)" using facts(4,6) by simp
  have len: "?pos + ?n \<le> length (mapped rb)" using pos n by (simp add: mapped_def)
  have "take ?n (drop ?pos (mapped rb)) = load_bytes ?pos ?n (mem rb)"
  proof (rule nth_equalityI)
    fix i assume "i < length (take ?n (drop ?pos (mapped rb)))"
    then have i: "i < ?n" by simp
    then have "take ?n (drop ?pos (mapped rb)) ! i = mapped rb ! (?pos + i)"
      using len by simp
    also have "\<dots> = mem rb ! ((?pos + i) mod length (mem rb))"
      unfolding mapped_def by (rule nth_double) (use i pos n in linarith)
    finally show "take ?n (drop ?pos (mapped rb)) ! i = load_bytes ?pos ?n (mem rb) ! i"
      using i by (simp add: load_bytes_def)
  qed (use len in simp)
  also have "\<dots> = contents rb"
    using load_bytes_mod [of "unat (read_index rb)" "mem rb" ?n] facts(4) by (simp add: contents_def)
  finally have t: "take ?n (drop ?pos (mapped rb)) = contents rb" .
  have "drop ?pos (mapped rb) = contents rb @ drop ?n (drop ?pos (mapped rb))"
    by (metis t append_take_drop_id)
  then show ?thesis using len unfolding holds_def length_contents by blast
qed

lemma parse_pipeline:
  assumes rep: "represents p (the_db ch) m" "p + length (concat reqs) \<le> store_cap"
    and client: "should_reply (client ch)" "client_type (client ch) \<noteq> CLIENT_TYPE_MASTER"
    and reqs: "\<forall>r \<in> set reqs. request_fits n r" "allocates e n" "n < 2 ^ 31"
    and spec: "session_spec (now e) (srv ch) m reqs = Some (rs, m')" and room: "room ch rs"
    and mem: "holds mm pos (concat (map encode_request reqs))"
    and fin: "fin = pos + length (concat (map encode_request reqs))"
  obtains ch' where
    "parser_parse (create_handler e) awaiting_snapshot mm fin (parser_init ch) pos = Some (Inr (fin, parser_init ch'))"
    "appends (output_buffer (client ch)) (concat (map encode_reply rs)) (output_buffer (client ch'))"
    "represents (p + length (concat reqs)) (the_db ch') m'" "same_frame ch ch'"
    "should_propogate_command (client ch') =
       (if reqs = [] then should_propogate_command (client ch) else is_set_request (last reqs))"
proof -
  from call_requests_spec [OF rep client(1) reqs room spec] obtain ch' where
    run: "call_requests (create_handler e) ch reqs = Inr ch'"
    "appends (output_buffer (client ch)) (concat (map encode_reply rs)) (output_buffer (client ch'))"
    "represents (p + length (concat reqs)) (the_db ch') m'" "same_frame ch ch'"
    "should_propogate_command (client ch') =
       (if reqs = [] then should_propogate_command (client ch) else is_set_request (last reqs))" by blast
  have "\<forall>r \<in> set reqs. sizes_ok r" using reqs request_fits_sizes by blast
  moreover have "not_master ch" using client(2) by (simp add: not_master_def)
  ultimately have
    "parser_parse (create_handler e) awaiting_snapshot mm fin (parser_init ch) pos = Some (Inr (fin, parser_init ch'))"
    using cmd.parse_requests [of ch mm pos reqs fin e] mem fin run(1) by simp
  with run(2-5) that show thesis by blast
qed

lemma world_simps [simp]: "w\<lparr>globals := globals w\<rparr> = w" "command_handler (parser_init ch) = ch"
  by (simp_all add: parser_init_def)

section \<open>What a served connection needs\<close>

text \<open>
  An idle connection that is no replica, an abstract session for the requests and room for its replies;
  and for a command that is propagated, room for the input in the backlog and in the buffers of the
  replicas.
\<close>

definition can_serve ::
  "env \<Rightarrow> world \<Rightarrow> int \<Rightarrow> CommandHandler \<Rightarrow> nat \<Rightarrow> keyspace \<Rightarrow> bytes list list \<Rightarrow> reply list \<Rightarrow> bool" where
  "can_serve e w i ch p m reqs rs \<longleftrightarrow>
     conns w i = Some (parser_init ch) \<and> i \<notin> set (replicas (globals w)) \<and> should_reply (client ch) \<and> client_type (client ch) \<noteq> CLIENT_TYPE_MASTER \<and>
     represents p (db (globals w)) m \<and> p + length (concat reqs) \<le> store_cap \<and>
     (\<exists>n < 2 ^ 31. allocates e n \<and> (\<forall>r \<in> set reqs. request_fits n r)) \<and>
     sink_ready (output_buffer (client ch)) (Suc (length (concat (map encode_reply rs))))"

definition can_propagate :: "env \<Rightarrow> world \<Rightarrow> int \<Rightarrow> bytes \<Rightarrow> bool" where
  "can_propagate e w i bs \<longleftrightarrow>
     (let s = globals w in
      epoll_ok e \<and> distinct (replicas s) \<and> length (replicas s) \<le> MAX_REPLICAS \<and>
      (\<forall>r \<in> set (replicas s). has_room w bs r) \<and>
      sink_ready (repl_backlog s) 0 \<and> length bs \<le> capacity (repl_backlog s) \<and>
      length bs \<le> index_budget (repl_backlog s) \<and> length (struct_bytes e) = sizeof_ring_buffer_struct \<and>
      0 \<le> repl_backlog_base_offset s \<and> repl_backlog_base_offset s + int (length bs) \<le> LONG_MAX \<and>
      0 \<le> master_repl_offset s \<and> master_repl_offset s + int (length bs) \<le> LONG_MAX)"

text \<open>What follows the parse, when the command of connection \<open>i\<close> has been executed.\<close>

lemma propagate_if_ok:
  assumes out: "i \<notin> set (replicas (globals w))"
    and spread: "b \<Longrightarrow> can_propagate e w i bs \<and> length bs \<le> sizeof_ring_buffer_struct" and frame: "same_frame (ch\<lparr>srv := globals w\<rparr>) ch'"
  obtains w' where "(if b then propagate e i bs (put_conn w i (parser_init ch')) else Inr (put_conn w i (parser_init ch'))) = Inr w'"
    "conns w' i = Some (parser_init ch')" "wire w' = wire w" "db (globals w') = the_db ch'"
    "\<forall>r \<in> set (replicas (globals w)). if b then fed w bs w' r else conns w' r = conns w r"
proof -
  let ?w1 = "put_conn w i (parser_init ch')"
  obtain d where srv: "srv ch' = (globals w)\<lparr>db := d\<rparr>" using frame by (auto simp: same_frame_def)
  have w1: "globals ?w1 = (globals w)\<lparr>db := the_db ch'\<rparr>" "conns ?w1 i = Some (parser_init ch')" "wire ?w1 = wire w"
    by (simp_all add: put_conn_def srv parser_init_def)
  have old: "conns ?w1 r = conns w r" if "r \<in> set (replicas (globals w))" for r
    using that out by (auto simp: put_conn_def)
  show thesis
  proof (cases b)
    case True
    note spread = spread [OF True]
    have "\<forall>r \<in> set (replicas (globals ?w1)). has_room ?w1 bs r"
      using spread old by (auto simp: can_propagate_def Let_def has_room_def w1)
    with spread obtain w' where
      w': "propagate e i bs ?w1 = Inr w'" "db (globals w') = the_db ch'" "wire w' = wire w"
      "\<forall>r \<in> set (replicas (globals w)). fed ?w1 bs w' r" "conns w' i = conns ?w1 i"
      using propagate_ok [of ?w1 bs e i] out by (auto simp: can_propagate_def Let_def w1 sink_ready_def)
    moreover have "fed w bs w' r" if "r \<in> set (replicas (globals w))" for r
      using that w'(4) old by (auto simp: fed_def)
    ultimately show thesis using that True w1 by auto
  next
    case False
    with that w1 old show thesis by auto
  qed
qed

lemma consume_ok:
  assumes serve: "can_serve e w i ch p m reqs rs" and spread: "is_set_request (last reqs) \<Longrightarrow> can_propagate e w i bs \<and> length bs \<le> sizeof_ring_buffer_struct"
    and reqs: "reqs \<noteq> []"
    and spec: "session_spec (now e) (globals w) m reqs = Some (rs, m')"
    and bs: "bs = concat (map encode_request reqs)"
    and inb: "rb_inv (input_buffer (client ch))" "contents (input_buffer (client ch)) = bs"
    and few: "received < writable"
  shows "\<exists>w' ch'. consume e i received writable w = Some (Inr (True, False, w')) \<and>
    conns w' i = Some (parser_init ch') \<and> contents (input_buffer (client ch')) = [] \<and>
    appends (output_buffer (client ch)) (concat (map encode_reply rs)) (output_buffer (client ch')) \<and>
    represents (p + length (concat reqs)) (db (globals w')) m' \<and> wire w' = wire w \<and>
    (\<forall>r \<in> set (replicas (globals w)). if is_set_request (last reqs) then fed w bs w' r else conns w' r = conns w r)"
proof -
  let ?ch = "ch\<lparr>srv := globals w\<rparr>" and ?rb = "input_buffer (client ch)"
  let ?pos = "unat (read_index ?rb) mod unat (rb_size ?rb)"
  from serve have conn: "conns w i = Some (parser_init ch)" and rep: "represents p (the_db ?ch) m" "p + length (concat reqs) \<le> store_cap"
    and out: "i \<notin> set (replicas (globals w))"
    and cl: "should_reply (client ?ch)" "client_type (client ?ch) \<noteq> CLIENT_TYPE_MASTER" and room: "room ?ch rs"
    by (auto simp: can_serve_def room_def)
  from serve obtain n where n: "\<forall>r \<in> set reqs. request_fits n r" "allocates e n" "n < 2 ^ 31"
    by (auto simp: can_serve_def)
  have spec': "session_spec (now e) (srv ?ch) m reqs = Some (rs, m')" using spec by simp
  have mm: "holds (mapped ?rb) ?pos (concat (map encode_request reqs))"
    using mapped_holds [OF inb(1)] inb(2) bs by simp
  obtain ch' where ch':
    "parser_parse (create_handler e) awaiting_snapshot (mapped ?rb) (?pos + length bs) (parser_init ?ch) ?pos =
       Some (Inr (?pos + length bs, parser_init ch'))"
    "appends (output_buffer (client ?ch)) (concat (map encode_reply rs)) (output_buffer (client ch'))"
    "represents (p + length (concat reqs)) (the_db ch') m'" "same_frame ?ch ch'"
    "should_propogate_command (client ch') = is_set_request (last reqs)"
    using parse_pipeline [OF rep cl n spec' room mm] bs reqs by metis
  obtain w' where w': "(if is_set_request (last reqs) then propagate e i bs (put_conn w i (parser_init ch'))
        else Inr (put_conn w i (parser_init ch'))) = Inr w'"
    "conns w' i = Some (parser_init ch')" "wire w' = wire w" "db (globals w') = the_db ch'"
    "\<forall>r \<in> set (replicas (globals w)). if is_set_request (last reqs) then fed w bs w' r else conns w' r = conns w r"
    by (rule propagate_if_ok [OF out spread ch'(4)])
  have same: "input_buffer (client ch') = ?rb" "client_type (client ch') \<noteq> CLIENT_TYPE_MASTER"
    using ch'(4) cl(2) by (auto simp: same_frame_def)
  have len: "unat (readable_len ?rb) = length bs" using inb(2) by (metis length_contents)
  have sl: "slice (mapped ?rb) ?pos (?pos + length bs) = bs"
    using holds_slice [OF mapped_holds [OF inb(1)]] inb(2) by simp
  note rd = rb_read_ok [OF inb(1), of "length bs", unfolded inb(2)]
  let ?rb' = "?rb\<lparr>read_index := read_index ?rb + of_nat (length bs)\<rparr>"
  let ?ch2 = "ch'\<lparr>srv := globals w', client := (client ch')\<lparr>input_buffer := ?rb'\<rparr>\<rparr>"
  have gc: "get_conn w i = Inr (parser_init ?ch)" using conn by (simp add: get_conn_def parser_init_def)
  have gc': "get_client w' i = Inr (client ch')"
    using w'(2) by (simp add: get_client_def get_conn_def parser_init_def)
  have pc: "put_client w' i c = Inr (w'\<lparr>conns := (conns w')(i \<mapsto> parser_init (ch'\<lparr>srv := globals w', client := c\<rparr>))\<rparr>)" for c
    using w'(2) by (simp add: put_client_def put_conn_def get_conn_def parser_init_def)
  have "consume e i received writable w = Some (Inr (True, False, w'\<lparr>conns := (conns w')(i \<mapsto> parser_init ?ch2)\<rparr>))"
    using same rd(1) few
    by (simp add: consume_def gc rb_readable_inv [OF inb(1)] len advance_replica_offset_def gc' pc Let_def
        ch'(1,5) sl w'(1) cong: if_cong)
  moreover have "contents ?rb' = []" using rd(3) by simp
  ultimately show ?thesis using ch'(2,3) w'(3-5) same(1) out
    by (intro exI [of _ "w'\<lparr>conns := (conns w')(i \<mapsto> parser_init ?ch2)\<rparr>"] exI [of _ ?ch2])
      (auto simp: fed_def)
qed

section \<open>One round of input\<close>

lemma put_conn_idle: "conns w i = Some (parser_init ch) \<Longrightarrow>
    put_client w i c = Inr (w\<lparr>conns := (conns w)(i \<mapsto> parser_init (ch\<lparr>srv := globals w, client := c\<rparr>))\<rparr>)"
  by (simp add: put_client_def put_conn_def get_conn_def parser_init_def)

lemma get_client_idle: "conns w i = Some (parser_init ch) \<Longrightarrow> get_client w i = Inr (client ch)"
  by (simp add: get_client_def get_conn_def parser_init_def)

lemma receive_ok:
  assumes inv: "rb_inv rb" and fit: "length bs \<le> unat (writable_len rb)" "length bs \<le> index_budget rb"
  obtains rb1 rb2 where "rb_writable rb = Inr (unat (write_index rb) mod unat (rb_size rb), writable_len rb)"
    "region_store rb (unat (write_index rb) mod unat (rb_size rb)) bs = Inr rb1"
    "rb_write rb1 (of_nat (length bs)) = Inr (0, rb2)" "appends rb bs rb2"
proof -
  have "fits rb (length bs)"
    using fit contents_bounded [OF inv] writable_len_room [OF inv] unfolding fits_def by linarith
  from rb_commit_at_end [OF inv this, of "length bs"] obtain rb2 where
    "rb_commit rb (unat (write_index rb) mod unat (rb_size rb)) bs (length bs) = Inr rb2" "appends rb bs rb2" by auto
  with commit_split [OF this(1) fit(1)] rb_writable_inv [OF inv] that show thesis by blast
qed

lemma flush_ok:
  assumes conn: "conns w i = Some (parser_init ch)" and inv: "rb_inv (output_buffer (client ch))"
    and k: "length (contents (output_buffer (client ch))) \<le> k"
  obtains rc ws' rb where "flush (Sent k # ws) w i =
      Inr (rc, w\<lparr>conns := (conns w)(i \<mapsto> parser_init (ch\<lparr>srv := globals w, client := (client ch)\<lparr>output_buffer := rb\<rparr>\<rparr>)),
        wire := (wire w)(i := wire w i @ contents (output_buffer (client ch)))\<rparr>, ws')" "contents rb = []"
  using flush_all [OF inv k, of ws "[]"] that
  by (auto simp: flush_def get_client_idle [OF conn] put_conn_idle [OF conn] flush_client_output_def)

lemma can_propagate_upd:
  "can_propagate e w i bs \<Longrightarrow> i \<notin> set (replicas (globals w)) \<Longrightarrow> can_propagate e (w\<lparr>conns := (conns w)(i := q)\<rparr>) i bs"
  by (auto simp: can_propagate_def Let_def has_room_def)

lemma process_received:
  assumes conn: "conns w i = Some (parser_init ch)" and inv: "rb_inv (input_buffer (client ch))" and bs: "bs \<noteq> []"
    and fit: "length bs \<le> unat (writable_len (input_buffer (client ch)))" "length bs \<le> index_budget (input_buffer (client ch))"
  obtains rb where "appends (input_buffer (client ch)) bs rb"
    "\<And>w2 rc w3 ws'. consume e i (length bs) (unat (writable_len (input_buffer (client ch))))
        (w\<lparr>conns := (conns w)(i \<mapsto> parser_init (ch\<lparr>srv := globals w, client := (client ch)\<lparr>input_buffer := rb\<rparr>\<rparr>))\<rparr>) =
        Some (Inr (True, False, w2)) \<Longrightarrow>
      flush ws w2 i = Inr (rc, w3, ws') \<Longrightarrow> process_loop e i [Received bs] ws w = Some (Inr w3)"
proof -
  let ?rb = "input_buffer (client ch)"
  from receive_ok [OF inv fit] obtain rb1 rb2 where
    st: "rb_writable ?rb = Inr (unat (write_index ?rb) mod unat (rb_size ?rb), writable_len ?rb)"
      "region_store ?rb (unat (write_index ?rb) mod unat (rb_size ?rb)) bs = Inr rb1"
      "rb_write rb1 (of_nat (length bs)) = Inr (0, rb2)" and rb2: "appends ?rb bs rb2" by blast
  have "writable_len ?rb \<noteq> 0" using fit(1) bs by (metis le_zero_eq length_0_conv unat_0)
  with st fit(1) bs show thesis
    by (intro that [OF rb2]) (simp add: get_client_idle [OF conn] put_conn_idle [OF conn])
qed

text \<open>What is done to the connection itself does not matter to the replicas.\<close>

lemma replicas_fed_upd:
  assumes fed: "\<forall>r \<in> set (replicas (globals w)).
      if b then fed (w\<lparr>conns := (conns w)(i := q)\<rparr>) bs w2 r else conns w2 r = conns (w\<lparr>conns := (conns w)(i := q)\<rparr>) r"
    and out: "i \<notin> set (replicas (globals w))"
  shows "\<forall>r \<in> set (replicas (globals w)).
    if b then fed w bs (w2\<lparr>conns := (conns w2)(i := q'), wire := x\<rparr>) r
    else conns (w2\<lparr>conns := (conns w2)(i := q'), wire := x\<rparr>) r = conns w r"
proof
  fix r
  assume r: "r \<in> set (replicas (globals w))"
  then have "r \<noteq> i" using out by auto
  with fed r show "if b then fed w bs (w2\<lparr>conns := (conns w2)(i := q'), wire := x\<rparr>) r
    else conns (w2\<lparr>conns := (conns w2)(i := q'), wire := x\<rparr>) r = conns w r" by (auto simp: fed_def split: if_splits)
qed

lemma process_ok:
  assumes serve: "can_serve e w i ch p m reqs rs" and spread: "is_set_request (last reqs) \<Longrightarrow> can_propagate e w i bs \<and> length bs \<le> sizeof_ring_buffer_struct"
    and reqs: "reqs \<noteq> []"
    and spec: "session_spec (now e) (globals w) m reqs = Some (rs, m')"
    and bs: "bs = concat (map encode_request reqs)"
    and inb: "rb_inv (input_buffer (client ch))" "contents (input_buffer (client ch)) = []"
      "length bs < capacity (input_buffer (client ch))" "length bs \<le> index_budget (input_buffer (client ch))"
    and k: "length (contents (output_buffer (client ch))) + length (concat (map encode_reply rs)) \<le> k"
  shows "\<exists>w' ch'. process_loop e i [Received bs] (Sent k # ws) w = Some (Inr w') \<and>
    conns w' i = Some (parser_init ch') \<and> contents (input_buffer (client ch')) = [] \<and>
    contents (output_buffer (client ch')) = [] \<and>
    wire w' i = wire w i @ contents (output_buffer (client ch)) @ concat (map encode_reply rs) \<and>
    represents (p + length (concat reqs)) (db (globals w')) m' \<and>
    (\<forall>r \<in> set (replicas (globals w)). if is_set_request (last reqs) then fed w bs w' r else conns w' r = conns w r)"
proof -
  let ?rb = "input_buffer (client ch)"
  have conn: "conns w i = Some (parser_init ch)" and out: "i \<notin> set (replicas (globals w))" using serve by (auto simp: can_serve_def)
  have wl: "unat (writable_len ?rb) = capacity ?rb" using writable_len_room [OF inb(1)] inb(2) by simp
  have fit: "length bs \<le> unat (writable_len ?rb)" using wl inb(3) by simp
  have "bs \<noteq> []" using reqs bs by (cases reqs) (auto simp: encode_request_def)
  from process_received [OF conn inb(1) this fit inb(4), of e "Sent k # ws"] obtain rb2 where rb2: "appends ?rb bs rb2"
    and step: "\<And>w2 rc w3 ws'. consume e i (length bs) (unat (writable_len ?rb))
        (w\<lparr>conns := (conns w)(i \<mapsto> parser_init (ch\<lparr>srv := globals w, client := (client ch)\<lparr>input_buffer := rb2\<rparr>\<rparr>))\<rparr>) =
        Some (Inr (True, False, w2)) \<Longrightarrow>
      flush (Sent k # ws) w2 i = Inr (rc, w3, ws') \<Longrightarrow> process_loop e i [Received bs] (Sent k # ws) w = Some (Inr w3)" by metis
  let ?ch1 = "ch\<lparr>srv := globals w, client := (client ch)\<lparr>input_buffer := rb2\<rparr>\<rparr>"
  let ?w1 = "w\<lparr>conns := (conns w)(i \<mapsto> parser_init ?ch1)\<rparr>"
  have spread': "is_set_request (last reqs) \<Longrightarrow> can_propagate e ?w1 i bs \<and> length bs \<le> sizeof_ring_buffer_struct"
    using spread can_propagate_upd [OF _ out] by blast
  have "can_serve e ?w1 i ?ch1 p m reqs rs" using serve by (auto simp: can_serve_def)
  moreover have "rb_inv (input_buffer (client ?ch1))" "contents (input_buffer (client ?ch1)) = bs"
    using rb2 inb(2) by (auto simp: appends_def)
  moreover have "session_spec (now e) (globals ?w1) m reqs = Some (rs, m')" using spec by simp
  ultimately obtain w2 ch2 where
    c: "consume e i (length bs) (unat (writable_len ?rb)) ?w1 = Some (Inr (True, False, w2))"
      "conns w2 i = Some (parser_init ch2)" "contents (input_buffer (client ch2)) = []"
      "appends (output_buffer (client ch)) (concat (map encode_reply rs)) (output_buffer (client ch2))"
      "represents (p + length (concat reqs)) (db (globals w2)) m'" "wire w2 = wire w"
      "\<forall>r \<in> set (replicas (globals w)). if is_set_request (last reqs) then fed ?w1 bs w2 r else conns w2 r = conns ?w1 r"
    using consume_ok [OF _ spread' reqs _ bs, of ?ch1 p m rs m' "length bs"
        "unat (writable_len ?rb)"] wl inb(3) by auto
  have outb: "rb_inv (output_buffer (client ch2))"
    "contents (output_buffer (client ch2)) = contents (output_buffer (client ch)) @ concat (map encode_reply rs)"
    using c(4) by (auto simp: appends_def)
  then have "length (contents (output_buffer (client ch2))) \<le> k" using k by (metis length_append)
  from flush_ok [OF c(2) outb(1) this, of ws] obtain rc ws' rb where fl: "flush (Sent k # ws) w2 i =
      Inr (rc, w2\<lparr>conns := (conns w2)(i \<mapsto> parser_init (ch2\<lparr>srv := globals w2, client := (client ch2)\<lparr>output_buffer := rb\<rparr>\<rparr>)),
        wire := (wire w2)(i := wire w2 i @ contents (output_buffer (client ch2)))\<rparr>, ws')" "contents rb = []" by blast
  let ?ch3 = "ch2\<lparr>srv := globals w2, client := (client ch2)\<lparr>output_buffer := rb\<rparr>\<rparr>"
  let ?w3 = "w2\<lparr>conns := (conns w2)(i \<mapsto> parser_init ?ch3),
        wire := (wire w2)(i := wire w2 i @ contents (output_buffer (client ch2)))\<rparr>"
  have run: "process_loop e i [Received bs] (Sent k # ws) w = Some (Inr ?w3)" by (rule step [OF c(1) fl(1)])
  have "\<forall>r \<in> set (replicas (globals w)). if is_set_request (last reqs) then fed w bs ?w3 r else conns ?w3 r = conns w r"
    by (rule replicas_fed_upd [OF c(7) out])
  then show ?thesis using run c(3,5,6) outb(2) fl(2) by (intro exI [of _ ?w3] exI [of _ ?ch3]) simp
qed

end
