(* ===== verification/Startup.thy ===== *)
theory Startup
  imports World_Safety Serving
begin

text \<open>
  A server whose system calls succeed: it starts with an empty database and an empty backlog, and a
  connection that it accepts is ready to be served.
\<close>

section \<open>System calls that succeed\<close>

definition rb_works :: "rb_os \<Rightarrow> u64 \<Rightarrow> bool" where
  "rb_works os sz \<longleftrightarrow> sz mod page_size os = 0 \<and> malloc_ok os \<and> 0 \<le> name_len os \<and> name_len os < 64 \<and> shm_fd os \<noteq> -1 \<and>
     unlink_ok os \<and> ftruncate_ok os \<and> map1_ok os \<and> map2_ok os"

definition fcntl_works :: "fcntl_os \<Rightarrow> bool" where
  "fcntl_works os \<longleftrightarrow> getfl os \<noteq> None \<and> setfl_ok os"

lemma set_non_blocking_works [simp]:
  "fcntl_works os \<Longrightarrow> rbind (set_non_blocking os) f = f (the (getfl os) OR O_NONBLOCK)"
  by (auto simp: fcntl_works_def set_non_blocking_def)

definition fresh_rb :: "u64 \<Rightarrow> ring_buffer \<Rightarrow> bool" where
  "fresh_rb sz rb \<longleftrightarrow> rb_inv rb \<and> contents rb = [] \<and> capacity rb = unat sz \<and> index_budget rb = 2 ^ 64 - 1"

lemma rb_create_works:
  assumes "rb_works os sz" "0 < sz"
  shows "\<exists>rb. rb_create os sz = Inr (0, Some rb, []) \<and> fresh_rb sz rb"
  using assms
  by (auto simp: rb_works_def fresh_rb_def rb_create_def Let_def assert_state_def rb_inv_def mem_def contents_def load_bytes_def
      readable_len_def capacity_def index_budget_def)

definition client_works :: "client_os \<Rightarrow> bool" where
  "client_works os \<longleftrightarrow> client_malloc_ok os \<and> parser_malloc_ok os \<and> rb_works (input_os os) RING_BUFFER_SIZE \<and>
     rb_works (output_os os) RING_BUFFER_SIZE \<and> fcntl_works (fcntl_calls os) \<and> epoll_add_ok os"

definition fresh_client :: "int \<Rightarrow> Client \<Rightarrow> bool" where
  "fresh_client i c \<longleftrightarrow> fd c = i \<and> fresh_rb RING_BUFFER_SIZE (input_buffer c) \<and> fresh_rb RING_BUFFER_SIZE (output_buffer c) \<and>
     should_reply c \<and> \<not> should_propogate_command c \<and> tmp_rdb_fp c = None \<and> rdb_written_bytes c = 0"

lemma create_client_works:
  assumes "client_works os"
  shows "\<exists>c. create_client (client_malloc_ok os) (parser_malloc_ok os) (input_os os) (output_os os) (unset os) i = Inr (Some c, []) \<and>
    fresh_client i c \<and> epoll_events c = 0"
proof -
  have pos: "0 < RING_BUFFER_SIZE" by (simp add: RING_BUFFER_SIZE_def)
  from assms rb_create_works [OF _ pos] obtain a b where
    "rb_create (input_os os) RING_BUFFER_SIZE = Inr (0, Some a, [])" "fresh_rb RING_BUFFER_SIZE a"
    "rb_create (output_os os) RING_BUFFER_SIZE = Inr (0, Some b, [])" "fresh_rb RING_BUFFER_SIZE b"
    unfolding client_works_def by blast
  then show ?thesis using assms by (simp add: create_client_def client_works_def fresh_client_def)
qed

section \<open>A new connection\<close>

lemma accept_works:
  assumes os: "client_works os" and i: "i \<noteq> -1" and e: "epoll_ok e" "alloc e sizeof_CommandHandler" "alloc e 256" "alloc e 80"
  shows "\<exists>ch. accept_connection e os i w = Inr (put_conn w i (parser_init ch)) \<and> srv ch = globals w \<and>
    fresh_client i (client ch) \<and> client_type (client ch) = CLIENT_TYPE_REGULAR \<and> epoll_events (client ch) = EPOLLIN"
proof -
  from create_client_works [OF os] obtain c where c:
    "create_client (client_malloc_ok os) (parser_malloc_ok os) (input_os os) (output_os os) (unset os) i = Inr (Some c, [])"
    "fresh_client i c" "epoll_events c = 0" by blast
  let ?c = "c\<lparr>client_type := CLIENT_TYPE_REGULAR, epoll_events := epoll_events c OR EPOLLIN\<rparr>"
  let ?ch = "\<lparr>buf = [], buf_size = 256, args = [], args_freed = False, arg_capacity = 10, ends = [], ends_capacity = 10,
      client = ?c, srv = globals w\<rparr>"
  have "accept_connection e os i w = Inr (put_conn w i (parser_init ?ch))"
    using i e c os
    by (simp add: accept_connection_def open_connection_def on_conn_def create_command_handler_def select_client_db_def
        client_works_def client_enable_read_events_def get_client_def put_client_def get_conn_def put_conn_def parser_init_def)
  moreover have "fresh_client i (client ?ch)" using c(2) by (simp add: fresh_client_def)
  ultimately show ?thesis using c(3) by (intro exI [of _ ?ch]) simp
qed

section \<open>The start\<close>

lemma parse_args_frame:
  assumes "parse_args argv s port = Inr (s', port')"
  shows "db s' = db s \<and> repl_backlog s' = repl_backlog s \<and> replicas s' = replicas s \<and>
    repl_backlog_base_offset s' = repl_backlog_base_offset s \<and> master_repl_offset s' = master_repl_offset s"
  by (rule parse_args_preserves [OF assms]) simp_all

lemma create_backlog_works:
  assumes "rb_works os REPL_BACKLOG_SIZE"
  shows "\<exists>rb. create_backlog os s = Inr (s\<lparr>repl_backlog := rb\<rparr>) \<and> fresh_rb REPL_BACKLOG_SIZE rb"
proof -
  have "0 < REPL_BACKLOG_SIZE" by (simp add: REPL_BACKLOG_SIZE_def)
  from rb_create_works [OF assms this] show ?thesis by (auto simp: create_backlog_def)
qed

definition started :: "world \<Rightarrow> bool" where
  \<comment> \<open>A master before its first connection.\<close>
  "started w \<longleftrightarrow> represents 0 (db (globals w)) Map.empty \<and> conns w = (\<lambda>_. None) \<and> wire w = (\<lambda>_. []) \<and>
     replicas (globals w) = [] \<and> fresh_rb REPL_BACKLOG_SIZE (repl_backlog (globals w)) \<and>
     repl_backlog_base_offset (globals w) = 0 \<and> master_repl_offset (globals w) = 0"

lemma connected_role: "connect_to_master e as os w = Inr w' \<Longrightarrow> role (globals w') = role (globals w)"
  by (auto simp: connect_to_master_def open_connection_def on_conn_def get_client_def put_client_def get_conn_def put_conn_def
      create_command_handler_def select_client_db_def rbind_eq_Inr_iff parser_init_def split: option.splits if_splits)

lemma start_master:
  assumes run: "start_server e os fs argv = Inr (w, port)" and role: "role (globals w) = ROLE_MASTER"
    and backlog: "rb_works (backlog_os os) REPL_BACKLOG_SIZE"
  shows "started w"
proof -
  obtain d s0 s w1 w2 where boot: "redis_db_create True = Some d" "create_backlog (backlog_os os) (initial_server fs d) = Inr s0"
    "parse_args argv s0 DEFAULT_PORT = Inr (s, port)"
    "w1 = \<lparr>globals = s, conns = (\<lambda>_. None), wire = (\<lambda>_. []), released = []\<rparr>"
    "(if role s = ROLE_SLAVE then connect_to_master e (master_addresses os) (master_os os) w1 else Inr w1) = Inr w2"
    "load_at_start w2 = Inr w"
    using run by (rule startE)
  have "role (globals w2) = role s" using boot(4,5) by (auto dest: connected_role split: if_splits)
  moreover have "role (globals w) = role (globals w2)"
    using boot(6) by (auto simp: load_at_start_def Let_def rbind_eq_Inr_iff split: if_splits)
  ultimately have w: "w = w1" using role boot(5,6) by (simp add: load_at_start_def Let_def)
  from create_backlog_works [OF backlog, of "initial_server fs d"] boot(2) obtain rb where
    "s0 = (initial_server fs d)\<lparr>repl_backlog := rb\<rparr>" "fresh_rb REPL_BACKLOG_SIZE rb" by auto
  with db_create_rep [OF boot(1)] parse_args_frame [OF boot(3)] show ?thesis
    by (simp add: w boot(4) started_def represents_def lists_le_def initial_server_def)
qed

definition boot_works :: "boot_os \<Rightarrow> bool" where
  "boot_works os \<longleftrightarrow> rb_works (backlog_os os) REPL_BACKLOG_SIZE \<and> db_malloc_ok os \<and> epoll_fd os \<noteq> -1 \<and> listen_fd os \<noteq> -1 \<and>
     setsockopt_ok os \<and> bind_ok os \<and> listen_ok os \<and> fcntl_works (listen_fcntl os) \<and> listen_epoll_ok os"

lemma start_works:
  assumes "boot_works os"
  shows "\<exists>w. start_server e os fs [] = Inr (w, 6379) \<and> role (globals w) = ROLE_MASTER \<and> files (globals w) = fs \<and>
    cfg_dir (globals w) = ''/tmp/redis-data'' \<and> cfg_dbfilename (globals w) = ''dump.rdb''"
proof -
  let ?d = "\<lparr>dbh = kh_init, key_count = 0, expiry_count = 0\<rparr>"
  from create_backlog_works assms obtain rb where
    "create_backlog (backlog_os os) (initial_server fs ?d) = Inr ((initial_server fs ?d)\<lparr>repl_backlog := rb\<rparr>)"
    unfolding boot_works_def by blast
  then show ?thesis
    using assms
    by (simp add: start_server_def boot_works_def redis_db_create_def parse_args.simps load_at_start_def start_listening_def
        initial_server_def DEFAULT_PORT_def)
qed

section \<open>What a round reports\<close>

lemma epoll_flags:
  "EPOLLIN AND EPOLLOUT = 0" "EPOLLOUT AND EPOLLIN = 0" "EPOLLIN \<noteq> 0" "EPOLLOUT \<noteq> 0" "EPOLLIN OR EPOLLOUT \<noteq> 0"
  by (simp_all add: EPOLLIN_def EPOLLOUT_def)

lemma and_or_absorb [simp]: "a AND (a OR x) = a" for a :: u32
  by (auto simp: bit_eq_iff bit_simps)

lemma epoll_reports:
  assumes "conns w i = Some p" "events \<noteq> 0"
    "events AND (epoll_events (client (command_handler p)) OR EPOLLERR OR EPOLLHUP) = events"
  shows "epoll_wait w [(e, Client_Event i events rs ws rs' ws')] = [(e, Client_Event i events rs ws rs' ws')]"
  using assms by (simp add: epoll_wait_def Let_def List.map_filter_def)

text \<open>A round with a single event that is reported and handled.\<close>

lemma one_round:
  assumes "epoll_wait w [x] = [x]" "handle_event (fst x) (snd x) w = Some (Inr w')"
  shows "event_loop ((Some [x], False) # rounds) w = event_loop rounds w'"
  using assms by simp

section \<open>The first requests\<close>

lemma first_requests:
  assumes w: "started w" and os: "client_works os" and i: "i \<noteq> -1"
    and e: "epoll_ok e" "alloc e sizeof_CommandHandler" "alloc e 256" "alloc e 80"
    and e': "epoll_ok e'" "allocates e' n" "n < 2 ^ 31" "\<forall>r \<in> set reqs. request_fits n r"
      "length (struct_bytes e') = sizeof_ring_buffer_struct" "is_set_request (last reqs) \<longrightarrow> length bs \<le> sizeof_ring_buffer_struct"
    and reqs: "reqs \<noteq> []" "bs = concat (map encode_request reqs)" "length bs < 65536" "length (concat reqs) \<le> store_cap"
    and spec: "session_spec (now e') (globals w) Map.empty reqs = Some (rs, m')"
    and k: "length (concat (map encode_reply rs)) < 65536" "length (concat (map encode_reply rs)) \<le> k"
  shows "\<exists>w'. event_loop [(Some [(e, New_Connection i os)], False),
        (Some [(e', Client_Event i EPOLLIN [Received bs] [Sent k] rs' ws')], stop)] w = Some (Inr (stop, w')) \<and>
      wire w' i = concat (map encode_reply rs) \<and> represents (length (concat reqs)) (db (globals w')) m'"
proof -
  from accept_works [OF os i e] obtain ch where acc: "accept_connection e os i w = Inr (put_conn w i (parser_init ch))"
    and ch: "srv ch = globals w" "fresh_client i (client ch)" "client_type (client ch) = CLIENT_TYPE_REGULAR"
      "epoll_events (client ch) = EPOLLIN" by blast
  let ?w1 = "put_conn w i (parser_init ch)"
  have w1: "globals ?w1 = globals w" "conns ?w1 i = Some (parser_init ch)" "wire ?w1 i = []"
    using ch(1) w by (simp_all add: put_conn_def parser_init_def started_def)
  have ring: "unat RING_BUFFER_SIZE = 65536" "unat REPL_BACKLOG_SIZE = 1048576"
    by (simp_all add: RING_BUFFER_SIZE_def REPL_BACKLOG_SIZE_def)
  have serve: "can_serve e' ?w1 i ch 0 Map.empty reqs rs"
    unfolding can_serve_def w1 using w ch reqs e' k
    by (auto simp: started_def fresh_client_def fresh_rb_def sink_ready_def fits_def ring)
  have spread: "is_set_request (last reqs) \<Longrightarrow> can_propagate e' ?w1 i bs \<and> length bs \<le> sizeof_ring_buffer_struct"
    unfolding can_propagate_def w1 Let_def using w e' reqs
    by (simp add: started_def fresh_rb_def sink_ready_def fits_def ring c_limits del: length_contents)
  have "\<exists>w' ch'. process_loop e' i [Received bs] [Sent k] ?w1 = Some (Inr w') \<and> conns w' i = Some (parser_init ch') \<and>
      contents (input_buffer (client ch')) = [] \<and> contents (output_buffer (client ch')) = [] \<and>
      wire w' i = wire ?w1 i @ contents (output_buffer (client ch)) @ concat (map encode_reply rs) \<and>
      represents (0 + length (concat reqs)) (db (globals w')) m' \<and>
      (\<forall>r \<in> set (replicas (globals ?w1)). if is_set_request (last reqs) then fed ?w1 bs w' r else conns w' r = conns ?w1 r)"
    by (rule process_ok [OF serve spread reqs(1) _ reqs(2)])
      (use ch(2) spec reqs(3) k in \<open>simp_all add: w1 fresh_client_def fresh_rb_def ring del: length_contents\<close>)
  then obtain w' where w': "process_loop e' i [Received bs] [Sent k] ?w1 = Some (Inr w')"
    "wire w' i = wire ?w1 i @ contents (output_buffer (client ch)) @ concat (map encode_reply rs)"
    "represents (0 + length (concat reqs)) (db (globals w')) m'" by blast
  have "get_client ?w1 i = Inr (client ch)" by (simp add: get_client_def get_conn_def put_conn_def parser_init_def)
  then have "handle_event e' (Client_Event i EPOLLIN [Received bs] [Sent k] rs' ws') ?w1 = Some (Inr w')"
    using w'(1) ch(3) by (simp add: handle_event_def input_event_def output_event_def EPOLLIN_def EPOLLOUT_def)
  moreover have "epoll_wait ?w1 [(e', Client_Event i EPOLLIN [Received bs] [Sent k] rs' ws')] =
      [(e', Client_Event i EPOLLIN [Received bs] [Sent k] rs' ws')]"
    by (rule epoll_reports [OF w1(2)]) (simp_all add: parser_init_def ch(4) epoll_flags)
  moreover have "epoll_wait w [(e, New_Connection i os)] = [(e, New_Connection i os)]" by (simp add: epoll_wait_def)
  ultimately show ?thesis
    using acc w'(2,3) w1 ch(2) by (simp add: handle_event_def fresh_client_def fresh_rb_def del: length_contents)
qed

section \<open>The shutdown\<close>

lemma count_list_distinct: "distinct xs \<Longrightarrow> count_list xs x = (if x \<in> set xs then 1 else 0)"
  by (induction xs) auto

lemma count_data_blocks: "count_list (map Db_Memory (data_blocks x a)) (Db_Memory (Key_Block k)) = 0"
  by (cases a) simp_all

lemma count_key_blocks:
  "count_list (map Db_Memory (concat (map (entry_blocks m) ks))) (Db_Memory (Key_Block k)) = count_list ks k"
  by (induction ks) (auto simp: entry_blocks_def count_data_blocks split: option.splits)

lemma shutdown_ok:
  assumes rep: "db_rep p (db (globals w)) m" and written: "rdb_file (db (globals w)) = Inr bs"
    and os: "mkdir_ok (file_os e)" "fopen_write_ok (file_os e)"
  shows "\<exists>freed. shutdown e epfd lfd w =
      Inr (True, (files (globals w))(rdb_path (cfg_dir (globals w)) (cfg_dbfilename (globals w)) \<mapsto> bs), freed) \<and>
    (\<forall>k. count_list freed (Db_Memory (Key_Block k)) = (if k \<in> dom m then 1 else 0)) \<and>
    {System (Close epfd), System (Close lfd), Db_Memory Db_Struct, Handler_Block} \<subseteq> set freed"
proof -
  let ?d = "db (globals w)" and ?rb = "repl_backlog (globals w)"
  from destroy_ok [OF rep] obtain ks where ks: "distinct ks" "set ks = dom m"
    "redis_db_destroy (Some ?d) = Inr (concat (map (entry_blocks m) ks) @ map Table (kh_destroy (Some (dbh ?d))) @ [Db_Struct])" by blast
  let ?freed = "[System (Close epfd), System (Close lfd)] @
    map Db_Memory (concat (map (entry_blocks m) ks) @ map Table (kh_destroy (Some (dbh ?d))) @ [Db_Struct]) @ [Handler_Block] @
    map System (snd (rb_destroy (if ?rb = null_ring_buffer then None else Some ?rb)))"
  have "shutdown e epfd lfd w =
      Inr (True, (files (globals w))(rdb_path (cfg_dir (globals w)) (cfg_dbfilename (globals w)) \<mapsto> bs), ?freed)"
    using written os ks(3) by (simp add: shutdown_def redis_db_save_def rdb_save_data_to_file_def Let_def destroy_handler_def)
  moreover have "count_list (map System xs) (Db_Memory y) = 0" for xs y by (induction xs) simp_all
  then have "count_list ?freed (Db_Memory (Key_Block k)) = count_list ks k" for k
    by (simp add: count_key_blocks kh_destroy_def)
  then have "count_list ?freed (Db_Memory (Key_Block k)) = (if k \<in> dom m then 1 else 0)" for k
    using ks(1,2) by (simp add: count_list_distinct)
  ultimately show ?thesis by (intro exI [of _ ?freed]) simp
qed

section \<open>A sample system\<close>

text \<open>System calls that all succeed.\<close>

definition sample_rb_os :: rb_os where
  "sample_rb_os = \<lparr>page_size = 4096, malloc_ok = True, name_len = 30, shm_fd = 5, unlink_ok = True, ftruncate_ok = True,
     map1_ok = True, map2_ok = True\<rparr>"

definition sample_client_os :: client_os where
  "sample_client_os = \<lparr>client_malloc_ok = True, parser_malloc_ok = True, input_os = sample_rb_os, output_os = sample_rb_os,
     unset = sample_client, fcntl_calls = \<lparr>getfl = Some 2, setfl_ok = True\<rparr>, epoll_add_ok = True\<rparr>"

definition sample_boot_os :: boot_os where
  "sample_boot_os = \<lparr>backlog_os = sample_rb_os, db_malloc_ok = True, epoll_fd = 3, master_addresses = None,
     master_os = sample_client_os, listen_fd = 4, setsockopt_ok = True, bind_ok = True, listen_ok = True, listen_fcntl = \<lparr>getfl = Some 2, setfl_ok = True\<rparr>,
     listen_epoll_ok = True\<rparr>"

lemma sample_works: "boot_works sample_boot_os" "client_works sample_client_os"
  by (simp_all add: boot_works_def client_works_def rb_works_def fcntl_works_def sample_boot_os_def sample_client_os_def sample_rb_os_def
      RING_BUFFER_SIZE_def REPL_BACKLOG_SIZE_def)

end
