(* ===== verification/Handshake.thy ===== *)
theory Handshake
  imports Startup
begin

text \<open>
  The handshake of a replica with its master, from the connection to the announcement of the snapshot:
  the replica's commands and the master's answers alternate, and each answer moves the state of the
  connection on.
\<close>

section \<open>Answers of the master\<close>

fun after_answer :: "ReplicaClientState \<Rightarrow> string \<Rightarrow> ReplicaClientState" where
  "after_answer REPL_STATE_SENT_PING s = (if s = ''PONG'' then REPL_STATE_RECEIVED_PONG else REPL_STATE_ERROR)"
| "after_answer REPL_STATE_SENT_REPLCONF_PORT s =
     (if s = ''OK'' then REPL_STATE_RECEIVED_REPLCONF_PORT_OK else REPL_STATE_ERROR)"
| "after_answer REPL_STATE_SENT_REPLCONF_CAPA s =
     (if s = ''OK'' then REPL_STATE_RECEIVED_REPLCONF_CAPA_OK else REPL_STATE_ERROR)"
| "after_answer REPL_STATE_SENT_PSYNC s =
     (if take 9 s = ''FULLRESYN'' then REPL_STATE_RECEIVED_FULLRESYNC_RESPONSE else REPL_STATE_ERROR)"
| "after_answer st s = st"

lemma handle_answer:
  assumes "client_type (client ch) = CLIENT_TYPE_MASTER" "nul_free (buf ch)"
  shows "handle_simple_string_reply ch = Inr (set_repl_state ch (after_answer (repl_client_state (client ch)) (buf ch)))"
  using assms by (cases "repl_client_state (client ch)") (simp_all add: handle_simple_string_reply_def set_repl_state_def)

abbreviation "simple_state \<equiv> state_info STATE_SIMPLE 0 Parse_Simple (Some End_Simple_String)"

lemma step_simple_begin:
  assumes "holds m pos ''+''" "pos \<noteq> fin"
  shows "parse_step (create_handler e) m fin (parser_at ch [init_state]) pos =
    Inr (True, pos + 1, parser_at (ch\<lparr>buf := []\<rparr>) [simple_state, init_state])"
  using assms holds_byte [OF assms(1)]
  by (simp add: parse_step.simps parse_initial_def create_handler_def begin_simple_string_handler_def state_ops)

lemma step_simple_end:
  assumes h: "holds m pos (s @ crlf @ rest)" and s: "CR \<notin> set s" "length s < buf_size ch" and ch: "buf ch = []"
    and fin: "fin = pos + length s + 2 + length rest" and ans: "handle_simple_string_reply (ch\<lparr>buf := s\<rparr>) = Inr ch'"
  shows "parse_step (create_handler e) m fin (parser_at ch [simple_state, init_state]) pos =
    Inr (True, pos + length s + 2, parser_at ch' [init_state])"
proof -
  have hs: "holds m pos s" and lf: "holds m (pos + length s + 1) [LF]"
    using h holds_Cons [of m "pos + length s" CR "LF # rest"] holds_Cons [of m "pos + length s + 1" LF rest] by auto
  have "slice m pos fin = s @ crlf @ rest" using holds_slice [OF h] fin by (simp add: add.assoc)
  then have scan: "scan_cr m fin pos = pos + length s" using s(1) by (auto simp: scan_cr_def takeWhile_append)
  have chars: "chars_of (create_handler e) m pos (int (pos + length s)) (parser_at ch [simple_state, init_state]) =
      Inr (parser_at (ch\<lparr>buf := s\<rparr>) [simple_state, init_state])"
    using chars_of_holds [OF hs, of "create_handler e"] s(2) ch
    by (simp add: create_handler_def chars_handler_def call_def)
  have "byte_at m (pos + length s + 1) = Inr LF" by (rule holds_byte [OF lf])
  then show ?thesis
    using scan chars fin ans s(2)
    by (simp add: parse_step.simps parse_simple_def state_info_def pop_state_def call_def
        create_handler_def end_simple_string_handler_def)
qed

text \<open>What follows the answer to \<open>PSYNC\<close> is not parsed.\<close>

lemma answer_parsed:
  assumes ch: "client_type (client ch) = CLIENT_TYPE_MASTER" "\<not> awaiting_snapshot ch" "length s < buf_size ch"
    and s: "CR \<notin> set s" "nul_free s" and h: "holds m pos (''+'' @ s @ crlf @ rest)" and fin: "fin = pos + length s + 3 + length rest"
    and rest: "rest = [] \<or> after_answer (repl_client_state (client ch)) s = REPL_STATE_RECEIVED_FULLRESYNC_RESPONSE"
  shows "parser_parse (create_handler e) awaiting_snapshot m fin (parser_init ch) pos =
    Some (Inr (pos + length s + 3, parser_init (set_repl_state (ch\<lparr>buf := s\<rparr>) (after_answer (repl_client_state (client ch)) s))))"
proof -
  let ?ch = "set_repl_state (ch\<lparr>buf := s\<rparr>) (after_answer (repl_client_state (client ch)) s)" and ?q = "pos + length s + 3"
  have h1: "holds m pos ''+''" "holds m (pos + 1) (s @ crlf @ rest)"
    using h holds_Cons [of m pos "CHR ''+''" "s @ crlf @ rest"] by simp_all
  have ans: "handle_simple_string_reply ((ch\<lparr>buf := []\<rparr>)\<lparr>buf := s\<rparr>) = Inr ?ch" using handle_answer [of "ch\<lparr>buf := s\<rparr>"] ch s by simp
  have quiet: "\<not> awaiting_snapshot (ch\<lparr>buf := []\<rparr>)" using ch(2) by (simp add: awaiting_snapshot_def)
  have "pos \<noteq> fin" using fin by simp
  from parser_go [OF _ step_simple_begin [OF h1(1) this]]
  have "parser_parse (create_handler e) awaiting_snapshot m fin (parser_at ch [init_state]) pos =
      parser_parse (create_handler e) awaiting_snapshot m fin (parser_at (ch\<lparr>buf := []\<rparr>) [simple_state, init_state]) (pos + 1)"
    using ch(2) by simp
  also have "\<dots> = parser_parse (create_handler e) awaiting_snapshot m fin (parser_at ?ch [init_state]) (pos + 1 + length s + 2)"
    by (rule parser_go [OF _ step_simple_end [OF h1(2) s(1) _ _ _ ans]]) (use quiet ch(3) fin in simp_all)
  also have "pos + 1 + length s + 2 = ?q" by simp
  finally have run: "parser_parse (create_handler e) awaiting_snapshot m fin (parser_at ch [init_state]) pos =
      parser_parse (create_handler e) awaiting_snapshot m fin (parser_at ?ch [init_state]) ?q" .
  have "parse_step (create_handler e) m ?q (parser_at ?ch [init_state]) ?q = Inr (False, ?q, parser_at ?ch [init_state])"
    by (simp add: parse_step.simps parse_initial_def state_info_def)
  moreover have "awaiting_snapshot ?ch \<or> fin = ?q" using rest fin ch(1) by (auto simp: awaiting_snapshot_def set_repl_state_def)
  ultimately have "parser_parse (create_handler e) awaiting_snapshot m fin (parser_at ?ch [init_state]) ?q =
      Some (Inr (?q, parser_at ?ch [init_state]))"
    by (cases "awaiting_snapshot ?ch") (simp_all add: parser_done, simp add: parser_parse.simps)
  with run show ?thesis by (simp add: parser_init_def)
qed

section \<open>The connection between two messages\<close>

definition loaded :: "nat \<Rightarrow> bytes \<Rightarrow> ring_buffer \<Rightarrow> bool" where
  "loaded n bs rb \<longleftrightarrow> rb_inv rb \<and> contents rb = bs \<and> capacity rb = 65536 \<and> n \<le> index_budget rb"

abbreviation quiet :: "nat \<Rightarrow> ring_buffer \<Rightarrow> bool" where
  "quiet n rb \<equiv> loaded n [] rb"

lemma quiet_room:
  assumes "quiet n rb" "length bs < 65536"
  shows "length bs < unat (writable_len rb)"
  using assms writable_len_room [of rb] by (simp add: loaded_def)

lemma quiet_drained:
  assumes "quiet (n + length (bs @ rest)) rb" "appends rb (bs @ rest) rb2"
  shows "\<exists>rb3. rb_read rb2 (of_nat (length bs)) = Inr (0, rb3) \<and> loaded n rest rb3"
proof -
  have "rb_inv rb2" "contents rb2 = bs @ rest" "capacity rb2 = capacity rb" "index_budget rb2 + length (bs @ rest) = index_budget rb"
    using assms by (auto simp: appends_def loaded_def)
  with rb_read_ok [of rb2 "length bs"] assms(1) show ?thesis by (auto simp: loaded_def simp del: length_contents)
qed

definition master_conn :: "nat \<Rightarrow> bytes \<Rightarrow> ReplicaClientState \<Rightarrow> CommandHandler \<Rightarrow> bool" where
  \<comment> \<open>A connection to the master in state \<open>st\<close>, registered for output only, with \<open>rest\<close> unparsed; both
    buffers can take \<open>n\<close> more bytes.\<close>
  "master_conn n rest st ch \<longleftrightarrow>
     client_type (client ch) = CLIENT_TYPE_MASTER \<and> repl_client_state (client ch) = st \<and> epoll_events (client ch) = EPOLLOUT \<and>
     tmp_rdb_fp (client ch) = None \<and> rdb_written_bytes (client ch) = 0 \<and> \<not> should_propogate_command (client ch) \<and>
     256 \<le> buf_size ch \<and> loaded n rest (input_buffer (client ch)) \<and> quiet n (output_buffer (client ch))"

definition idle_master :: "nat \<Rightarrow> world \<Rightarrow> int \<Rightarrow> ReplicaClientState \<Rightarrow> bytes \<Rightarrow> bool" where
  "idle_master n w i st rest \<longleftrightarrow> (\<exists>ch. conns w i = Some (parser_init ch) \<and> master_conn n rest st ch)"

lemma idle_masterI: "conns w i = Some (parser_init ch) \<Longrightarrow> master_conn n rest st ch \<Longrightarrow> idle_master n w i st rest"
  by (auto simp: idle_master_def)

lemma idle_masterE:
  assumes "idle_master n w i st rest"
  obtains ch where "conns w i = Some (parser_init ch)" "master_conn n rest st ch"
  using assms by (auto simp: idle_master_def)

lemma loaded_mono: "loaded n bs rb \<Longrightarrow> k \<le> n \<Longrightarrow> loaded k bs rb"
  by (simp add: loaded_def)

lemma idle_mono: "idle_master n w i st rest \<Longrightarrow> k \<le> n \<Longrightarrow> idle_master k w i st rest"
  unfolding idle_master_def master_conn_def using loaded_mono by blast

section \<open>One message\<close>

lemma flush_nothing:
  assumes conn: "conns w i = Some (parser_init ch)" and out: "quiet n (output_buffer (client ch))"
  shows "\<exists>rc rb ws'. flush ws w i =
      Inr (rc, w\<lparr>conns := (conns w)(i \<mapsto> parser_init (ch\<lparr>srv := globals w, client := (client ch)\<lparr>output_buffer := rb\<rparr>\<rparr>))\<rparr>, ws') \<and>
    quiet n rb"
proof -
  from flush_loop_ok [of "output_buffer (client ch)" ws "[]"] out obtain rc rb ws' where
    "flush_loop ws (output_buffer (client ch)) [] = Inr (rc, [], rb, ws')" "quiet n rb" by (auto simp: loaded_def)
  then show ?thesis
    by (auto simp: flush_def get_client_idle [OF conn] put_conn_idle [OF conn] flush_client_output_def)
qed

lemma nothing_received:
  assumes idle: "idle_master n w i st []"
  shows "\<exists>w'. process_loop e i [Read_Blocked] ws w = Some (Inr w') \<and> idle_master n w' i st [] \<and> wire w' = wire w \<and> globals w' = globals w"
proof -
  from idle obtain ch where conn: "conns w i = Some (parser_init ch)" and ch: "master_conn n [] st ch" by (rule idle_masterE)
  then have out: "quiet n (output_buffer (client ch))" and inb: "quiet n (input_buffer (client ch))" by (simp_all add: master_conn_def)
  from flush_nothing [OF conn out, of ws] obtain rc rb ws' where
    fl: "flush ws w i = Inr (rc, w\<lparr>conns := (conns w)(i \<mapsto> parser_init (ch\<lparr>srv := globals w, client := (client ch)\<lparr>output_buffer := rb\<rparr>\<rparr>))\<rparr>, ws')"
      "quiet n rb" by blast
  let ?ch = "ch\<lparr>srv := globals w, client := (client ch)\<lparr>output_buffer := rb\<rparr>\<rparr>"
  have "writable_len (input_buffer (client ch)) \<noteq> 0" using quiet_room [OF inb, of "[]"] by auto
  moreover have "rb_inv (input_buffer (client ch))" using inb by (simp add: loaded_def)
  ultimately have "process_loop e i [Read_Blocked] ws w = Some (Inr (w\<lparr>conns := (conns w)(i \<mapsto> parser_init ?ch)\<rparr>))"
    by (simp add: get_client_idle [OF conn] rb_writable_inv fl(1))
  moreover have "idle_master n (w\<lparr>conns := (conns w)(i \<mapsto> parser_init ?ch)\<rparr>) i st []"
    by (rule idle_masterI [of _ _ ?ch]) (use ch fl(2) in \<open>simp_all add: master_conn_def\<close>)
  ultimately show ?thesis by auto
qed

lemma answer_consumed:
  assumes conn: "conns w i = Some (parser_init ch)"
    and ch: "client_type (client ch) = CLIENT_TYPE_MASTER" "\<not> awaiting_snapshot ch" "length s < buf_size ch"
      "\<not> should_propogate_command (client ch)"
    and s: "CR \<notin> set s" "nul_free s"
    and rest: "rest = [] \<or> after_answer (repl_client_state (client ch)) s = REPL_STATE_RECEIVED_FULLRESYNC_RESPONSE"
    and inb: "rb_inv (input_buffer (client ch))" "contents (input_buffer (client ch)) = (''+'' @ s @ crlf) @ rest"
      "rb_read (input_buffer (client ch)) (of_nat (length (''+'' @ s @ crlf))) = Inr (0, rb)" "received < writable"
  shows "consume e i received writable w = Some (Inr (True, False, w\<lparr>conns := (conns w)(i \<mapsto>
    parser_init ((set_repl_state (ch\<lparr>buf := s, srv := globals w\<rparr>) (after_answer (repl_client_state (client ch)) s))
      \<lparr>client := (client ch)\<lparr>repl_client_state := after_answer (repl_client_state (client ch)) s, input_buffer := rb\<rparr>\<rparr>))\<rparr>))"
proof -
  let ?rb = "input_buffer (client ch)" and ?ch = "ch\<lparr>srv := globals w\<rparr>"
  let ?pos = "unat (read_index ?rb) mod unat (rb_size ?rb)"
  have h: "holds (mapped ?rb) ?pos (''+'' @ s @ crlf @ rest)" using mapped_holds [OF inb(1)] inb(2) by simp
  have len: "unat (readable_len ?rb) = length s + 3 + length rest" using length_contents [of ?rb] inb(2) by simp
  have parse: "parser_parse (create_handler e) awaiting_snapshot (mapped ?rb) (?pos + unat (readable_len ?rb)) (parser_init ?ch) ?pos =
      Some (Inr (?pos + length s + 3, parser_init (set_repl_state (?ch\<lparr>buf := s\<rparr>) (after_answer (repl_client_state (client ch)) s))))"
    using answer_parsed [of ?ch s "mapped ?rb" ?pos rest _ e, OF _ _ _ s h] ch(1-3) rest by (simp add: awaiting_snapshot_def len add.assoc)
  have "rb_read ?rb (of_nat (length s + 3)) = Inr (0, rb)" using inb(3) by (simp add: add.commute)
  then show ?thesis
    using conn parse inb(4) ch(1,4)
    by (simp add: consume_def get_conn_def get_client_def put_client_def put_conn_def parser_init_def Let_def
        rb_readable_inv [OF inb(1)] set_repl_state_def advance_replica_offset_def client_type_code_def REPL_STATE_READY_code_def)
qed

lemma answer_received:
  assumes idle: "idle_master (n + length bs) w i st []" and s: "CR \<notin> set s" "nul_free s" "length s < 250"
    and bs: "bs = (''+'' @ s @ crlf) @ rest" "length bs < 65536"
    and rest: "rest = [] \<or> after_answer st s = REPL_STATE_RECEIVED_FULLRESYNC_RESPONSE"
    and st: "st \<noteq> REPL_STATE_RECEIVED_FULLRESYNC_RESPONSE"
  shows "\<exists>w'. process_loop e i [Received bs] ws w = Some (Inr w') \<and> idle_master n w' i (after_answer st s) rest \<and>
    wire w' = wire w \<and> globals w' = globals w"
proof -
  from idle obtain ch where conn: "conns w i = Some (parser_init ch)" and ch: "master_conn (n + length bs) [] st ch"
    by (rule idle_masterE)
  let ?rb = "input_buffer (client ch)"
  have inq: "quiet (n + length bs) ?rb" using ch by (simp add: master_conn_def)
  have room: "length bs < unat (writable_len ?rb)" by (rule quiet_room [OF inq bs(2)])
  have inb: "rb_inv ?rb" "length bs \<le> index_budget ?rb" using inq by (auto simp: loaded_def)
  have "bs \<noteq> []" "length bs \<le> unat (writable_len ?rb)" using bs(1) room by simp_all
  from process_received [OF conn inb(1) this inb(2), of e ws] obtain rb2 where app: "appends ?rb bs rb2"
    and step: "\<And>w2 rc w3 ws'. consume e i (length bs) (unat (writable_len ?rb))
        (w\<lparr>conns := (conns w)(i \<mapsto> parser_init (ch\<lparr>srv := globals w, client := (client ch)\<lparr>input_buffer := rb2\<rparr>\<rparr>))\<rparr>) =
        Some (Inr (True, False, w2)) \<Longrightarrow>
      flush ws w2 i = Inr (rc, w3, ws') \<Longrightarrow> process_loop e i [Received bs] ws w = Some (Inr w3)" by metis
  from quiet_drained [OF inq [unfolded bs(1)] app [unfolded bs(1)]] obtain rb3 where
    rb3: "rb_read rb2 (of_nat (length (''+'' @ s @ crlf))) = Inr (0, rb3)" "loaded n rest rb3" by blast
  let ?ch1 = "ch\<lparr>srv := globals w, client := (client ch)\<lparr>input_buffer := rb2\<rparr>\<rparr>"
  let ?w1 = "w\<lparr>conns := (conns w)(i \<mapsto> parser_init ?ch1)\<rparr>"
  let ?ch2 = "(set_repl_state (?ch1\<lparr>buf := s, srv := globals ?w1\<rparr>) (after_answer (repl_client_state (client ?ch1)) s))
      \<lparr>client := (client ?ch1)\<lparr>repl_client_state := after_answer (repl_client_state (client ?ch1)) s, input_buffer := rb3\<rparr>\<rparr>"
  let ?w2 = "?w1\<lparr>conns := (conns ?w1)(i \<mapsto> parser_init ?ch2)\<rparr>"
  have rb2: "rb_inv rb2" "contents rb2 = (''+'' @ s @ crlf) @ rest" using app inq bs(1) by (auto simp: appends_def loaded_def)
  have co: "consume e i (length bs) (unat (writable_len ?rb)) ?w1 = Some (Inr (True, False, ?w2))"
    by (rule answer_consumed) (use ch s st rb3(1) rb2 rest room in \<open>auto simp: awaiting_snapshot_def master_conn_def\<close>)
  have "quiet n (output_buffer (client ?ch2))" using ch by (auto simp: master_conn_def loaded_def)
  from flush_nothing [of ?w2 i ?ch2, OF _ this, of ws] obtain rc rb ws' where
    fl: "flush ws ?w2 i = Inr (rc, ?w2\<lparr>conns := (conns ?w2)(i \<mapsto> parser_init (?ch2\<lparr>srv := globals ?w2, client := (client ?ch2)\<lparr>output_buffer := rb\<rparr>\<rparr>))\<rparr>, ws')"
      "quiet n rb" by auto
  let ?ch3 = "?ch2\<lparr>srv := globals ?w2, client := (client ?ch2)\<lparr>output_buffer := rb\<rparr>\<rparr>"
  let ?w3 = "?w2\<lparr>conns := (conns ?w2)(i \<mapsto> parser_init ?ch3)\<rparr>"
  have "process_loop e i [Received bs] ws w = Some (Inr ?w3)" by (rule step [OF co fl(1)])
  moreover have "idle_master n ?w3 i (after_answer st s) rest"
    by (rule idle_masterI [of _ _ ?ch3]) (use ch rb3(2) fl(2) in \<open>simp_all add: set_repl_state_def master_conn_def\<close>)
  ultimately show ?thesis by auto
qed

lemma command_encoding: "encode_reply (Array_Reply as) = encode_request as"
  by (simp add: encode_request_def encode_bulk_def [abs_def])

lemma command_sent:
  assumes idle: "idle_master (n + Suc (length bs)) w i st []" and bs: "bs = encode_request as" "length bs < 256" "length bs \<le> k"
  shows "\<exists>w'. on_client w i (send_command (Sent k # ws) as st') = Inr w' \<and> idle_master n w' i st' [] \<and>
    wire w' = (wire w)(i := wire w i @ bs) \<and> globals w' = globals w"
proof -
  from idle obtain ch where conn: "conns w i = Some (parser_init ch)" and ch: "master_conn (n + Suc (length bs)) [] st ch"
    by (rule idle_masterE)
  let ?rb = "output_buffer (client ch)"
  have outq: "quiet (n + Suc (length bs)) ?rb" and inq: "quiet (n + Suc (length bs)) (input_buffer (client ch))"
    using ch by (simp_all add: master_conn_def)
  have "sink_ready ?rb (Suc (length (encode_reply (Array_Reply as))))"
    using outq bs by (simp add: sink_ready_def fits_def loaded_def command_encoding del: encode_reply.simps)
  from send_reply_ok [OF this] obtain rb where
    rb: "add_array_reply ?rb (Some as) (int (length as)) = Inr rb" "appends ?rb bs rb"
    using bs(1) by (auto simp: command_encoding simp del: encode_reply.simps)
  have rb': "rb_inv rb" "contents rb = bs" using rb(2) outq by (auto simp: appends_def loaded_def)
  from flush_all [OF rb'(1), of k ws "[]"] bs(3) rb'(2) obtain rc rb2 ws' where
    fl: "flush_loop (Sent k # ws) rb [] = Inr (rc, bs, rb2, ws')" "rb_inv rb2" "contents rb2 = []"
      "capacity rb2 = capacity rb" "index_budget rb2 = index_budget rb" by auto
  have out: "quiet n rb2" using fl rb(2) outq by (auto simp: loaded_def appends_def)
  let ?c = "(client ch)\<lparr>output_buffer := rb2, repl_client_state := st'\<rparr>"
  let ?ch = "ch\<lparr>srv := globals w, client := ?c\<rparr>"
  let ?w = "w\<lparr>conns := (conns w)(i \<mapsto> parser_init ?ch), wire := (wire w)(i := wire w i @ bs)\<rparr>"
  have "on_client w i (send_command (Sent k # ws) as st') = Inr ?w"
    using rb(1) fl(1)
    by (simp add: on_client_def get_client_idle [OF conn] put_conn_idle [OF conn] send_command_def flush_client_output_def)
  moreover have "idle_master n ?w i st' []"
    by (rule idle_masterI [of _ _ ?ch]) (use ch out loaded_mono [OF inq] in \<open>simp_all add: master_conn_def\<close>)
  ultimately show ?thesis by auto
qed

section \<open>Events\<close>

fun next_command :: "server \<Rightarrow> ReplicaClientState \<Rightarrow> (string list \<times> ReplicaClientState) option" where
  "next_command s REPL_STATE_CONNECTING = Some ([''PING''], REPL_STATE_SENT_PING)"
| "next_command s REPL_STATE_RECEIVED_PONG =
     Some ([''REPLCONF'', ''listening-port'', cfg_port s], REPL_STATE_SENT_REPLCONF_PORT)"
| "next_command s REPL_STATE_RECEIVED_REPLCONF_PORT_OK =
     Some ([''REPLCONF'', ''capa'', ''psync2''], REPL_STATE_SENT_REPLCONF_CAPA)"
| "next_command s REPL_STATE_RECEIVED_REPLCONF_CAPA_OK = Some ([''PSYNC'', ''?'', ''-1''], REPL_STATE_SENT_PSYNC)"
| "next_command s st = None"

lemma idle_client:
  "idle_master n w i st rest \<Longrightarrow> \<exists>c. get_client w i = Inr c \<and> client_type c = CLIENT_TYPE_MASTER \<and> repl_client_state c = st"
  by (auto simp: idle_master_def master_conn_def get_client_idle)

lemma idle_reported:
  assumes "idle_master n w i st rest"
  shows "epoll_wait w [(e, Client_Event i EPOLLOUT rs ws rs' ws')] = [(e, Client_Event i EPOLLOUT rs ws rs' ws')]"
proof -
  from assms obtain ch where "conns w i = Some (parser_init ch)" "epoll_events (client ch) = EPOLLOUT"
    by (auto simp: idle_master_def master_conn_def)
  then show ?thesis using epoll_reports [of w i "parser_init ch" EPOLLOUT] by (simp add: parser_init_def epoll_flags)
qed

lemma command_event:
  assumes idle: "idle_master (n + 256) w i st []" and "next": "next_command (globals w) st = Some (as, st')"
    and len: "length (encode_request as) < 256"
  shows "\<exists>w'. handle_event e (Client_Event i EPOLLOUT rs ws rs' (Sent 256 # ws')) w = Some (Inr w') \<and> idle_master n w' i st' [] \<and>
    wire w' = (wire w)(i := wire w i @ encode_request as) \<and> globals w' = globals w"
proof -
  have "idle_master (n + Suc (length (encode_request as))) w i st []" by (rule idle_mono [OF idle]) (use len in simp)
  from command_sent [OF this refl len, of 256] len obtain w' where
    w': "on_client w i (send_command (Sent 256 # ws') as st') = Inr w'" "idle_master n w' i st' []"
      "wire w' = (wire w)(i := wire w i @ encode_request as)" "globals w' = globals w" by auto
  from idle_client [OF idle] obtain c where c: "get_client w i = Inr c" "client_type c = CLIENT_TYPE_MASTER" "repl_client_state c = st" by blast
  have "handle_event e (Client_Event i EPOLLOUT rs ws rs' (Sent 256 # ws')) w =
      Some (on_client w i (send_command (Sent 256 # ws') as st'))"
    using c "next"
    by (cases st) (auto simp: handle_event_def input_event_def output_event_def epoll_flags replica_handle_master_data_def
        send_ping_command_def [abs_def] send_replconf_listening_port_command_def [abs_def] send_replconf_capa_command_def [abs_def]
        send_psync_command_def [abs_def])
  with w' show ?thesis by auto
qed

text \<open>A connection that waits for an answer looks for it whenever the socket can be written.\<close>

definition waiting :: "ReplicaClientState \<Rightarrow> bool" where
  "waiting st \<longleftrightarrow>
     st \<in> {REPL_STATE_SENT_PING, REPL_STATE_SENT_REPLCONF_PORT, REPL_STATE_SENT_REPLCONF_CAPA, REPL_STATE_SENT_PSYNC}"

lemma waiting_event:
  assumes idle: "idle_master n w i st rest" and st: "waiting st"
  shows "handle_event e (Client_Event i EPOLLOUT rs ws rs' ws') w = process_loop e i rs' ws' w"
proof -
  from idle_client [OF idle] obtain c where "get_client w i = Inr c" "client_type c = CLIENT_TYPE_MASTER" "repl_client_state c = st" by blast
  with st show ?thesis
    by (auto simp: waiting_def handle_event_def input_event_def output_event_def epoll_flags replica_handle_master_data_def
        simp del: process_loop.simps)
qed

lemma answer_event:
  assumes idle: "idle_master (n + 300) w i st []" and s: "CR \<notin> set s" "nul_free s" "length s < 250" and st: "waiting st"
    and rest: "rest = [] \<or> after_answer st s = REPL_STATE_RECEIVED_FULLRESYNC_RESPONSE" "length rest < 30"
  shows "\<exists>w'. handle_event e (Client_Event i EPOLLOUT rs ws [Received (''+'' @ s @ crlf @ rest)] ws') w = Some (Inr w') \<and>
    idle_master n w' i (after_answer st s) rest \<and> wire w' = wire w \<and> globals w' = globals w"
proof -
  have "idle_master (n + length ((''+'' @ s @ crlf) @ rest)) w i st []" by (rule idle_mono [OF idle]) (use s(3) rest(2) in simp)
  from answer_received [OF this s refl _ rest(1)] s(3) rest(2) st obtain w' where
    "process_loop e i [Received ((''+'' @ s @ crlf) @ rest)] ws' w = Some (Inr w')" "idle_master n w' i (after_answer st s) rest"
      "wire w' = wire w" "globals w' = globals w" by (auto simp: waiting_def)
  then show ?thesis by (simp add: waiting_event [OF idle st] del: process_loop.simps)
qed

section \<open>The handshake\<close>

lemma connect_works:
  assumes os: "client_works os" and e: "epoll_ok e" "alloc e sizeof_CommandHandler" "alloc e 256" "alloc e 80"
  shows "\<exists>w'. connect_to_master e (Some (replicate r Connect_Refused @ Connected i # others)) os w = Inr w' \<and>
    idle_master (2 ^ 64 - 1) w' i REPL_STATE_CONNECTING [] \<and> wire w' = wire w \<and> globals w' = globals w"
proof -
  from create_client_works [OF os] obtain c where c:
    "create_client (client_malloc_ok os) (parser_malloc_ok os) (input_os os) (output_os os) (unset os) i = Inr (Some c, [])"
    "fresh_client i c" "epoll_events c = 0" by blast
  let ?c = "c\<lparr>client_type := CLIENT_TYPE_MASTER, repl_client_state := REPL_STATE_CONNECTING, epoll_events := epoll_events c OR EPOLLOUT\<rparr>"
  let ?ch = "\<lparr>buf = [], buf_size = 256, args = [], args_freed = False, arg_capacity = 10, ends = [], ends_capacity = 10,
      client = ?c, srv = globals w\<rparr>"
  have reached: "try_connect (replicate r Connect_Refused @ Connected i # others) = Inr i" by (induction r) simp_all
  have "connect_to_master e (Some (replicate r Connect_Refused @ Connected i # others)) os w = Inr (put_conn w i (parser_init ?ch))"
    using e c os reached
    by (simp add: connect_to_master_def open_connection_def on_conn_def create_command_handler_def select_client_db_def
        client_works_def client_enable_write_events_def get_client_def put_client_def get_conn_def put_conn_def parser_init_def)
  moreover have "idle_master (2 ^ 64 - 1) (put_conn w i (parser_init ?ch)) i REPL_STATE_CONNECTING []"
    by (rule idle_masterI [of _ _ ?ch])
      (use c(2,3) in \<open>auto simp: put_conn_def fresh_client_def fresh_rb_def master_conn_def loaded_def RING_BUFFER_SIZE_def\<close>)
  ultimately show ?thesis by (auto simp: put_conn_def parser_init_def)
qed

lemma port_command_short:
  assumes "length p \<le> 5"
  shows "length (encode_request [''REPLCONF'', ''listening-port'', p]) < 256"
proof -
  have "length (show_int (int k)) \<le> 11" if "k \<le> 20" for k
    using length_show_nat [of k 10] that by (simp add: show_int_def)
  from this [of 3] this [of 8] this [of 14] this [of "length p"] assms show ?thesis
    by (simp add: encode_request_def encode_bulk_def)
qed

lemma fixed_commands_short:
  "length (encode_request [''PING'']) < 256" "length (encode_request [''REPLCONF'', ''capa'', ''psync2'']) < 256"
  "length (encode_request [''PSYNC'', ''?'', ''-1'']) < 256"
  by code_simp+

text \<open>
  One exchange with the master, in rounds of one event each, all of them for output, the only kind that
  the connection is registered for: the socket takes the command, the answer is not there yet in any
  number of rounds, and then it is received.
\<close>

definition exchange_rounds :: "int \<Rightarrow> env \<Rightarrow> env list \<Rightarrow> env \<Rightarrow> bytes \<Rightarrow> ((env \<times> event) list option \<times> bool) list" where
  "exchange_rounds i e es e' bs = map (\<lambda>x. (Some [x], False))
     ((e, Client_Event i EPOLLOUT [] [] [] [Sent 256]) #
      map (\<lambda>e. (e, Client_Event i EPOLLOUT [] [] [Read_Blocked] [])) es @
      [(e', Client_Event i EPOLLOUT [] [] [Received bs] [])])"

lemma waiting_rounds:
  assumes "idle_master n w i st []" "waiting st"
  shows "\<exists>w'. (\<forall>rounds. event_loop (map (\<lambda>e. (Some [(e, Client_Event i EPOLLOUT [] [] [Read_Blocked] [])], False)) es @ rounds) w =
      event_loop rounds w') \<and> idle_master n w' i st [] \<and> wire w' = wire w \<and> globals w' = globals w"
  using assms(1)
proof (induction es arbitrary: w)
  case (Cons e es)
  from nothing_received [OF Cons.prems, of e "[]"] obtain w1 where
    w1: "process_loop e i [Read_Blocked] [] w = Some (Inr w1)" "idle_master n w1 i st []" "wire w1 = wire w" "globals w1 = globals w" by auto
  from Cons.IH [OF w1(2)] obtain w2 where
    w2: "\<forall>rounds. event_loop (map (\<lambda>e. (Some [(e, Client_Event i EPOLLOUT [] [] [Read_Blocked] [])], False)) es @ rounds) w1 =
      event_loop rounds w2" "idle_master n w2 i st []" "wire w2 = wire w1" "globals w2 = globals w1" by auto
  have "event_loop ((Some [(e, Client_Event i EPOLLOUT [] [] [Read_Blocked] [])], False) # rounds) w = event_loop rounds w1" for rounds
    by (rule one_round [OF idle_reported [OF Cons.prems]]) (use w1(1) waiting_event [OF Cons.prems assms(2)] in \<open>simp del: process_loop.simps\<close>)
  with w1 w2 show ?case by (intro exI [of _ w2]) (simp del: event_loop.simps)
qed auto

lemma exchange:
  assumes idle: "idle_master (n + 600) w i st []" and "next": "next_command (globals w) st = Some (as, st')" and st: "waiting st'"
    and len: "length (encode_request as) < 256" and s: "CR \<notin> set s" "nul_free s" "length s < 250"
    and rest: "rest = [] \<or> after_answer st' s = REPL_STATE_RECEIVED_FULLRESYNC_RESPONSE" "length rest < 30"
  shows "\<exists>w'. (\<forall>rounds. event_loop (exchange_rounds i e es e' (''+'' @ s @ crlf @ rest) @ rounds) w = event_loop rounds w') \<and>
    idle_master n w' i (after_answer st' s) rest \<and> wire w' i = wire w i @ encode_request as \<and> globals w' = globals w"
proof -
  have "idle_master ((n + 300) + 256) w i st []" by (rule idle_mono [OF idle]) simp
  from command_event [OF this "next" len, of e "[]" "[]" "[]" "[]"] obtain w1 where
    w1: "handle_event e (Client_Event i EPOLLOUT [] [] [] [Sent 256]) w = Some (Inr w1)" "idle_master (n + 300) w1 i st' []"
      "wire w1 i = wire w i @ encode_request as" "globals w1 = globals w" by auto
  from waiting_rounds [OF w1(2) st, of es] obtain w2 where
    w2: "\<forall>rounds. event_loop (map (\<lambda>e. (Some [(e, Client_Event i EPOLLOUT [] [] [Read_Blocked] [])], False)) es @ rounds) w1 =
      event_loop rounds w2" "idle_master (n + 300) w2 i st' []" "wire w2 = wire w1" "globals w2 = globals w1" by blast
  from answer_event [OF w2(2) s st rest, of e' "[]" "[]" "[]"] obtain w3 where
    w3: "handle_event e' (Client_Event i EPOLLOUT [] [] [Received (''+'' @ s @ crlf @ rest)] []) w2 = Some (Inr w3)"
      "idle_master n w3 i (after_answer st' s) rest" "wire w3 = wire w2" "globals w3 = globals w2" by auto
  have "event_loop ((Some [(e, Client_Event i EPOLLOUT [] [] [] [Sent 256])], False) # rounds) w = event_loop rounds w1" for rounds
    by (rule one_round [OF idle_reported [OF idle]]) (use w1(1) in simp)
  moreover have "event_loop ((Some [(e', Client_Event i EPOLLOUT [] [] [Received (''+'' @ s @ crlf @ rest)] [])], False) # rounds) w2 =
      event_loop rounds w3" for rounds
    by (rule one_round [OF idle_reported [OF w2(2)]]) (use w3(1) in simp)
  ultimately show ?thesis using w1 w2 w3
    by (intro exI [of _ w3]) (simp add: exchange_rounds_def comp_def del: event_loop.simps)
qed

lemma header_short: "int n \<le> LONG_MAX \<Longrightarrow> length (''$'' @ show_int (int n) @ crlf) < 30"
  using length_show_nat [of n 19] by (simp add: show_int_def c_limits)

lemma idle_announced:
  assumes "idle_master k w i REPL_STATE_RECEIVED_FULLRESYNC_RESPONSE (''$'' @ show_int (int n) @ crlf)" "n \<le> k"
  shows "announced 65536 [] n w i"
  using assms by (auto simp: idle_master_def master_conn_def loaded_def announced_def parser_init_def simp del: length_contents)

text \<open>
  C6 (liveness): a replica that reaches its master, after any number of refused addresses, completes the
  handshake.  Its connection is registered for output only, and every step happens in a round of the
  event loop that reports the socket writable.  When the master answers \<open>PONG\<close>, \<open>OK\<close>, \<open>OK\<close> and \<open>FULLRESYNC\<close>
  in turn, each answer after any number of rounds without one and complete when it is read, the replica has sent
  \<open>PING\<close>, its listening port, its capabilities and \<open>PSYNC ? -1\<close>, in this order and nothing else.  The header
  of the snapshot, which the master sends together with its last answer, then waits unparsed in the input
  buffer.  The system calls succeed and the socket takes every command at once.
\<close>

theorem handshake_completes:
  fixes e e' :: "nat \<Rightarrow> env" and es :: "nat \<Rightarrow> env list"
  assumes os: "client_works os" and e0: "epoll_ok e0" "alloc e0 sizeof_CommandHandler" "alloc e0 256" "alloc e0 80"
    and port: "length (cfg_port (globals w)) \<le> 5" and full: "CR \<notin> set ids" "nul_free ids" "length ids < 239"
    and n: "int n \<le> LONG_MAX"
  shows "\<exists>w0 w'. connect_to_master e0 (Some (replicate r Connect_Refused @ Connected i # others)) os w = Inr w0 \<and>
    event_loop (exchange_rounds i (e 1) (es 1) (e' 1) (''+PONG'' @ crlf) @
      exchange_rounds i (e 2) (es 2) (e' 2) (''+OK'' @ crlf) @
      exchange_rounds i (e 3) (es 3) (e' 3) (''+OK'' @ crlf) @
      exchange_rounds i (e 4) (es 4) (e' 4) (''+FULLRESYNC '' @ ids @ crlf @ ''$'' @ show_int (int n) @ crlf)) w0 =
        Some (Inr (False, w')) \<and>
    announced 65536 [] n w' i \<and>
    wire w' i = wire w i @ encode_request [''PING''] @ encode_request [''REPLCONF'', ''listening-port'', cfg_port (globals w)] @
      encode_request [''REPLCONF'', ''capa'', ''psync2''] @ encode_request [''PSYNC'', ''?'', ''-1'']"
proof -
  let ?port = "[''REPLCONF'', ''listening-port'', cfg_port (globals w)]" and ?hdr = "''$'' @ show_int (int n) @ crlf"
  have plain: "CR \<notin> set ''PONG''" "nul_free ''PONG''" "length ''PONG'' < 250" "CR \<notin> set ''OK''" "nul_free ''OK''" "length ''OK'' < 250"
    "CR \<notin> set (''FULLRESYNC '' @ ids)" "nul_free (''FULLRESYNC '' @ ids)" "length (''FULLRESYNC '' @ ids) < 250"
    using full by (simp_all add: nul_free_def)
  have big: "n \<le> 2 ^ 63" using n by (simp add: c_limits)
  from connect_works [OF os e0, of r i others w] obtain w0 where
    c0: "connect_to_master e0 (Some (replicate r Connect_Refused @ Connected i # others)) os w = Inr w0"
    and idle: "idle_master (2 ^ 64 - 1) w0 i REPL_STATE_CONNECTING []" and w0: "wire w0 = wire w" "globals w0 = globals w" by auto
  have "idle_master ((((2 ^ 63 + 600) + 600) + 600) + 600) w0 i REPL_STATE_CONNECTING []" by (rule idle_mono [OF idle]) simp
  from exchange [OF this _ _ fixed_commands_short(1) plain(1-3), of _ "[]" "e 1" "es 1" "e' 1"] w0 obtain w1 where
    w1: "\<forall>rounds. event_loop (exchange_rounds i (e 1) (es 1) (e' 1) (''+PONG'' @ crlf) @ rounds) w0 = event_loop rounds w1"
      "idle_master (((2 ^ 63 + 600) + 600) + 600) w1 i REPL_STATE_RECEIVED_PONG []" "wire w1 i = wire w i @ encode_request [''PING'']"
      "globals w1 = globals w" by (auto simp: waiting_def)
  from exchange [OF w1(2) _ _ port_command_short [OF port] plain(4-6), of _ "[]" "e 2" "es 2" "e' 2"] w1(3,4) obtain w2 where
    w2: "\<forall>rounds. event_loop (exchange_rounds i (e 2) (es 2) (e' 2) (''+OK'' @ crlf) @ rounds) w1 = event_loop rounds w2"
      "idle_master ((2 ^ 63 + 600) + 600) w2 i REPL_STATE_RECEIVED_REPLCONF_PORT_OK []" "wire w2 i = wire w1 i @ encode_request ?port"
      "globals w2 = globals w" by (auto simp: waiting_def)
  from exchange [OF w2(2) _ _ fixed_commands_short(2) plain(4-6), of _ "[]" "e 3" "es 3" "e' 3"] w2(3,4) obtain w3 where
    w3: "\<forall>rounds. event_loop (exchange_rounds i (e 3) (es 3) (e' 3) (''+OK'' @ crlf) @ rounds) w2 = event_loop rounds w3"
      "idle_master (2 ^ 63 + 600) w3 i REPL_STATE_RECEIVED_REPLCONF_CAPA_OK []"
      "wire w3 i = wire w2 i @ encode_request [''REPLCONF'', ''capa'', ''psync2'']" by (auto simp: waiting_def)
  from exchange [OF w3(2) _ _ fixed_commands_short(3) plain(7-9), of _ ?hdr "e 4" "es 4" "e' 4"] header_short [OF n] obtain w4 where
    w4: "\<forall>rounds. event_loop (exchange_rounds i (e 4) (es 4) (e' 4) (''+FULLRESYNC '' @ ids @ crlf @ ?hdr) @ rounds) w3 = event_loop rounds w4"
      "idle_master (2 ^ 63) w4 i REPL_STATE_RECEIVED_FULLRESYNC_RESPONSE ?hdr" "wire w4 i = wire w3 i @ encode_request [''PSYNC'', ''?'', ''-1'']"
    by (auto simp: waiting_def)
  have "event_loop (exchange_rounds i (e 1) (es 1) (e' 1) (''+PONG'' @ crlf) @
      exchange_rounds i (e 2) (es 2) (e' 2) (''+OK'' @ crlf) @ exchange_rounds i (e 3) (es 3) (e' 3) (''+OK'' @ crlf) @
      exchange_rounds i (e 4) (es 4) (e' 4) (''+FULLRESYNC '' @ ids @ crlf @ ?hdr)) w0 = event_loop [] w4"
    using w4(1) [THEN spec, of "[]"] by (simp only: w1(1) w2(1) w3(1) append_Nil2)
  with c0 idle_announced [OF w4(2) big] w1(3) w2(3) w3(3) w4(3) show ?thesis
    by (intro exI [of _ w0] exI [of _ w4]) simp
qed

theorem handshake_completes_witness:
  "\<exists>w0 w'. connect_to_master sample_env (Some [Connect_Refused, Connected 7]) sample_client_os
       \<lparr>globals = sample_server, conns = (\<lambda>_. None), wire = (\<lambda>_. []), released = []\<rparr> = Inr w0 \<and>
     event_loop (exchange_rounds 7 sample_env [sample_env] sample_env (''+PONG'' @ crlf) @
       exchange_rounds 7 sample_env [] sample_env (''+OK'' @ crlf) @
       exchange_rounds 7 sample_env [] sample_env (''+OK'' @ crlf) @
       exchange_rounds 7 sample_env [] sample_env (''+FULLRESYNC '' @ ''id 0'' @ crlf @ ''$29'' @ crlf)) w0 = Some (Inr (False, w')) \<and>
     announced 65536 [] 29 w' 7"
proof -
  have p: "length (cfg_port (globals \<lparr>globals = sample_server, conns = (\<lambda>_. None), wire = (\<lambda>_. []), released = []\<rparr>)) \<le> 5"
    by (simp add: sample_server_def)
  have env: "epoll_ok sample_env" "alloc sample_env n" for n by (simp_all add: sample_env_def)
  have ids: "CR \<notin> set ''id 0''" "nul_free ''id 0''" "length ''id 0'' < 239" by (simp_all add: nul_free_def)
  have n: "int 29 \<le> LONG_MAX" "show_int (int 29) = ''29''" by (simp add: c_limits, code_simp)
  have addresses: "replicate 1 Connect_Refused @ [Connected 7] = [Connect_Refused, Connected 7]" by simp
  show ?thesis
    using handshake_completes [OF sample_works(2) env(1) env(2) env(2) env(2) p ids n(1), of 1 7 "[]" "\<lambda>_. sample_env"
        "\<lambda>k. if k = 1 then [sample_env] else []" "\<lambda>_. sample_env"]
    unfolding addresses n(2) by auto
qed

end
