(* ===== verification/Snapshots.thy ===== *)
theory Snapshots
  imports Keyspace Rdb
begin

text \<open>
  What a snapshot keeps of a database: saving and loading again restores the strings, numerals in
  canonical form, and drops the lists, which \<^verbatim>\<open>rdb_save_data_to_file\<close> counts but does not write.
\<close>

section \<open>The snapshot of a key space\<close>

definition rdb_plain :: "string \<Rightarrow> bool" where
  \<comment> \<open>A string that comes back from a snapshot as it was written.\<close>
  "rdb_plain s \<longleftrightarrow> nul_free s \<and> rdb_readable s \<and> rdb_canonical s = s"

text \<open>
  A key space that survives: no length has a byte \<open>0xFF\<close>, the keys of strings are not rewritten as
  numerals, and no list has an expiration time (whose bytes would be written without the list).
\<close>

definition storable :: "keyspace \<Rightarrow> bool" where
  "storable m \<longleftrightarrow>
     (\<forall>k a e. m k = Some (a, e) \<longrightarrow>
        (case a of AStr s \<Rightarrow> rdb_plain k \<and> nul_free s \<and> rdb_readable s \<and> e \<le> LONG_MAX | AList xs \<Rightarrow> e \<le> 0))"

definition reloaded :: "keyspace \<Rightarrow> keyspace" where
  "reloaded m k = (case m k of Some (AStr s, e) \<Rightarrow> Some (AStr (rdb_canonical s), max 0 e) | _ \<Rightarrow> None)"

definition list_keys :: "keyspace \<Rightarrow> string set" where
  "list_keys m = {k. \<exists>xs e. m k = Some (AList xs, e)}"

section \<open>Expiration times\<close>

lemma sum_le_bytes: "(\<Sum>i < n. (v div 2 ^ (8 * i)) mod 256 * 2 ^ (8 * i)) = v mod (2 :: int) ^ (8 * n)"
proof (induction n)
  case (Suc n)
  have "v mod (2 ^ (8 * n) * 256) = 2 ^ (8 * n) * (v div 2 ^ (8 * n) mod 256) + v mod 2 ^ (8 * n)"
    by (rule zmod_zmult2_eq) simp
  then show ?case using Suc.IH by (simp add: power_add mult.commute)
qed simp

lemma nth_le_bytes: "i < n \<Longrightarrow> int (of_char (le_bytes n v ! i)) = (v div 2 ^ (8 * i)) mod 256"
  by (simp add: le_bytes_def of_char_byte_of)

lemma length_le_bytes [simp]: "length (le_bytes n v) = n"
  by (simp add: le_bytes_def)

lemma read_expiry_written:
  assumes "0 < e" "e \<le> LONG_MAX"
  shows "read_expiry 0xFC (le_bytes 8 e @ t # f) = Some (e, int (of_char t), f)"
proof -
  have "(\<Sum>i < 8. int (of_char ((le_bytes 8 e @ t # f) ! i)) * 2 ^ (8 * i)) =
      (\<Sum>i < 8. (e div 2 ^ (8 * i)) mod 256 * 2 ^ (8 * i))"
    by (rule sum.cong) (simp_all add: nth_append nth_le_bytes)
  also have "\<dots> = e" unfolding sum_le_bytes using assms by (simp add: c_limits)
  finally show ?thesis by (simp add: read_expiry_def)
qed

section \<open>Entries\<close>

lemma byte_codes [simp]:
  "int (of_char (byte_of 0xFC)) = 0xFC" "int (of_char (byte_of 0)) = 0" "int (of_char (byte_of 0xFF)) = 0xFF"
  "int (of_char (byte_of 0xFA)) = 0xFA" "int (of_char (byte_of 0xFB)) = 0xFB" "int (of_char (byte_of 0xFE)) = 0xFE"
  by (simp_all add: of_char_byte_of)

definition entry_bytes :: "string \<Rightarrow> string \<Rightarrow> int \<Rightarrow> bytes" where
  "entry_bytes k s e = (if e > 0 then byte_of 0xFC # le_bytes 8 e else []) @
     byte_of 0 # write_rdb_string k @ write_rdb_string s"

lemma read_pairs_entry:
  assumes rep: "db_rep p db m" and cap: "p < store_cap"
    and plain: "rdb_plain k" "nul_free s" "rdb_readable s" and e: "e \<le> LONG_MAX"
  shows "\<exists>db'. db_rep (Suc p) db' (m(k \<mapsto> (AStr (rdb_canonical s), max 0 e))) \<and>
    (\<forall>n rest. read_pairs (Suc n) db (entry_bytes k s e @ rest) = read_pairs n db' rest)"
proof -
  from db_set_ok [OF rep cap, of "Str (rdb_canonical s)" "AStr (rdb_canonical s)" k "max 0 e"] obtain db' where
    db': "redis_db_set db k (Str (rdb_canonical s)) (max 0 e) = Inr db'" "db_rep (Suc p) db' (m(k \<mapsto> (AStr (rdb_canonical s), max 0 e)))" by auto
  have long: "to_long (max 0 e) = max 0 e" by (rule to_long_id) (use e in \<open>simp_all add: c_limits\<close>)
  have strs: "read_rdb_string (write_rdb_string k @ f) = Inr (Some k, f)"
    "read_rdb_string (write_rdb_string s @ f) = Inr (Some (rdb_canonical s), f)" for f
    using plain read_written_string by (simp_all add: rdb_plain_def)
  have "read_pairs (Suc n) db (entry_bytes k s e @ rest) = read_pairs n db' rest" for n rest
    using db'(1) long e read_expiry_written [of e "byte_of 0"]
    by (cases "0 < e") (simp_all add: entry_bytes_def strs read_expiry_def EOF_def max_absorb1 max_absorb2)
  with db'(2) show ?thesis by blast
qed

definition string_slot :: "RedisValue khash \<Rightarrow> nat \<Rightarrow> bool" where
  "string_slot h i = (case vals h ! i of Some v \<Rightarrow> (case rdata v of Str s \<Rightarrow> True | Lst L \<Rightarrow> False) | None \<Rightarrow> False)"

definition slot_keys :: "RedisValue khash \<Rightarrow> nat list \<Rightarrow> string set" where
  "slot_keys h ks = {k. \<exists>i \<in> set ks. keys h ! i = Some k}"

lemma restrict_step:
  "f k = Some x \<Longrightarrow> m(k \<mapsto> x) ++ f |` K = m ++ f |` insert k K"
  "f k = None \<Longrightarrow> m ++ f |` insert k K = m ++ f |` K"
  by (auto simp: fun_eq_iff map_add_def restrict_map_def split: option.split)

lemma read_entries:
  assumes db: "db_rep p db m" "storable m" and ks: "set ks \<subseteq> live (dbh db)"
  shows "\<exists>bs. rdb_entries (dbh db) ks = Inr bs \<and>
    (\<forall>j q db0 m0 rest. db_rep q db0 m0 \<longrightarrow> q + length (filter (string_slot (dbh db)) ks) \<le> store_cap \<longrightarrow>
      (\<exists>db'. read_pairs (length (filter (string_slot (dbh db)) ks) + j) db0 (bs @ rest) = read_pairs j db' rest \<and>
        db_rep (q + length (filter (string_slot (dbh db)) ks)) db' (m0 ++ reloaded m |` slot_keys (dbh db) ks)))"
  using ks
proof (induction ks)
  case Nil
  then show ?case by (auto simp: slot_keys_def)
next
  case (Cons i ks)
  let ?h = "dbh db"
  from Cons.IH Cons.prems obtain bs where bs: "rdb_entries ?h ks = Inr bs"
    and read: "\<And>j q db0 m0 rest. db_rep q db0 m0 \<Longrightarrow> q + length (filter (string_slot ?h) ks) \<le> store_cap \<Longrightarrow>
      (\<exists>db'. read_pairs (length (filter (string_slot ?h) ks) + j) db0 (bs @ rest) = read_pairs j db' rest \<and>
        db_rep (q + length (filter (string_slot ?h) ks)) db' (m0 ++ reloaded m |` slot_keys ?h ks))" by auto
  from Cons.prems live_entry [OF db(1), of i] obtain k v a e where
    i: "keys ?h ! i = Some k" "vals ?h ! i = Some v" "m k = Some (a, e)" "data_rep (rdata v) a" "expiration v = e"
    by (force simp: val_rep_def)
  have keys: "slot_keys ?h (i # ks) = insert k (slot_keys ?h ks)" using i(1) by (auto simp: slot_keys_def)
  have stor: "case a of AStr s \<Rightarrow> rdb_plain k \<and> nul_free s \<and> rdb_readable s \<and> e \<le> LONG_MAX | AList xs \<Rightarrow> e \<le> 0"
    using db(2) i(3) by (auto simp: storable_def)
  show ?case
  proof (cases a)
    case (AStr s)
    with i have v: "rdata v = Str s" by (cases "rdata v") auto
    have "rdb_entry ?h i = Inr (entry_bytes k s e)" using i v by (simp add: rdb_entry_def entry_bytes_def)
    moreover have "reloaded m k = Some (AStr (rdb_canonical s), max 0 e)" using i(3) AStr by (simp add: reloaded_def)
    moreover have "string_slot ?h i" using i v by (simp add: string_slot_def)
    moreover have "\<exists>db'. read_pairs (Suc (length (filter (string_slot ?h) ks)) + j) db0 ((entry_bytes k s e @ bs) @ rest) =
          read_pairs j db' rest \<and>
        db_rep (Suc q + length (filter (string_slot ?h) ks)) db' (m0(k \<mapsto> (AStr (rdb_canonical s), max 0 e)) ++ reloaded m |` slot_keys ?h ks)"
      if rep: "db_rep q db0 m0" and cap: "Suc q + length (filter (string_slot ?h) ks) \<le> store_cap" for j q db0 m0 rest
    proof -
      from cap have "q < store_cap" by simp
      from read_pairs_entry [OF rep this, of k s e] stor AStr obtain db1 where
        db1: "db_rep (Suc q) db1 (m0(k \<mapsto> (AStr (rdb_canonical s), max 0 e)))"
        "\<And>n rest. read_pairs (Suc n) db0 (entry_bytes k s e @ rest) = read_pairs n db1 rest" by auto
      from read [OF db1(1) cap, of j rest] db1(2) show ?thesis by (simp only: add_Suc append_assoc)
    qed
    ultimately show ?thesis using bs by (auto simp: keys restrict_step(1))
  next
    case (AList xs)
    with i obtain L where v: "rdata v = Lst L" by (cases "rdata v") auto
    have "rdb_entry ?h i = Inr []" using i v stor AList by (simp add: rdb_entry_def)
    moreover have "reloaded m k = None" using i(3) AList by (simp add: reloaded_def)
    moreover have "\<not> string_slot ?h i" using i v by (simp add: string_slot_def)
    ultimately show ?thesis using bs read by (auto simp: keys restrict_step(2))
  qed
qed

section \<open>The slots of a database\<close>

lemma slots_of_rep:
  assumes "db_rep p db m"
  shows "slot_keys (dbh db) (kh_slots (dbh db)) = dom m"
    "length (kh_slots (dbh db)) = card (dom m)"
    "length (filter (\<lambda>i. \<not> string_slot (dbh db) i) (kh_slots (dbh db))) = card (list_keys m)"
proof -
  let ?h = "dbh db" and ?key = "\<lambda>i. the (keys (dbh db) ! i)"
  note entry = live_entry [OF assms]
  note mk = slot_of_key [OF assms]
  show "slot_keys ?h (kh_slots ?h) = dom m"
    using entry mk by (fastforce simp: slot_keys_def set_kh_slots)
  note inj = slot_key_inj [OF assms]
  have dist: "distinct (kh_slots ?h)" by (simp add: kh_slots_def)
  have "?key ` live ?h = dom m"
  proof (rule set_eqI)
    show "k \<in> ?key ` live ?h \<longleftrightarrow> k \<in> dom m" for k using entry mk by (force simp: image_iff)
  qed
  then show "length (kh_slots ?h) = card (dom m)"
    using card_image [OF inj] distinct_card [OF dist] by (simp add: set_kh_slots)
  let ?ls = "{i \<in> live ?h. \<not> string_slot ?h i}"
  have "?key ` ?ls = list_keys m"
  proof (rule set_eqI)
    fix k
    have "\<not> string_slot ?h i \<longleftrightarrow> k \<in> list_keys m" if "i \<in> live ?h" "keys ?h ! i = Some k" for i
      using entry [OF that(1)] that(2)
      by (auto simp: string_slot_def list_keys_def val_rep_def elim: data_rep.elims)
    moreover have "list_keys m \<subseteq> dom m" by (auto simp: list_keys_def)
    ultimately show "k \<in> ?key ` ?ls \<longleftrightarrow> k \<in> list_keys m" using entry mk by (force simp: image_iff)
  qed
  moreover have "inj_on ?key ?ls" using inj by (rule inj_on_subset) simp
  moreover have "set (filter (\<lambda>i. \<not> string_slot ?h i) (kh_slots ?h)) = ?ls" by (auto simp: set_kh_slots)
  ultimately show "length (filter (\<lambda>i. \<not> string_slot ?h i) (kh_slots ?h)) = card (list_keys m)"
    using distinct_card [OF distinct_filter [OF dist]] card_image by metis
qed

lemma read_tail:
  "read_pairs j db [byte_of 0xFF] =
     Inr (if j = 0 then (True, db, [byte_of 0xFF]) else if j = 1 then (True, db, []) else (False, db, []))"
  by (cases j; cases "j - 1") (auto simp: read_expiry_def EOF_def)

lemma snapshot_read:
  assumes db: "db_rep p db m" "storable m" and few: "card (dom m) \<le> 255"
    and db0: "db_rep q db0 m0" "q + card (dom m) \<le> store_cap"
  shows "\<exists>bs db'. rdb_file db = Inr bs \<and> 9 \<le> length bs \<and> take 9 bs = ''REDIS0012'' \<and>
    (\<forall>n. read_sections (Suc (Suc (Suc (Suc n)))) db0 (drop 9 bs) = Inr (if card (list_keys m) \<le> 1 then 0 else 1, db')) \<and>
    db_rep (q + card (dom m)) db' (m0 ++ reloaded m)"
proof -
  let ?h = "dbh db"
  let ?strs = "length (filter (string_slot ?h) (kh_slots ?h))"
  have count: "?strs + card (list_keys m) = card (dom m)"
    using sum_length_filter_compl [of "string_slot ?h" "kh_slots ?h"] slots_of_rep [OF db(1)] by simp
  from read_entries [OF db, of "kh_slots ?h"] obtain es where es: "rdb_entries ?h (kh_slots ?h) = Inr es"
    and read: "\<And>j rest. q + ?strs \<le> store_cap \<Longrightarrow>
      \<exists>db'. read_pairs (?strs + j) db0 (es @ rest) = read_pairs j db' rest \<and>
        db_rep (q + ?strs) db' (m0 ++ reloaded m |` slot_keys ?h (kh_slots ?h))"
    using db0(1) unfolding set_kh_slots by blast
  have "q + ?strs \<le> store_cap" using count db0(2) by linarith
  from read [OF this, of "card (list_keys m)" "[byte_of 0xFF]"] obtain db' where
    pairs: "read_pairs (card (dom m)) db0 (es @ [byte_of 0xFF]) = read_pairs (card (list_keys m)) db' [byte_of 0xFF]"
    and rep: "db_rep (q + ?strs) db' (m0 ++ reloaded m |` slot_keys ?h (kh_slots ?h))"
    unfolding count by blast
  have "reloaded m |` dom m = reloaded m" by (auto simp: restrict_map_def reloaded_def fun_eq_iff split: option.split)
  then have rep': "db_rep (q + card (dom m)) db' (m0 ++ reloaded m)"
    using db_rep_mono [OF rep, of "q + card (dom m)"] count slots_of_rep(1) [OF db(1)] by simp
  let ?tail = "byte_of (uint (key_count db)) # byte_of (uint (expiry_count db)) # es @ [byte_of 0xFF]"
  let ?bs = "''REDIS0012'' @ [byte_of 0xFA, byte_of 0xFE, byte_of 0xFB] @ ?tail"
  have image: "rdb_file db = Inr ?bs" by (simp add: rdb_file_def es)
  have "uint (key_count db) = int (card (dom m))"
    using db(1) few by (simp add: db_rep_def uint_nat unat_of_nat_64)
  then have kc: "int (of_char (byte_of (uint (key_count db)))) = int (card (dom m))"
    using few by (simp add: of_char_byte_of)
  have "read_sections (Suc (Suc (Suc (Suc n)))) db0 (byte_of 0xFA # byte_of 0xFE # byte_of 0xFB # ?tail) =
      Inr (if card (list_keys m) \<le> 1 then 0 else 1, db')" for n
    using pairs by (simp add: kc read_tail EOF_def)
  moreover have "take 9 ?bs = ''REDIS0012''" "9 \<le> length ?bs" by simp_all
  moreover have "drop 9 ?bs = byte_of 0xFA # byte_of 0xFE # byte_of 0xFB # ?tail" by simp
  ultimately show ?thesis using image rep' by (intro exI conjI allI) (assumption | simp only:)+
qed

lemma load_written:
  assumes db: "db_rep p db m" "storable m" "card (dom m) \<le> 255"
    and db0: "db_rep q db0 m0" "q + card (dom m) \<le> store_cap"
  obtains bs db' where "rdb_file db = Inr bs"
    "\<forall>fs dir filename. fs (rdb_path dir filename) = Some bs \<longrightarrow>
       rdb_load_data_from_file fs db0 dir filename = Inr (if card (list_keys m) \<le> 1 then 0 else 1, db')"
    "db_rep (q + card (dom m)) db' (m0 ++ reloaded m)"
proof -
  from snapshot_read [OF db db0] obtain bs db' where
    bs: "rdb_file db = Inr bs" "9 \<le> length bs" "take 9 bs = ''REDIS0012''"
    "\<And>n. read_sections (Suc (Suc (Suc (Suc n)))) db0 (drop 9 bs) = Inr (if card (list_keys m) \<le> 1 then 0 else 1, db')"
    "db_rep (q + card (dom m)) db' (m0 ++ reloaded m)" by blast
  have "length bs + 1 = Suc (Suc (Suc (Suc (length bs - 3))))" using bs(2) by simp
  then have "read_sections (length bs + 1) db0 (drop 9 bs) = Inr (if card (list_keys m) \<le> 1 then 0 else 1, db')"
    using bs(4) by (simp only:)
  moreover have "cstr ''REDIS0012'' = ''REDIS0012''" by (rule cstr_nul_free) (simp add: nul_free_def)
  ultimately have "\<forall>fs dir filename. fs (rdb_path dir filename) = Some bs \<longrightarrow>
      rdb_load_data_from_file fs db0 dir filename = Inr (if card (list_keys m) \<le> 1 then 0 else 1, db')"
    using bs(2,3) by (simp add: rdb_load_data_from_file_def del: One_nat_def)
  with that bs(1,5) show thesis by blast
qed

lemma rdb_file_single:
  assumes "db_rep p db [k \<mapsto> (AStr s, e)]"
  shows "rdb_file db = Inr (''REDIS0012'' @ [byte_of 0xFA, byte_of 0xFE, byte_of 0xFB,
    byte_of (uint (key_count db)), byte_of (uint (expiry_count db))] @ entry_bytes k s e @ [byte_of 0xFF])"
proof -
  have "length (kh_slots (dbh db)) = 1" using slots_of_rep(2) [OF assms] by simp
  then obtain i where i: "kh_slots (dbh db) = [i]" by (auto simp: length_Suc_conv)
  then have "i \<in> live (dbh db)" using set_kh_slots [of "dbh db"] by auto
  from live_entry [OF assms this] obtain v where
    "keys (dbh db) ! i = Some k" "vals (dbh db) ! i = Some v" "expiration v = e" "data_rep (rdata v) (AStr s)"
    by (auto simp: val_rep_def split: if_splits)
  moreover from this(4) have "rdata v = Str s" by (cases "rdata v") auto
  ultimately have "rdb_entry (dbh db) i = Inr (entry_bytes k s e)" by (simp add: rdb_entry_def entry_bytes_def)
  with i show ?thesis by (simp add: rdb_file_def)
qed

section \<open>Properties\<close>

text \<open>
  C10 (roundtrip): a database of at most 255 keys that is saved and loaded again, into any database,
  comes back with its strings and their expirations, where a value that reads as a 32-bit integer comes
  back as its canonical numeral.  It is assumed that the key space is \<open>storable\<close>: the length of no string
  of more than 16383 characters has a byte \<open>0xFF\<close>, no key of a string reads as a non-canonical integer,
  and no list has an expiration.  The lists are lost, and the load reports an error exactly when there are
  two or more of them.
\<close>

theorem rdb_save_load:
  assumes db: "db_rep p db m" "storable m" "card (dom m) \<le> 255" and os: "mkdir_ok os" "fopen_write_ok os"
    and db0: "db_rep q db0 m0" "q + card (dom m) \<le> store_cap"
  shows "\<exists>fs' db'. rdb_save_data_to_file os fs db dir filename = Inr (True, fs') \<and>
    rdb_load_data_from_file fs' db0 dir filename = Inr (if card (list_keys m) \<le> 1 then 0 else 1, db') \<and>
    db_rep (q + card (dom m)) db' (m0 ++ reloaded m)"
proof -
  obtain bs db' where bs: "rdb_file db = Inr bs"
    "\<forall>fs dir filename. fs (rdb_path dir filename) = Some bs \<longrightarrow>
       rdb_load_data_from_file fs db0 dir filename = Inr (if card (list_keys m) \<le> 1 then 0 else 1, db')"
    "db_rep (q + card (dom m)) db' (m0 ++ reloaded m)" by (rule load_written [OF db db0])
  have "rdb_save_data_to_file os fs db dir filename = Inr (True, fs(rdb_path dir filename \<mapsto> bs))"
    using bs(1) os by (simp add: rdb_save_data_to_file_def)
  moreover have "rdb_load_data_from_file (fs(rdb_path dir filename \<mapsto> bs)) db0 dir filename =
      Inr (if card (list_keys m) \<le> 1 then 0 else 1, db')" using bs(2) by simp
  ultimately show ?thesis using bs(3) by blast
qed

text \<open>A database with one string that expires and one list.\<close>

theorem rdb_save_load_witness:
  "\<exists>p db fs' db'. db_rep p db [''k'' \<mapsto> (AStr ''007'', 10), ''l'' \<mapsto> (AList [''a''], 0)] \<and>
    rdb_save_data_to_file \<lparr>mkdir_ok = True, fopen_write_ok = True\<rparr> Map.empty db ''/tmp'' ''dump.rdb'' = Inr (True, fs') \<and>
    rdb_load_data_from_file fs' \<lparr>dbh = kh_init, key_count = 0, expiry_count = 0\<rparr> ''/tmp'' ''dump.rdb'' = Inr (0, db') \<and>
    db_rep 2 db' [''k'' \<mapsto> (AStr ''7'', 10)]"
proof -
  let ?db0 = "\<lparr>dbh = kh_init, key_count = 0, expiry_count = 0\<rparr> :: redis_db"
  let ?m = "[''k'' \<mapsto> (AStr ''007'', 10), ''l'' \<mapsto> (AList [''a''], 0)] :: keyspace"
  have empty: "db_rep 0 ?db0 Map.empty" by (rule db_create_rep) (simp add: redis_db_create_def)
  from db_set_ok [OF empty, of "Str ''007''" "AStr ''007''" "''k''" 10] obtain db1 where
    "db_rep (Suc 0) db1 [''k'' \<mapsto> (AStr ''007'', 10)]" by (auto simp: store_cap_def)
  moreover have "Suc 0 < store_cap" by (simp add: store_cap_def)
  ultimately obtain db where db: "db_rep 2 db ?m"
    using db_rpush_ok [of "Suc 0" db1 "[''k'' \<mapsto> (AStr ''007'', 10)]" 0 0 "''l''" "''a''" 0]
    by (auto simp: push_keyspace_def purge_def Let_def numeral_2_eq_2)
  have canon: "rdb_canonical ''k'' = ''k''" "rdb_canonical ''007'' = ''7''" by code_simp+
  then have stor: "storable ?m"
    by (auto simp: storable_def rdb_plain_def rdb_readable_def length_bytes_ok_def nul_free_def c_limits)
  have card: "card (dom ?m) = 2" by (simp add: card_insert_if)
  have lists: "list_keys ?m = {''l''}" by (auto simp: list_keys_def)
  have re: "Map.empty ++ reloaded ?m = [''k'' \<mapsto> (AStr ''7'', 10)]" using canon(2) by (simp add: reloaded_def fun_eq_iff)
  have rc: "(if card (list_keys ?m) \<le> 1 then 0 else 1 :: int) = 0" "0 + card (dom ?m) = 2" using card by (simp_all add: lists)
  have "\<exists>fs' db'. rdb_save_data_to_file \<lparr>mkdir_ok = True, fopen_write_ok = True\<rparr> Map.empty db ''/tmp'' ''dump.rdb'' =
      Inr (True, fs') \<and>
    rdb_load_data_from_file fs' ?db0 ''/tmp'' ''dump.rdb'' = Inr (if card (list_keys ?m) \<le> 1 then 0 else 1, db') \<and>
    db_rep (0 + card (dom ?m)) db' (Map.empty ++ reloaded ?m)"
    by (rule rdb_save_load [OF db stor _ _ _ empty]) (simp_all only: card, simp_all add: store_cap_def)
  then have "\<exists>fs' db'. rdb_save_data_to_file \<lparr>mkdir_ok = True, fopen_write_ok = True\<rparr> Map.empty db ''/tmp'' ''dump.rdb'' =
      Inr (True, fs') \<and>
    rdb_load_data_from_file fs' ?db0 ''/tmp'' ''dump.rdb'' = Inr (0, db') \<and> db_rep 2 db' [''k'' \<mapsto> (AStr ''7'', 10)]"
    unfolding rc re .
  with db show ?thesis by blast
qed

end
