(* ===== verification/Resync.thy ===== *)
theory Resync
  imports Snapshots Startup
begin

text \<open>
  A full resynchronisation from one key space to the other: the snapshot that the master sends in
  as many turns of its event loop as the socket needs, the chunks in which the replica receives it, and
  the key space that the replica has loaded at the end.
\<close>

section \<open>Turns of the master\<close>

primrec send_turns :: "env \<Rightarrow> write_result list list \<Rightarrow> server \<Rightarrow> Client \<Rightarrow> (bytes \<times> Client) res" where
  "send_turns e [] s c = Inr ([], c)"
| "send_turns e (rs # rss) s c =
     (if master_repl_state c = MASTER_REPL_STATE_SENDING_RDB_DATA then
        rbind (master_send_rdb_snapshot e rs s c) (\<lambda>(sent, c).
        rbind (send_turns e rss s c) (\<lambda>(more, c). Inr (sent @ more, c)))
      else Inr ([], c))"

definition sending :: "server \<Rightarrow> bytes \<Rightarrow> Client \<Rightarrow> bool" where
  \<comment> \<open>A replica to which the open file \<open>bs\<close> is being sent.\<close>
  "sending s bs c \<longleftrightarrow>
     client_type c \<noteq> CLIENT_TYPE_REGULAR \<and>
     (\<exists>path. open_files s (rdb_fd c) = Some path \<and> files s path = Some bs) \<and>
     rdb_file_size c = int (length bs) \<and> int (length bs) \<le> LONG_MAX \<and> 0 \<le> rdb_file_offset c \<and> rdb_file_offset c \<le> rdb_file_size c \<and>
     (master_repl_state c = MASTER_REPL_STATE_PROPAGATE \<longrightarrow> rdb_file_offset c = rdb_file_size c)"

lemma sendfile_loop_progress:
  assumes pos: "0 < k" "off < length snap" "0 < remaining"
    and run: "sendfile_loop (Sent k # rs) snap remaining off sent = (go_on, off', sent')"
  shows "off < off'"
proof -
  let ?bs = "take (min k remaining) (drop off snap)"
  have ne: "?bs \<noteq> []" using pos by simp
  then have len: "0 < length ?bs" by blast
  have "off + length ?bs \<le> length snap" using pos by simp
  moreover have "sendfile_loop rs snap remaining (off + length ?bs) (sent @ ?bs) = (go_on, off', sent')"
    using run ne by (simp only: sendfile_loop.simps write_result.case Let_def if_False)
  ultimately have "off + length ?bs \<le> off'" using sendfile_loop_ok by blast
  with len show ?thesis by linarith
qed

lemma sendfile_loop_end: "sendfile_loop (Sent k # rs) snap remaining (length snap) sent = (True, length snap, sent)"
  by simp

lemma size_t_of_rest:
  assumes "0 \<le> off" "off \<le> int n" "int n \<le> LONG_MAX"
  shows "size_t_of (int n - off) = n - nat off"
proof -
  have "int n - off = int (n - nat off)" using assms by simp
  moreover have "n - nat off < 2 ^ 64" using assms(3) by (simp add: c_limits)
  ultimately show ?thesis by (simp only: size_t_of_nat)
qed

text \<open>One turn: the bytes after the offset in order, the frame, and progress when the socket takes a byte.\<close>

lemma send_turn:
  assumes snd: "sending s bs c" and ep: "epoll_ok e" and st: "master_repl_state c = MASTER_REPL_STATE_SENDING_RDB_DATA"
  obtains sent c' where "master_send_rdb_snapshot e rs s c = Inr (sent, c')" "sending s bs c'"
    "rdb_file_offset c \<le> rdb_file_offset c'"
    "sent = take (nat (rdb_file_offset c' - rdb_file_offset c)) (drop (nat (rdb_file_offset c)) bs)"
    "master_repl_state c' = MASTER_REPL_STATE_SENDING_RDB_DATA \<or> master_repl_state c' = MASTER_REPL_STATE_PROPAGATE"
    "\<And>k rs'. rs = Sent k # rs' \<Longrightarrow> 0 < k \<Longrightarrow>
       master_repl_state c' = MASTER_REPL_STATE_PROPAGATE \<or> rdb_file_offset c < rdb_file_offset c'"
proof -
  from snd obtain path where
    c: "client_type c \<noteq> CLIENT_TYPE_REGULAR" "open_files s (rdb_fd c) = Some path" "files s path = Some bs"
    "rdb_file_size c = int (length bs)" "0 \<le> rdb_file_offset c" "rdb_file_offset c \<le> rdb_file_size c"
    and long: "int (length bs) \<le> LONG_MAX" by (auto simp: sending_def)
  have code: "client_type_code (client_type c) \<noteq> 0" using c(1) by (cases "client_type c") (simp_all add: client_type_code_def)
  let ?off = "nat (rdb_file_offset c)" and ?rem = "length bs - nat (rdb_file_offset c)"
  have rem: "size_t_of (rdb_file_size c - rdb_file_offset c) = ?rem" using size_t_of_rest [OF c(5) _ long] c(4,6) by simp
  obtain go_on off' sent where loop: "sendfile_loop rs bs ?rem ?off [] = (go_on, off', sent)" by (metis prod_cases3)
  have "?off \<le> length bs" using c by simp
  note ok = sendfile_loop_ok [OF loop this]
  let ?done = "go_on \<and> int off' = rdb_file_size c"
  let ?c' = "if ?done then c\<lparr>rdb_file_offset := int off', epoll_events := epoll_events c AND NOT EPOLLOUT,
      master_repl_state := MASTER_REPL_STATE_PROPAGATE\<rparr> else c\<lparr>rdb_file_offset := int off'\<rparr>"
  show thesis
  proof (rule that [of sent ?c'])
    show "master_send_rdb_snapshot e rs s c = Inr (sent, ?c')"
      using code c(2,3) ep unfolding master_send_rdb_snapshot_def rem
      by (simp add: Let_def loop client_disable_write_events_def)
    show "sending s bs ?c'" using c ok st long by (auto simp: sending_def)
    show "rdb_file_offset c \<le> rdb_file_offset ?c'" using c(5) ok by auto
    show "sent = take (nat (rdb_file_offset ?c' - rdb_file_offset c)) (drop ?off bs)"
    proof -
      have "rdb_file_offset ?c' = int off'" by simp
      moreover have "nat (int off' - rdb_file_offset c) = off' - ?off" using c(5) by simp
      ultimately show ?thesis using ok by simp
    qed
    show "master_repl_state ?c' = MASTER_REPL_STATE_SENDING_RDB_DATA \<or> master_repl_state ?c' = MASTER_REPL_STATE_PROPAGATE"
      using st by simp
    show "master_repl_state ?c' = MASTER_REPL_STATE_PROPAGATE \<or> rdb_file_offset c < rdb_file_offset ?c'"
      if "rs = Sent k # rs'" "0 < k" for k rs'
    proof (cases "?off = length bs")
      case True
      with loop that sendfile_loop_end [of k rs' bs ?rem "[]"] c show ?thesis by auto
    next
      case False
      then have "?off < length bs" using c by simp
      then have "?off < off'" using sendfile_loop_progress [OF that(2), of ?off bs ?rem rs' "[]"] loop that(1) by simp
      then show ?thesis using c(5) by auto
    qed
  qed
qed

text \<open>Several turns.\<close>

lemma take_two: "i \<le> j \<Longrightarrow> j \<le> k \<Longrightarrow> take (j - i) (drop i xs) @ take (k - j) (drop j xs) = take (k - i) (drop i xs)"
  using take_add [of "j - i" "k - j" "drop i xs"] by simp

lemma send_turns_ok:
  assumes "sending s bs c" "epoll_ok e" "master_repl_state c = MASTER_REPL_STATE_SENDING_RDB_DATA"
  shows "\<exists>sent c'. send_turns e rss s c = Inr (sent, c') \<and> sending s bs c' \<and> rdb_file_offset c \<le> rdb_file_offset c' \<and>
    sent = take (nat (rdb_file_offset c' - rdb_file_offset c)) (drop (nat (rdb_file_offset c)) bs) \<and>
    (master_repl_state c' = MASTER_REPL_STATE_SENDING_RDB_DATA \<or> master_repl_state c' = MASTER_REPL_STATE_PROPAGATE) \<and>
    ((\<forall>rs \<in> set rss. \<exists>k rs'. rs = Sent k # rs' \<and> 0 < k) \<longrightarrow>
       master_repl_state c' = MASTER_REPL_STATE_PROPAGATE \<or> rdb_file_offset c + int (length rss) \<le> rdb_file_offset c')"
  using assms
proof (induction rss arbitrary: c)
  case (Cons rs rss)
  from send_turn [OF Cons.prems, of rs] obtain sent c' where
    one: "master_send_rdb_snapshot e rs s c = Inr (sent, c')" "sending s bs c'" "rdb_file_offset c \<le> rdb_file_offset c'"
    "sent = take (nat (rdb_file_offset c' - rdb_file_offset c)) (drop (nat (rdb_file_offset c)) bs)"
    "master_repl_state c' = MASTER_REPL_STATE_SENDING_RDB_DATA \<or> master_repl_state c' = MASTER_REPL_STATE_PROPAGATE"
    "\<And>k rs'. rs = Sent k # rs' \<Longrightarrow> 0 < k \<Longrightarrow>
       master_repl_state c' = MASTER_REPL_STATE_PROPAGATE \<or> rdb_file_offset c < rdb_file_offset c'" by blast
  show ?case
  proof (cases "master_repl_state c' = MASTER_REPL_STATE_SENDING_RDB_DATA")
    case True
    from Cons.IH [OF one(2) Cons.prems(2) True] obtain more c2 where
      two: "send_turns e rss s c' = Inr (more, c2)" "sending s bs c2" "rdb_file_offset c' \<le> rdb_file_offset c2"
      "more = take (nat (rdb_file_offset c2 - rdb_file_offset c')) (drop (nat (rdb_file_offset c')) bs)"
      "master_repl_state c2 = MASTER_REPL_STATE_SENDING_RDB_DATA \<or> master_repl_state c2 = MASTER_REPL_STATE_PROPAGATE"
      "(\<forall>rs \<in> set rss. \<exists>k rs'. rs = Sent k # rs' \<and> 0 < k) \<longrightarrow>
       master_repl_state c2 = MASTER_REPL_STATE_PROPAGATE \<or> rdb_file_offset c' + int (length rss) \<le> rdb_file_offset c2"
      by blast
    have pos: "0 \<le> rdb_file_offset c" using Cons.prems(1) by (simp add: sending_def)
    have "sent @ more = take (nat (rdb_file_offset c2 - rdb_file_offset c)) (drop (nat (rdb_file_offset c)) bs)"
      using one(3,4) two(3,4) pos
        take_two [of "nat (rdb_file_offset c)" "nat (rdb_file_offset c')" "nat (rdb_file_offset c2)" bs]
      by (simp add: nat_diff_distrib)
    moreover have "master_repl_state c2 = MASTER_REPL_STATE_PROPAGATE \<or> rdb_file_offset c + int (length (rs # rss)) \<le> rdb_file_offset c2"
      if "\<forall>rs \<in> set (rs # rss). \<exists>k rs'. rs = Sent k # rs' \<and> 0 < k"
      using that one(6) two(6) True by fastforce
    ultimately show ?thesis using one(1,3) two(1-3,5) Cons.prems(3) by (intro exI [of _ "sent @ more"] exI [of _ c2]) simp
  next
    case False
    then have "send_turns e rss s c' = Inr ([], c')" by (cases rss) simp_all
    with False one Cons.prems(3) show ?thesis by simp
  qed
qed simp

lemma send_all:
  assumes "sending s bs c" "epoll_ok e" "master_repl_state c = MASTER_REPL_STATE_SENDING_RDB_DATA" "rdb_file_offset c = 0"
    and "\<forall>rs \<in> set rss. \<exists>k rs'. rs = Sent k # rs' \<and> 0 < k" "length bs < length rss"
  shows "\<exists>c'. send_turns e rss s c = Inr (bs, c') \<and> master_repl_state c' = MASTER_REPL_STATE_PROPAGATE"
  using send_turns_ok [OF assms(1-3), of rss] assms(4-6) by (auto simp: sending_def)

section \<open>The start of a full resynchronisation\<close>

definition resync_header :: "server \<Rightarrow> bytes \<Rightarrow> bytes" where
  \<comment> \<open>What the replica gets before the bytes of the snapshot.\<close>
  "resync_header s bs =
     encode_reply (Simple_Reply (cstr (snprintf 80 (''FULLRESYNC '' @ master_replid s @ '' '' @ show_int (master_repl_offset s))))) @
     ''$'' @ show_int (int (length bs)) @ crlf"

lemma full_resync_ok:
  assumes bs: "rdb_file (the_db ch) = Inr bs" "int (length bs) \<le> LONG_MAX"
    and os: "mkdir_ok (file_os e)" "fopen_write_ok (file_os e)" "epoll_ok e"
    and room: "sink_ready (output_buffer (client ch)) (Suc (length (resync_header (srv ch) bs)))"
    and type: "client_type (client ch) \<noteq> CLIENT_TYPE_REGULAR"
  obtains ch' where "full_resync e ch = Inr ch'" "sending (srv ch') bs (client ch')"
    "master_repl_state (client ch') = MASTER_REPL_STATE_SENDING_RDB_DATA" "rdb_file_offset (client ch') = 0"
    "appends (output_buffer (client ch)) (resync_header (srv ch) bs) (output_buffer (client ch'))"
    "replicas (srv ch') = replicas (srv ch)" "client_type (client ch') = client_type (client ch)"
    "should_reply (client ch') = should_reply (client ch)"
proof -
  let ?line = "cstr (snprintf 80 (''FULLRESYNC '' @ master_replid (srv ch) @ '' '' @ show_int (master_repl_offset (srv ch))))"
  let ?len = "''$'' @ show_int (int (length bs)) @ crlf" and ?rb = "output_buffer (client ch)"
  let ?path = "rdb_path (cfg_dir (srv ch)) (cfg_dbfilename (srv ch))"
  have split: "resync_header (srv ch) bs = encode_reply (Simple_Reply ?line) @ ?len" by (simp add: resync_header_def)
  have "sink_ready ?rb (length (encode_reply (Simple_Reply ?line)) + Suc (length ?len))" using room by (simp add: split)
  note ready = this
  then have "sink_ready ?rb (Suc (length (encode_reply (Simple_Reply ?line))))" by (rule sink.ready_mono) simp
  from send_reply_ok [OF this] obtain rb1 where
    rb1: "add_simple_string_reply ?rb ?line = Inr rb1" "appends ?rb (encode_reply (Simple_Reply ?line)) rb1" by auto
  have "sink_ready rb1 (Suc (length ?len))" using sink.app_ready [OF rb1(2) ready] .
  then obtain rb2 where rb2: "write_begin_bulk_string rb1 (int (length bs)) = Inr rb2" "appends rb1 ?len rb2"
    using write_begin_bulk_string_len [of rb1 "int (length bs)"] by (auto simp: sink_ready_def fits_def)
  have app: "appends ?rb (resync_header (srv ch) bs) rb2" unfolding split using sink.app_trans [OF rb1(2) rb2(2)] .
  let ?c = "(client ch)\<lparr>output_buffer := rb2, rdb_fd := next_fd e, rdb_file_size := int (length bs), rdb_file_offset := 0,
      master_repl_state := MASTER_REPL_STATE_SENDING_RDB_DATA, epoll_events := epoll_events (client ch) OR EPOLLOUT\<rparr>"
  let ?s = "(srv ch)\<lparr>files := (files (srv ch))(?path \<mapsto> bs), open_files := (open_files (srv ch))(next_fd e \<mapsto> ?path)\<rparr>"
  show thesis
  proof (rule that [of "ch\<lparr>client := ?c, srv := ?s\<rparr>"])
    show "full_resync e ch = Inr (ch\<lparr>client := ?c, srv := ?s\<rparr>)"
      using rb1(1) rb2(1) bs(1) os
      by (simp add: full_resync_def reply_def add_fullresync_reply_def save_db_def redis_db_save_def
          rdb_save_data_to_file_def Let_def enable_writes_def client_enable_write_events_def)
  qed (use type bs(2) app in \<open>auto simp: sending_def\<close>)
qed

lemma psync_full:
  assumes psync: "3 \<le> length (args ch)" "\<not> partial_resync_ok (srv ch) (args ch ! 1) (args ch ! 2)" "length (replicas (srv ch)) < MAX_REPLICAS"
    and bs: "rdb_file (the_db ch) = Inr bs" "int (length bs) \<le> LONG_MAX"
    and os: "mkdir_ok (file_os e)" "fopen_write_ok (file_os e)" "epoll_ok e"
    and room: "sink_ready (output_buffer (client ch)) (Suc (length (resync_header (srv ch) bs)))"
  obtains ch' where "handle_psync e ch = Inr ch'" "sending (srv ch') bs (client ch')"
    "master_repl_state (client ch') = MASTER_REPL_STATE_SENDING_RDB_DATA" "rdb_file_offset (client ch') = 0"
    "appends (output_buffer (client ch)) (resync_header (srv ch) bs) (output_buffer (client ch'))"
    "replicas (srv ch') = replicas (srv ch) @ [fd (client ch)]" "client_type (client ch') = CLIENT_TYPE_REPLICA"
    "\<not> should_reply (client ch')"
proof -
  let ?ch = "ch\<lparr>client := (client ch)\<lparr>client_type := CLIENT_TYPE_REPLICA, should_reply := False\<rparr>,
    srv := (srv ch)\<lparr>replicas := replicas (srv ch) @ [fd (client ch)]\<rparr>\<rparr>"
  have hdr: "resync_header (srv ?ch) bs = resync_header (srv ch) bs" by (simp add: resync_header_def)
  have run: "handle_psync e ch = full_resync e ?ch" using psync by (simp add: handle_psync_def add_replica_def Let_def)
  have "rdb_file (the_db ?ch) = Inr bs" "sink_ready (output_buffer (client ?ch)) (Suc (length (resync_header (srv ?ch) bs)))"
    "client_type (client ?ch) \<noteq> CLIENT_TYPE_REGULAR" using bs(1) room unfolding hdr by simp_all
  from full_resync_ok [OF this(1) bs(2) os this(2,3)] obtain ch' where
    "full_resync e ?ch = Inr ch'" "sending (srv ch') bs (client ch')"
    "master_repl_state (client ch') = MASTER_REPL_STATE_SENDING_RDB_DATA" "rdb_file_offset (client ch') = 0"
    "appends (output_buffer (client ?ch)) (resync_header (srv ?ch) bs) (output_buffer (client ch'))"
    "replicas (srv ch') = replicas (srv ?ch)" "client_type (client ch') = client_type (client ?ch)"
    "should_reply (client ch') = should_reply (client ?ch)" by metis
  with run hdr show thesis by (intro that) simp_all
qed

lemma continue_fits: "length (encode_reply (Simple_Reply ''CONTINUE'')) \<le> length (resync_header s bs)"
proof -
  have "cstr (snprintf 80 (''FULLRESYNC '' @ x)) = ''FULLRESYNC '' @ cstr (snprintf 69 x)" for x
    by (simp add: snprintf_def cstr_def)
  then show ?thesis by (simp add: resync_header_def)
qed

lemma psync_partial:
  assumes psync: "3 \<le> length (args ch)" "partial_resync_ok (srv ch) (args ch ! 1) (args ch ! 2)" "length (replicas (srv ch)) < MAX_REPLICAS"
    and room: "sink_ready (output_buffer (client ch)) (Suc (length (encode_reply (Simple_Reply ''CONTINUE''))))" and ep: "epoll_ok e"
  shows "\<exists>ch'. handle_psync e ch = Inr ch' \<and> replicas (srv ch') = replicas (srv ch) @ [fd (client ch)] \<and>
    client_type (client ch') = CLIENT_TYPE_REPLICA \<and> \<not> should_reply (client ch')"
proof -
  from send_reply_ok [OF room] obtain rb where "add_simple_string_reply (output_buffer (client ch)) ''CONTINUE'' = Inr rb" by auto
  with psync ep show ?thesis
    by (simp add: handle_psync_def add_replica_def Let_def reply_def enable_writes_def client_enable_write_events_def)
qed

section \<open>The header of the snapshot\<close>

lemma find_crlf_first:
  assumes "CR \<notin> set xs"
  shows "find_crlf (xs @ CR # LF # ys) = Some (length xs)"
proof -
  let ?bs = "xs @ CR # LF # ys" and ?P = "\<lambda>bs i. bs ! i = CR \<and> bs ! (i + 1) = LF"
  have "[0..<length ?bs - 1] = [0..<length xs] @ [length xs..<length ?bs - 1]"
    using upt_add_eq_append [of 0 "length xs" "Suc (length ys)"] by simp
  also have "[length xs..<length ?bs - 1] = length xs # [Suc (length xs)..<length ?bs - 1]"
    by (rule upt_conv_Cons) simp
  finally have split: "[0..<length ?bs - 1] = [0..<length xs] @ length xs # [Suc (length xs)..<length ?bs - 1]" .
  have "\<not> ?P ?bs j" if "j < length xs" for j
    using that assms nth_mem [OF that] by (metis nth_append)
  then have "filter (?P ?bs) [0..<length xs] = []" by (simp add: filter_empty_conv)
  moreover have "?P ?bs (length xs)" by (simp add: nth_append)
  ultimately have "filter (?P ?bs) [0..<length ?bs - 1] = length xs # filter (?P ?bs) [Suc (length xs)..<length ?bs - 1]"
    unfolding split by simp
  then show ?thesis by (simp add: find_crlf_def)
qed

lemma CR_in_header: "CR \<notin> set (''$'' @ show_int (int n))"
  using show_nat_digits [of n] not_digit_facts(4) by (auto simp: show_int_def)

lemma header_parsed:
  assumes inv: "rb_inv (input_buffer c)" and c: "contents (input_buffer c) = ''$'' @ show_int (int n) @ crlf @ early"
    and n: "int n \<le> LONG_MAX"
  obtains rb where "parse_snapshot_header c = Inr (True, c\<lparr>input_buffer := rb, rdb_expected_bytes := int n,
      rdb_received_bytes := 0, repl_client_state := REPL_STATE_RECEIVING_RDB_DATA\<rparr>)"
    "drained (input_buffer c) (length (show_int (int n)) + 3) rb" "contents rb = early"
proof -
  let ?rb = "input_buffer c" and ?d = "show_int (int n)"
  let ?off = "unat (read_index ?rb) mod unat (rb_size ?rb)" and ?k = "length ?d + 3"
  have len: "unat (readable_len ?rb) = length (''$'' @ ?d @ crlf @ early)" using length_contents [of ?rb] by (simp only: c)
  have h: "holds (mapped ?rb) ?off (''$'' @ ?d @ crlf @ early)" using mapped_holds [OF inv] by (simp only: c)
  then have sl: "slice (mapped ?rb) ?off (?off + unat (readable_len ?rb)) = ''$'' @ ?d @ crlf @ early"
    unfolding len by (rule holds_slice)
  have "find_crlf ((''$'' @ ?d) @ CR # LF # early) = Some (length (''$'' @ ?d))" by (rule find_crlf_first [OF CR_in_header])
  then have found: "find_crlf (slice (mapped ?rb) ?off (?off + unat (readable_len ?rb))) = Some (Suc (length ?d))"
    unfolding sl by simp
  have "holds (mapped ?rb) ?off ((''$'' @ ?d @ crlf) @ early)" using h by (simp only: append_assoc)
  then have "holds (mapped ?rb) (?off + length ''$'') (?d @ crlf)" by (simp only: holds_append)
  then have "holds (mapped ?rb) (Suc ?off) (?d @ crlf)" by (simp del: holds_append)
  from strtol_holds [OF this _ n] have val: "fst (strtol (drop (Suc ?off) (mapped ?rb))) = int n" by (simp add: c_limits)
  have "0 < length ?d" by simp
  then have enough: "\<not> unat (readable_len ?rb) < 4" unfolding len by (simp del: length_greater_0_conv)
  have k: "?k \<le> length (contents ?rb)" unfolding c by simp
  have "length (''$'' @ ?d @ crlf) = ?k" by simp
  then have rest: "drop ?k (''$'' @ ?d @ crlf @ early) = early" by (metis append_assoc append_eq_conv_conj)
  note rd = rb_read_ok [OF inv k]
  show thesis
  proof (rule that [of "?rb\<lparr>read_index := read_index ?rb + of_nat ?k\<rparr>"])
    have rd': "rb_read ?rb (of_nat (Suc (length ?d) + 2)) = Inr (0, ?rb\<lparr>read_index := read_index ?rb + of_nat ?k\<rparr>)"
      using rd(1) by (simp add: numeral_3_eq_3)
    show "parse_snapshot_header c = Inr (True, c\<lparr>input_buffer := ?rb\<lparr>read_index := read_index ?rb + of_nat ?k\<rparr>,
        rdb_expected_bytes := int n, rdb_received_bytes := 0, repl_client_state := REPL_STATE_RECEIVING_RDB_DATA\<rparr>)"
      using enough rd' val found by (simp add: parse_snapshot_header_def rb_readable_inv [OF inv] Let_def)
    show "drained ?rb ?k (?rb\<lparr>read_index := read_index ?rb + of_nat ?k\<rparr>)" using rd by (simp add: drained_def)
    show "contents (?rb\<lparr>read_index := read_index ?rb + of_nat ?k\<rparr>) = early"
      using rd(3) rest unfolding c by simp
  qed
qed

section \<open>Turns of the replica\<close>

text \<open>
  A turn of the event loop of a replica whose connection to the master, registered for output, is
  writable: the successive reads give the chunks \<open>cs\<close>, and then the socket has no more.
\<close>

definition master_turn :: "env \<Rightarrow> int \<Rightarrow> bytes list \<Rightarrow> (env \<times> event) list option \<times> bool" where
  "master_turn e i cs = (Some [(e, Client_Event i EPOLLOUT [] [] (map Received cs @ [Read_Blocked]) [])], False)"

text \<open>
  \<open>receiving cap early n xs w i\<close>: of a snapshot of \<open>n\<close> bytes, \<open>xs\<close> has been received after the header and
  counted, while \<open>early\<close> came with the header; as many bytes as counted have gone to the file.
\<close>

definition temp_path :: "server \<Rightarrow> string" where
  "temp_path s = rdb_path (cfg_dir s) temp_snapshot"

definition receiver :: "nat \<Rightarrow> bytes \<Rightarrow> nat \<Rightarrow> bytes \<Rightarrow> server \<Rightarrow> Client \<Rightarrow> bool" where
  "receiver cap early n xs s c \<longleftrightarrow>
     client_type c = CLIENT_TYPE_MASTER \<and> repl_client_state c = REPL_STATE_RECEIVING_RDB_DATA \<and> epoll_events c = EPOLLOUT \<and>
     tmp_rdb_fp c = Some (Open_File (temp_path s)) \<and> files s (temp_path s) = Some (take (length xs) (early @ xs)) \<and>
     rb_inv (input_buffer c) \<and> capacity (input_buffer c) = cap \<and> n \<le> index_budget (input_buffer c) + length xs \<and>
     contents (input_buffer c) = drop (length xs) (early @ xs) \<and>
     rdb_expected_bytes c = int n \<and> rdb_received_bytes c = int (length xs) \<and> rdb_written_bytes c = int (length xs)"

definition receiving :: "nat \<Rightarrow> bytes \<Rightarrow> nat \<Rightarrow> bytes \<Rightarrow> world \<Rightarrow> int \<Rightarrow> bool" where
  "receiving cap early n xs w i \<longleftrightarrow> (\<exists>p. conns w i = Some p \<and> receiver cap early n xs (globals w) (client (command_handler p)))"

lemma get_client_conn: "conns w i = Some p \<Longrightarrow> get_client w i = Inr (client (command_handler p))"
  by (simp add: get_client_def get_conn_def)

definition with_client :: "world \<Rightarrow> int \<Rightarrow> CommandHandler Parser \<Rightarrow> server \<Rightarrow> Client \<Rightarrow> world" where
  "with_client w i p s c = w\<lparr>globals := s, conns := (conns w)(i \<mapsto>
     p\<lparr>command_handler := (command_handler p)\<lparr>srv := s, client := c\<rparr>\<rparr>)\<rparr>"

lemma put_client_conn: "conns w i = Some p \<Longrightarrow> put_client (w\<lparr>globals := s\<rparr>) i c = Inr (with_client w i p s c)"
  by (simp add: put_client_def put_conn_def get_conn_def with_client_def)

lemma with_client_simps [simp]:
  "globals (with_client w i p s c) = s"
  "conns (with_client w i p s c) i = Some (p\<lparr>command_handler := (command_handler p)\<lparr>srv := s, client := c\<rparr>\<rparr>)"
  "with_client (with_client w i p s c) i (p\<lparr>command_handler := (command_handler p)\<lparr>srv := s, client := c\<rparr>\<rparr>) s' c' = with_client w i p s' c'"
  by (simp_all add: with_client_def)

lemma master_turn_event:
  assumes p: "conns w i = Some p" "client_type (client (command_handler p)) = CLIENT_TYPE_MASTER"
      "epoll_events (client (command_handler p)) = EPOLLOUT"
  shows "event_loop (master_turn e i cs # rounds) w =
    (case replica_handle_master_data e (map Received cs @ [Read_Blocked]) [] w i of
       None \<Rightarrow> None | Some (Inl err) \<Rightarrow> Some (Inl err) | Some (Inr w') \<Rightarrow> event_loop rounds w')"
proof -
  let ?ev = "Client_Event i EPOLLOUT [] [] (map Received cs @ [Read_Blocked]) []"
  have "epoll_wait w [(e, ?ev)] = [(e, ?ev)]"
    by (rule epoll_reports [OF p(1)]) (simp_all add: p(3) epoll_flags)
  moreover have "handle_event e ?ev w = replica_handle_master_data e (map Received cs @ [Read_Blocked]) [] w i"
    using p(2) by (simp add: handle_event_def input_event_def output_event_def epoll_flags get_client_conn [OF p(1)])
  ultimately show ?thesis by (simp add: master_turn_def split: option.split sum.split)
qed

lemma master_turn_run:
  assumes "receiving cap early n xs w i"
    and "replica_handle_master_data e (map Received cs @ [Read_Blocked]) [] w i = Some (Inr w')"
  shows "event_loop (master_turn e i cs # rounds) w = event_loop rounds w'"
  using assms master_turn_event [of w i] by (auto simp: receiving_def receiver_def)

lemma receive_snapshot_run:
  assumes p: "conns w i = Some p"
    and run: "replica_receive_rdb_snapshot e rs (client (command_handler p)) (globals w) = Some (Inr (c', s'))"
  shows "receive_snapshot e rs w i = Some (Inr (with_client w i p s' c'))"
  using run by (simp add: receive_snapshot_def get_client_conn [OF p] put_client_conn [OF p])

lemma put_with_client: "put_client ((with_client w i p s0 c0)\<lparr>globals := s\<rparr>) i c = Inr (with_client w i p s c)"
  by (simp add: put_client_conn [OF with_client_simps(2)])

text \<open>A turn that does not complete the snapshot.\<close>

lemma receive_turn:
  assumes w: "receiving cap early n xs w i"
    and cs: "\<forall>x \<in> set cs. x \<noteq> [] \<and> length early + length x \<le> cap" and less: "length xs + length (concat cs) < n"
  shows "\<exists>w'. (\<forall>rounds. event_loop (master_turn e i cs # rounds) w = event_loop rounds w') \<and>
    receiving cap early n (xs @ concat cs) w' i \<and> db (globals w') = db (globals w) \<and> cfg_dir (globals w') = cfg_dir (globals w)"
proof -
  from w obtain p where p: "conns w i = Some p" and rc: "receiver cap early n xs (globals w) (client (command_handler p))"
    by (auto simp: receiving_def)
  let ?c = "client (command_handler p)" and ?s = "globals w" and ?path = "temp_path (globals w)" and ?ys = "concat cs"
  have "length (contents (input_buffer ?c)) = length early" using rc by (simp add: receiver_def del: length_contents)
  then have small: "\<forall>x \<in> set cs. x \<noteq> [] \<and> length (contents (input_buffer ?c)) + length x \<le> capacity (input_buffer ?c)"
    using cs rc by (simp add: receiver_def del: length_contents)
  from receive_behind [of ?c ?path ?s "take (length xs) (early @ xs)" cs e "[Read_Blocked]" None, OF _ _ _ small] rc less obtain c' br where
    run: "receive_loop e (map Received cs @ [Read_Blocked]) None ?c ?s = receive_loop e [Read_Blocked] br c'
        (file_plus ?s ?path (take (length ?ys) (contents (input_buffer ?c) @ ?ys)))"
    and c': "rb_inv (input_buffer c')" "contents (input_buffer c') = drop (length ?ys) (contents (input_buffer ?c) @ ?ys)"
      "repl_client_state c' = repl_client_state ?c" "rdb_expected_bytes c' = rdb_expected_bytes ?c"
      "rdb_received_bytes c' = rdb_received_bytes ?c + int (length ?ys)" "rdb_written_bytes c' = rdb_written_bytes ?c + int (length ?ys)"
      "tmp_rdb_fp c' = tmp_rdb_fp ?c" "client_type c' = client_type ?c" "epoll_events c' = epoll_events ?c"
      "capacity (input_buffer c') = capacity (input_buffer ?c)"
      "index_budget (input_buffer c') + length ?ys = index_budget (input_buffer ?c)"
    by (auto simp: receiver_def simp del: length_contents length_concat)
  define s' where "s' = file_plus ?s ?path (take (length ?ys) (contents (input_buffer ?c) @ ?ys))"
  have tmp: "tmp_rdb_fp ?c = Some (Open_File ?path)" using rc by (simp add: receiver_def)
  have "rdb_received_bytes c' < rdb_expected_bytes c'" using c' rc less by (simp add: receiver_def del: length_concat)
  then have "receive_loop e [Read_Blocked] br c' s' = Some (Inr (c', s'))"
    by (subst receive_loop.simps) (simp add: rb_writable_inv [OF c'(1)])
  then have "replica_receive_rdb_snapshot e (map Received cs @ [Read_Blocked]) ?c ?s = Some (Inr (c', s'))"
    using run [folded s'_def] tmp by (simp add: replica_receive_rdb_snapshot_def)
  from receive_snapshot_run [OF p this] have "replica_handle_master_data e (map Received cs @ [Read_Blocked]) [] w i =
      Some (Inr (with_client w i p s' c'))"
    using rc by (simp add: replica_handle_master_data_def get_client_conn [OF p] receiver_def)
  then have turn: "event_loop (master_turn e i cs # rounds) w = event_loop rounds (with_client w i p s' c')" for rounds
    by (rule master_turn_run [OF w])
  have bytes: "drop (length xs) (early @ xs) @ ?ys = drop (length xs) (early @ xs @ ?ys)" by simp
  have "take (length xs) (early @ xs) @ take (length ?ys) (drop (length xs) (early @ xs @ ?ys)) = take (length (xs @ ?ys)) (early @ xs @ ?ys)"
    using take_add [of "length xs" "length ?ys" "early @ xs @ ?ys"] by simp
  then have "receiver cap early n (xs @ ?ys) s' c'"
    using rc c' unfolding s'_def by (simp add: receiver_def temp_path_def bytes drop_drop add.commute add.left_commute del: length_contents length_concat drop_append take_append)
  with turn show ?thesis by (intro exI [of _ "with_client w i p s' c'"]) (simp add: receiving_def s'_def)
qed

lemma receive_turns:
  assumes "receiving cap early n xs w i"
    and "\<forall>x \<in> set (concat cuts). x \<noteq> [] \<and> length early + length x \<le> cap" "length xs + length (concat (concat cuts)) < n"
  shows "\<exists>w'. (\<forall>rounds. event_loop (map (master_turn e i) cuts @ rounds) w = event_loop rounds w') \<and>
    receiving cap early n (xs @ concat (concat cuts)) w' i \<and> db (globals w') = db (globals w) \<and> cfg_dir (globals w') = cfg_dir (globals w)"
  using assms
proof (induction cuts arbitrary: xs w)
  case (Cons cs cuts)
  from receive_turn [OF Cons.prems(1), of cs e] Cons.prems(2,3) obtain w1 where
    w1: "\<forall>rounds. event_loop (master_turn e i cs # rounds) w = event_loop rounds w1" "receiving cap early n (xs @ concat cs) w1 i"
    "db (globals w1) = db (globals w)" "cfg_dir (globals w1) = cfg_dir (globals w)" by auto
  from Cons.IH [OF w1(2)] Cons.prems(2,3) obtain w2 where
    "\<forall>rounds. event_loop (map (master_turn e i) cuts @ rounds) w1 = event_loop rounds w2"
    "receiving cap early n ((xs @ concat cs) @ concat (concat cuts)) w2 i" "db (globals w2) = db (globals w1)"
    "cfg_dir (globals w2) = cfg_dir (globals w1)" by auto
  with w1 show ?case by (intro exI [of _ w2]) simp
qed auto

text \<open>The turn that completes it.\<close>

lemma receive_last_turn:
  assumes w: "receiving cap [] n xs w i" and cs: "\<forall>x \<in> set cs. x \<noteq> [] \<and> length x \<le> cap" "cs \<noteq> []"
    and n: "length (xs @ concat cs) = n" and ep: "epoll_ok e"
    and load: "\<forall>fs. fs (temp_path (globals w)) = Some (xs @ concat cs) \<longrightarrow>
      rdb_load_data_from_file fs (db (globals w)) (cfg_dir (globals w)) temp_snapshot = Inr (rc, d)"
  shows "\<exists>w' p. (\<forall>rounds. event_loop (master_turn e i cs # rounds) w = event_loop rounds w') \<and> conns w' i = Some p \<and>
    repl_client_state (client (command_handler p)) = REPL_STATE_READY \<and> db (globals w') = d"
proof -
  from w obtain p where p: "conns w i = Some p" and r: "receiver cap [] n xs (globals w) (client (command_handler p))"
    by (auto simp: receiving_def)
  let ?c = "client (command_handler p)" and ?s = "globals w" and ?path = "temp_path (globals w)"
  have "rdb_load_data_from_file (files (file_plus ?s ?path (concat cs))) (db ?s) (cfg_dir ?s) temp_snapshot = Inr (rc, d)"
    using load r by (simp add: receiver_def)
  with receive_chunks [of ?c ?path cs ?s rc d e "[Read_Blocked]" None] r cs n ep obtain c' where
    c': "receive_loop e (map Received cs @ [Read_Blocked]) None ?c ?s = Some (Inr (c', (file_plus ?s ?path (concat cs))\<lparr>db := d\<rparr>))"
      "repl_client_state c' = REPL_STATE_READY" by (auto simp: receiver_def)
  let ?s' = "(file_plus ?s ?path (concat cs))\<lparr>db := d\<rparr>"
  have "replica_receive_rdb_snapshot e (map Received cs @ [Read_Blocked]) ?c ?s = Some (Inr (c', ?s'))"
    using c'(1) r by (simp add: replica_receive_rdb_snapshot_def receiver_def)
  from receive_snapshot_run [OF p this] have "replica_handle_master_data e (map Received cs @ [Read_Blocked]) [] w i =
      Some (Inr (with_client w i p ?s' c'))"
    using r by (simp add: replica_handle_master_data_def get_client_conn [OF p] receiver_def)
  then have "event_loop (master_turn e i cs # rounds) w = event_loop rounds (with_client w i p ?s' c')" for rounds
    by (rule master_turn_run [OF w])
  with c'(2) show ?thesis by (intro exI [of _ "with_client w i p ?s' c'"]) simp
qed

text \<open>
  The first turn reads the header and opens the file before it receives: it does what it would do in a
  world where that has happened.
\<close>

lemma first_turn:
  assumes w: "announced cap early n w i" and n: "int n \<le> LONG_MAX" and os: "fopen_write_ok (file_os e)"
  obtains w1 where "receiving cap early n [] w1 i" "db (globals w1) = db (globals w)"
    "\<forall>cs rounds. event_loop (master_turn e i cs # rounds) w = event_loop (master_turn e i cs # rounds) w1"
proof -
  from w obtain p where p: "conns w i = Some p" and c: "client_type (client (command_handler p)) = CLIENT_TYPE_MASTER"
      "repl_client_state (client (command_handler p)) = REPL_STATE_RECEIVED_FULLRESYNC_RESPONSE"
      "epoll_events (client (command_handler p)) = EPOLLOUT" "tmp_rdb_fp (client (command_handler p)) = None"
      "rdb_written_bytes (client (command_handler p)) = 0" "rb_inv (input_buffer (client (command_handler p)))"
      "capacity (input_buffer (client (command_handler p))) = cap" "n \<le> index_budget (input_buffer (client (command_handler p)))"
      "contents (input_buffer (client (command_handler p))) = ''$'' @ show_int (int n) @ crlf @ early"
    unfolding announced_def Let_def by blast
  let ?c = "client (command_handler p)" and ?s = "globals w"
  from header_parsed [OF c(6,9) n] obtain rb where
    hdr: "parse_snapshot_header ?c = Inr (True, ?c\<lparr>input_buffer := rb, rdb_expected_bytes := int n,
      rdb_received_bytes := 0, repl_client_state := REPL_STATE_RECEIVING_RDB_DATA\<rparr>)"
    and rb: "drained (input_buffer ?c) (length (show_int (int n)) + 3) rb" "contents rb = early" by blast
  let ?c1 = "?c\<lparr>input_buffer := rb, rdb_expected_bytes := int n, rdb_received_bytes := 0,
      repl_client_state := REPL_STATE_RECEIVING_RDB_DATA\<rparr>"
  let ?c2 = "?c1\<lparr>tmp_rdb_fp := Some (Open_File (temp_path ?s))\<rparr>"
  let ?s2 = "?s\<lparr>files := (files ?s)(temp_path ?s \<mapsto> [])\<rparr>"
  let ?w1 = "with_client w i p ?s2 ?c2"
  have put: "put_client w i ?c1 = Inr (with_client w i p ?s ?c1)" using put_client_conn [OF p, of ?s ?c1] by simp
  have same: "replica_handle_master_data e rs [] w i = replica_handle_master_data e rs [] ?w1 i" for rs
    using c(2,4) hdr put os
    by (simp add: replica_handle_master_data_def receive_snapshot_def get_client_conn [OF p] get_client_conn [OF with_client_simps(2)]
        put_with_client replica_receive_rdb_snapshot_def Let_def temp_path_def [symmetric] split: option.split)
  show thesis
  proof (rule that [of ?w1])
    show "receiving cap early n [] ?w1 i"
      using c rb by (simp add: receiving_def receiver_def drained_def temp_path_def del: length_contents)
    show "\<forall>cs rounds. event_loop (master_turn e i cs # rounds) w = event_loop (master_turn e i cs # rounds) ?w1"
      using master_turn_event [OF p c(1,3)] master_turn_event [OF with_client_simps(2) [of w i p ?s2 ?c2]] c(1,3) same by simp
  qed simp_all
qed

text \<open>The whole snapshot, when nothing has come with the header.\<close>

lemma snapshot_received:
  assumes w: "announced cap [] (length bs) w i" "int (length bs) \<le> LONG_MAX"
    and cuts: "concat (concat cuts) = bs" "\<forall>x \<in> set (concat cuts). x \<noteq> [] \<and> length x \<le> cap" "last cuts \<noteq> []" "cuts \<noteq> []"
    and os: "fopen_write_ok (file_os e)" "epoll_ok e"
    and load: "\<forall>fs dir filename. fs (rdb_path dir filename) = Some bs \<longrightarrow>
       rdb_load_data_from_file fs (db (globals w)) dir filename = Inr (rc, d)"
  shows "\<exists>w' p. event_loop (map (master_turn e i) cuts) w = Some (Inr (False, w')) \<and> conns w' i = Some p \<and>
    repl_client_state (client (command_handler p)) = REPL_STATE_READY \<and> db (globals w') = d"
proof -
  let ?first = "butlast cuts" and ?last = "last cuts"
  have split: "cuts = ?first @ [?last]" using cuts(4) by simp
  have bs: "concat (concat ?first) @ concat ?last = bs"
    using cuts(1) split by (metis append.right_neutral concat.simps(1,2) concat_append)
  have small: "\<forall>x \<in> set (concat ?first). x \<noteq> [] \<and> length [] + length x \<le> cap" "\<forall>x \<in> set ?last. x \<noteq> [] \<and> length x \<le> cap"
    using cuts(2,4) by (auto dest: in_set_butlastD)
  then have "concat ?last \<noteq> []" using cuts(3) by (cases ?last) auto
  then have less: "length [] + length (concat (concat ?first)) < length bs" by (simp flip: bs del: length_concat)
  obtain w1 where w1: "receiving cap [] (length bs) [] w1 i" "db (globals w1) = db (globals w)"
    "\<forall>cs rounds. event_loop (master_turn e i cs # rounds) w = event_loop (master_turn e i cs # rounds) w1"
    by (rule first_turn [OF w os(1)])
  from receive_turns [OF w1(1) small(1) less, of e] obtain w2 where
    w2: "\<forall>rounds. event_loop (map (master_turn e i) ?first @ rounds) w1 = event_loop rounds w2"
      "receiving cap [] (length bs) (concat (concat ?first)) w2 i" "db (globals w2) = db (globals w1)" by auto
  have "\<forall>fs. fs (temp_path (globals w2)) = Some (concat (concat ?first) @ concat ?last) \<longrightarrow>
      rdb_load_data_from_file fs (db (globals w2)) (cfg_dir (globals w2)) temp_snapshot = Inr (rc, d)"
    using load unfolding bs temp_path_def w2(3) w1(2) by blast
  from receive_last_turn [OF w2(2) small(2) cuts(3) _ os(2) this] bs obtain w3 p where
    w3: "\<forall>rounds. event_loop (master_turn e i ?last # rounds) w2 = event_loop rounds w3" "conns w3 i = Some p"
      "repl_client_state (client (command_handler p)) = REPL_STATE_READY" "db (globals w3) = d" by auto
  have "event_loop (map (master_turn e i) cuts) w = event_loop (map (master_turn e i) cuts) w1"
    using w1(3) cuts(4) by (cases cuts) simp_all
  also have "\<dots> = event_loop (map (master_turn e i) ?first @ [master_turn e i ?last]) w1" using split by (metis list.simps(8,9) map_append)
  also have "\<dots> = Some (Inr (False, w3))" using w2(1) w3(1) by simp
  finally show ?thesis using w3 by blast
qed

section \<open>Properties\<close>

text \<open>
  C14 (safety): whatever the socket takes in each turn of the event loop, the bytes sent so far are the
  first bytes of the snapshot, in order and once each, and the master goes over to propagation only when
  all of them have been sent.
\<close>

theorem snapshot_sent_in_order:
  assumes "sending s bs c" "epoll_ok e" "master_repl_state c = MASTER_REPL_STATE_SENDING_RDB_DATA" "rdb_file_offset c = 0"
  shows "\<exists>sent c'. send_turns e rss s c = Inr (sent, c') \<and> rdb_file_offset c' = int (length sent) \<and>
    sent = take (length sent) bs \<and> (master_repl_state c' = MASTER_REPL_STATE_PROPAGATE \<longrightarrow> sent = bs)"
proof -
  from send_turns_ok [OF assms(1-3), of rss] assms(4) obtain sent c' where
    c': "send_turns e rss s c = Inr (sent, c')" "sending s bs c'" "0 \<le> rdb_file_offset c'"
    "sent = take (nat (rdb_file_offset c')) bs" by auto
  have off: "rdb_file_offset c' = int (length sent)" using c'(2-4) by (auto simp: sending_def min_def)
  show ?thesis
  proof (intro exI conjI impI)
    show "send_turns e rss s c = Inr (sent, c')" by (rule c'(1))
    show "rdb_file_offset c' = int (length sent)" by (rule off)
    then show prefix: "sent = take (length sent) bs" using c'(4) by (metis nat_int)
    show "sent = bs" if "master_repl_state c' = MASTER_REPL_STATE_PROPAGATE"
      using that c'(2,4) by (simp add: sending_def)
  qed
qed

text \<open>A replica to which a file of five bytes is being sent.\<close>

definition snapshot_server :: server where
  "snapshot_server = sample_server\<lparr>files := [''/tmp/dump.rdb'' \<mapsto> ''abcde''], open_files := [9 \<mapsto> ''/tmp/dump.rdb'']\<rparr>"

definition snapshot_client :: Client where
  "snapshot_client = sample_client\<lparr>client_type := CLIENT_TYPE_REPLICA, rdb_fd := 9, rdb_file_size := 5, rdb_file_offset := 0,
     master_repl_state := MASTER_REPL_STATE_SENDING_RDB_DATA\<rparr>"

lemma snapshot_sample:
  "sending snapshot_server ''abcde'' snapshot_client" "epoll_ok sample_env"
  "master_repl_state snapshot_client = MASTER_REPL_STATE_SENDING_RDB_DATA" "rdb_file_offset snapshot_client = 0"
  by (simp_all add: sending_def snapshot_server_def snapshot_client_def c_limits sample_env_def)

theorem snapshot_sent_in_order_witness:
  "\<exists>sent c'. send_turns sample_env [[Sent 2, Write_Blocked], [Write_Interrupted, Sent 1]] snapshot_server snapshot_client =
      Inr (sent, c') \<and> rdb_file_offset c' = int (length sent) \<and> sent = take (length sent) ''abcde''"
  using snapshot_sent_in_order [OF snapshot_sample] by blast

text \<open>
  C15 (liveness): when the socket takes at least a byte at the beginning of every turn, the snapshot is
  sent completely after at most one turn more than it has bytes.
\<close>

theorem snapshot_sending_completes:
  assumes "sending s bs c" "epoll_ok e" "master_repl_state c = MASTER_REPL_STATE_SENDING_RDB_DATA" "rdb_file_offset c = 0"
    and "\<forall>rs \<in> set rss. \<exists>k rs'. rs = Sent k # rs' \<and> 0 < k" "length bs < length rss"
  shows "\<exists>c'. send_turns e rss s c = Inr (bs, c') \<and> master_repl_state c' = MASTER_REPL_STATE_PROPAGATE"
  using assms by (rule send_all)

theorem snapshot_sending_completes_witness:
  "\<exists>c'. send_turns sample_env (replicate 6 [Sent 2, Write_Failed]) snapshot_server snapshot_client = Inr (''abcde'', c') \<and>
     master_repl_state c' = MASTER_REPL_STATE_PROPAGATE"
  by (rule snapshot_sending_completes [OF snapshot_sample]) (simp_all add: sample_env_def)

text \<open>
  C5 (refinement): a full resynchronisation hands the strings of the master's key space to the replica.
  The master, asked by \<open>PSYNC\<close> while it has less than \<open>MAX_REPLICAS\<close> replicas, saves its database, announces
  the snapshot and sends it; the replica, which has received the announcement and nothing after it,
  receives the snapshot in any number of turns of its event loop, each of any number of reads that end
  when the socket has no more, and is then ready, with the stored strings of the master added to its key
  space.  The key space is \<open>storable\<close> and has at most 255 keys, no read gives more bytes than the input
  buffer holds, and the system calls succeed.
\<close>

theorem replica_resynchronised:
  assumes master: "db_rep p (the_db ch) m" "storable m" "card (dom m) \<le> 255"
    and psync: "args ch = [''PSYNC'', ''?'', ''-1'']" "length (replicas (srv ch)) < MAX_REPLICAS"
    and bs: "rdb_file (the_db ch) = Inr bs" "int (length bs) \<le> LONG_MAX"
    and os: "mkdir_ok (file_os e)" "fopen_write_ok (file_os e)" "epoll_ok e"
    and room: "sink_ready (output_buffer (client ch)) (Suc (length (resync_header (srv ch) bs)))"
    and turns: "\<forall>rs \<in> set rss. \<exists>k rs'. rs = Sent k # rs' \<and> 0 < k" "length bs < length rss"
    and replica: "announced cap [] (length bs) w i" "db_rep q (db (globals w)) m0" "q + card (dom m) \<le> store_cap"
    and cuts: "concat (concat cuts) = bs" "\<forall>x \<in> set (concat cuts). x \<noteq> [] \<and> length x \<le> cap" "last cuts \<noteq> []"
    and os': "fopen_write_ok (file_os e')" "epoll_ok e'"
  shows "\<exists>ch' c1 w' p'. handle_psync e ch = Inr ch' \<and>
    contents (output_buffer (client ch')) = contents (output_buffer (client ch)) @ resync_header (srv ch) bs \<and>
    send_turns e rss (srv ch') (client ch') = Inr (bs, c1) \<and> master_repl_state c1 = MASTER_REPL_STATE_PROPAGATE \<and>
    event_loop (map (master_turn e' i) cuts) w = Some (Inr (False, w')) \<and> conns w' i = Some p' \<and>
    repl_client_state (client (command_handler p')) = REPL_STATE_READY \<and>
    db_rep (q + card (dom m)) (db (globals w')) (m0 ++ reloaded m)"
proof -
  have full: "3 \<le> length (args ch)" "\<not> partial_resync_ok (srv ch) (args ch ! 1) (args ch ! 2)"
    using psync(1) by (simp_all add: partial_resync_ok_def split: prod.split)
  obtain ch' where ch': "handle_psync e ch = Inr ch'" "sending (srv ch') bs (client ch')"
    "master_repl_state (client ch') = MASTER_REPL_STATE_SENDING_RDB_DATA" "rdb_file_offset (client ch') = 0"
    "appends (output_buffer (client ch)) (resync_header (srv ch) bs) (output_buffer (client ch'))"
    by (rule psync_full [OF full psync(2) bs os room])
  from send_all [OF ch'(2) os(3) ch'(3,4) turns] obtain c1 where
    c1: "send_turns e rss (srv ch') (client ch') = Inr (bs, c1)" "master_repl_state c1 = MASTER_REPL_STATE_PROPAGATE" by blast
  obtain bs' d where d: "rdb_file (the_db ch) = Inr bs'"
    "\<forall>fs dir filename. fs (rdb_path dir filename) = Some bs' \<longrightarrow>
       rdb_load_data_from_file fs (db (globals w)) dir filename = Inr (if card (list_keys m) \<le> 1 then 0 else 1, d)"
    "db_rep (q + card (dom m)) d (m0 ++ reloaded m)" by (rule load_written [OF master replica(2,3)])
  have "bs \<noteq> []" using bs(1) by (auto simp: rdb_file_def rbind_eq_Inr_iff)
  then have "cuts \<noteq> []" using cuts(1) by auto
  moreover have "\<forall>fs dir filename. fs (rdb_path dir filename) = Some bs \<longrightarrow>
      rdb_load_data_from_file fs (db (globals w)) dir filename = Inr (if card (list_keys m) \<le> 1 then 0 else 1, d)"
    using d(1,2) bs(1) by simp
  ultimately obtain w' p' where
    "event_loop (map (master_turn e' i) cuts) w = Some (Inr (False, w'))" "conns w' i = Some p'"
    "repl_client_state (client (command_handler p')) = REPL_STATE_READY" "db (globals w') = d"
    using snapshot_received [OF replica(1) bs(2) cuts _ os'] by blast
  with ch'(1,5) c1 d(3) show ?thesis by (auto simp: appends_def)
qed

text \<open>A replica to which a snapshot has been announced.\<close>

lemma announced_sample:
  assumes "int n \<le> LONG_MAX" "length early \<le> 200"
  obtains w where "announced 256 early n w 7" "globals w = sample_server"
proof -
  let ?bs = "''$'' @ show_int (int n) @ crlf @ early" and ?rb = "sample_buffer 256"
  have "length (''$'' @ show_int (int n) @ crlf) < 30"
    using length_show_nat [of n 19] assms(1) by (simp add: show_int_def c_limits)
  then have fit: "length ?bs \<le> 256" using assms(2) by simp
  have "fits ?rb (length ?bs)" using fit unfolding fits_def by (simp add: sample_buffer_facts del: length_contents)
  from rb_commit_at_end [OF sample_buffer_facts(1) this, of "length ?bs"] obtain rb where rb: "appends ?rb ?bs rb" by auto
  have rb': "rb_inv rb" "contents rb = ?bs" "capacity rb = 256" "index_budget rb + length ?bs = 2 ^ 64 - 1"
    using rb fit by (simp_all add: appends_def sample_buffer_facts del: length_contents)
  then have "n \<le> index_budget rb" using fit assms(1) by (simp add: c_limits)
  let ?c = "sample_client\<lparr>client_type := CLIENT_TYPE_MASTER, repl_client_state := REPL_STATE_RECEIVED_FULLRESYNC_RESPONSE,
    epoll_events := EPOLLOUT, input_buffer := rb\<rparr>"
  let ?w = "\<lparr>globals = sample_server, conns = [7 \<mapsto> parser_init (sample_handler\<lparr>client := ?c\<rparr>)], wire = (\<lambda>_. []), released = []\<rparr>"
  have "announced 256 early n ?w 7"
    using rb' \<open>n \<le> index_budget rb\<close> by (simp add: announced_def parser_init_def sample_client_def del: length_contents)
  then show thesis by (rule that) simp
qed

theorem replica_resynchronised_witness:
  "\<exists>ch bs w ch' c1 w' p'. db_rep 1 (the_db ch) [''k'' \<mapsto> (AStr ''v'', 10)] \<and> handle_psync sample_env ch = Inr ch' \<and>
    send_turns sample_env (replicate (Suc (length bs)) [Sent 7]) (srv ch') (client ch') = Inr (bs, c1) \<and>
    announced 256 [] (length bs) w 7 \<and>
    event_loop (map (master_turn sample_env 7) [[], [take 3 bs], [take 1 (drop 3 bs), drop 4 bs]]) w = Some (Inr (False, w')) \<and>
    conns w' 7 = Some p' \<and> repl_client_state (client (command_handler p')) = REPL_STATE_READY \<and>
    db_rep 1 (db (globals w')) [''k'' \<mapsto> (AStr ''v'', 10)]"
proof -
  let ?m = "[''k'' \<mapsto> (AStr ''v'', 10)] :: keyspace"
  have empty: "db_rep 0 (db sample_server) Map.empty" by (rule db_create_rep) (simp add: redis_db_create_def sample_server_def)
  from db_set_ok [OF empty, of "Str ''v''" "AStr ''v''" "''k''" 10] obtain d where d: "db_rep 1 d ?m" by (auto simp: store_cap_def)
  define ch where "ch = sample_handler\<lparr>srv := sample_server\<lparr>db := d\<rparr>, args := [''PSYNC'', ''?'', ''-1'']\<rparr>"
  define bs where "bs = ''REDIS0012'' @ [byte_of 0xFA, byte_of 0xFE, byte_of 0xFB,
    byte_of (uint (key_count d)), byte_of (uint (expiry_count d))] @ entry_bytes ''k'' ''v'' 10 @ [byte_of 0xFF]"
  have canon: "rdb_canonical ''k'' = ''k''" "rdb_canonical ''v'' = ''v''" "length (entry_bytes ''k'' ''v'' 10) = 14" by code_simp+
  then have stor: "storable ?m" and len: "length bs = 29"
    by (auto simp: storable_def rdb_plain_def rdb_readable_def length_bytes_ok_def nul_free_def c_limits bs_def)
  obtain w where w: "announced 256 [] (length bs) w 7" "globals w = sample_server"
    by (rule announced_sample [of "length bs" "[]"]) (simp_all add: len c_limits)
  have num: "show_int (int 29) = ''29''" "cstr (snprintf 80 (''FULLRESYNC '' @ ''id'' @ '' '' @ show_int 0)) = ''FULLRESYNC id 0''" by code_simp+
  have hdr: "length (resync_header (srv ch) bs) = 23"
    using num by (simp add: resync_header_def len ch_def sample_server_def)
  have room: "sink_ready (output_buffer (client ch)) (Suc (length (resync_header (srv ch) bs)))"
    unfolding hdr by (simp add: ch_def sink_ready_def fits_def sample_buffer_facts del: length_contents)
  have image: "rdb_file (the_db ch) = Inr bs" using rdb_file_single [OF d] by (simp add: ch_def bs_def)
  have empty': "db_rep 0 (db (globals w)) Map.empty" using empty w(2) by simp
  have pieces: "take 3 bs @ take 1 (drop 3 bs) @ drop 4 bs = bs" 
    using append_take_drop_id [of 3 bs] append_take_drop_id [of 1 "drop 3 bs"] by simp
  have "\<exists>ch' c1 w' p'. handle_psync sample_env ch = Inr ch' \<and>
    contents (output_buffer (client ch')) = contents (output_buffer (client ch)) @ resync_header (srv ch) bs \<and>
    send_turns sample_env (replicate (Suc (length bs)) [Sent 7]) (srv ch') (client ch') = Inr (bs, c1) \<and>
    master_repl_state c1 = MASTER_REPL_STATE_PROPAGATE \<and>
    event_loop (map (master_turn sample_env 7) [[], [take 3 bs], [take 1 (drop 3 bs), drop 4 bs]]) w = Some (Inr (False, w')) \<and>
    conns w' 7 = Some p' \<and> repl_client_state (client (command_handler p')) = REPL_STATE_READY \<and>
    db_rep (0 + card (dom ?m)) (db (globals w')) (Map.empty ++ reloaded ?m)"
    by (rule replica_resynchronised [OF _ stor _ _ _ image _ _ _ _ room _ _ w(1) empty'])
      (use d len pieces in \<open>auto simp: ch_def c_limits sample_env_def store_cap_def MAX_REPLICAS_def sample_server_def\<close>)
  moreover have "Map.empty ++ reloaded ?m = ?m" "0 + card (dom ?m) = 1" using canon(2) by (auto simp: reloaded_def fun_eq_iff)
  moreover have "db_rep 1 (the_db ch) ?m" using d by (simp add: ch_def)
  ultimately show ?thesis using w(1) by metis
qed

text \<open>
  C34 (error): when the first bytes of the snapshot arrive together with its announcement, the transfer
  does not complete.  The header is parsed and these bytes, already in the input buffer, are not counted: after all the
  other bytes of the snapshot have come, in any number of turns of the event loop, the replica is still
  receiving, waits for as many bytes again as came early, and its database has not been loaded.
\<close>

theorem early_bytes_stall_transfer:
  assumes w: "announced cap early (length early + length rest) w i" "early \<noteq> []" "int (length early + length rest) \<le> LONG_MAX"
    and cuts: "cuts \<noteq> []" "concat (concat cuts) = rest" "\<forall>x \<in> set (concat cuts). x \<noteq> [] \<and> length early + length x \<le> cap"
    and os: "fopen_write_ok (file_os e)"
  shows "\<exists>w' p. event_loop (map (master_turn e i) cuts) w = Some (Inr (False, w')) \<and> conns w' i = Some p \<and>
    (let c = client (command_handler p) in
       repl_client_state c = REPL_STATE_RECEIVING_RDB_DATA \<and> rdb_expected_bytes c - rdb_received_bytes c = int (length early) \<and>
       contents (input_buffer c) = drop (length rest) (early @ rest)) \<and>
    db (globals w') = db (globals w)"
proof -
  let ?n = "length early + length rest"
  obtain w1 where w1: "receiving cap early ?n [] w1 i" "db (globals w1) = db (globals w)"
    "\<forall>cs rounds. event_loop (master_turn e i cs # rounds) w = event_loop (master_turn e i cs # rounds) w1"
    by (rule first_turn [OF w(1,3) os])
  have "0 < length early" using w(2) by simp
  then have "length [] + length (concat (concat cuts)) < ?n" unfolding cuts(2) by (simp del: length_greater_0_conv)
  from receive_turns [OF w1(1) cuts(3) this, of e] cuts(2) obtain w2 where
    w2: "\<forall>rounds. event_loop (map (master_turn e i) cuts @ rounds) w1 = event_loop rounds w2" "receiving cap early ?n rest w2 i"
    "db (globals w2) = db (globals w1)" by auto
  have "event_loop (map (master_turn e i) cuts) w = event_loop (map (master_turn e i) cuts) w1" using w1(3) cuts(1) by (cases cuts) simp_all
  also have "\<dots> = Some (Inr (False, w2))" using w2(1) [THEN spec, of "[]"] by simp
  finally show ?thesis using w2(2,3) w1(2) by (auto simp: receiving_def receiver_def)
qed

theorem early_bytes_stall_transfer_witness:
  "\<exists>w w' p. announced 256 ''RE'' 29 w 7 \<and>
    event_loop (map (master_turn sample_env 7) [[replicate 20 (CHR ''x'')], [], [replicate 7 (CHR ''y'')]]) w = Some (Inr (False, w')) \<and>
    conns w' 7 = Some p \<and> repl_client_state (client (command_handler p)) = REPL_STATE_RECEIVING_RDB_DATA \<and>
    contents (input_buffer (client (command_handler p))) = ''yy''"
proof -
  let ?rest = "replicate 20 (CHR ''x'') @ replicate 7 (CHR ''y'')"
  have n: "length ''RE'' + length ?rest = 29" by simp
  obtain w where w: "announced 256 ''RE'' 29 w 7"
    by (rule announced_sample [of 29 "''RE''"]) (simp_all add: c_limits)
  have "drop (length ?rest) (''RE'' @ ?rest) = ''yy''" by code_simp
  with early_bytes_stall_transfer [of 256 "''RE''" ?rest w 7 "[[replicate 20 (CHR ''x'')], [], [replicate 7 (CHR ''y'')]]" sample_env, unfolded n, OF w]
  show ?thesis using w by (auto simp: c_limits sample_env_def Let_def)
qed

section \<open>Registration of replicas\<close>

text \<open>
  C35 (bounds): a \<open>PSYNC\<close> with its arguments is answered by appending the client to the list of replicas,
  also when it is there already, as long as the array has a free place; when it is full, the code, which
  does not test for it, writes past its end.  It is assumed that the reply fits into the output buffer, and
  that the database can be saved.
\<close>

theorem psync_registers:
  assumes n: "3 \<le> length (args ch)" and bs: "rdb_file (the_db ch) = Inr bs" "int (length bs) \<le> LONG_MAX"
    and os: "mkdir_ok (file_os e)" "fopen_write_ok (file_os e)" "epoll_ok e"
    and room: "sink_ready (output_buffer (client ch)) (Suc (length (resync_header (srv ch) bs)))"
  shows "if length (replicas (srv ch)) < MAX_REPLICAS
    then \<exists>ch'. handle_psync e ch = Inr ch' \<and> replicas (srv ch') = replicas (srv ch) @ [fd (client ch)] \<and>
      client_type (client ch') = CLIENT_TYPE_REPLICA \<and> \<not> should_reply (client ch')
    else handle_psync e ch = Inl Out_Of_Bounds"
proof (cases "length (replicas (srv ch)) < MAX_REPLICAS")
  case True
  show ?thesis
  proof (cases "partial_resync_ok (srv ch) (args ch ! 1) (args ch ! 2)")
    case partial: True
    have "sink_ready (output_buffer (client ch)) (Suc (length (encode_reply (Simple_Reply ''CONTINUE''))))"
      by (rule sink.ready_mono [OF room]) (use continue_fits in simp)
    from psync_partial [OF n partial True this os(3)] True show ?thesis by simp
  next
    case False
    from psync_full [OF n False True bs os room] obtain ch' where "handle_psync e ch = Inr ch'"
      "replicas (srv ch') = replicas (srv ch) @ [fd (client ch)]" "client_type (client ch') = CLIENT_TYPE_REPLICA"
      "\<not> should_reply (client ch')" by metis
    with True show ?thesis by simp
  qed
next
  case False
  with n show ?thesis by (simp add: handle_psync_def add_replica_def Let_def)
qed

theorem psync_registers_witness:
  "(\<exists>ch'. handle_psync sample_env (sample_handler\<lparr>args := [''PSYNC'', ''?'', ''-1''], srv := sample_server\<lparr>replicas := [7, 8]\<rparr>\<rparr>) = Inr ch' \<and>
     replicas (srv ch') = [7, 8, 7]) \<and>
   handle_psync sample_env (sample_handler\<lparr>args := [''PSYNC'', ''?'', ''-1''], srv := sample_server\<lparr>replicas := replicate 16 8\<rparr>\<rparr>) =
     Inl Out_Of_Bounds"
proof -
  let ?bs = "''REDIS0012'' @ [byte_of 0xFA, byte_of 0xFE, byte_of 0xFB, byte_of 0, byte_of 0, byte_of 0xFF]"
  let ?ch = "\<lambda>rs. sample_handler\<lparr>args := [''PSYNC'', ''?'', ''-1''], srv := sample_server\<lparr>replicas := rs\<rparr>\<rparr>"
  have image: "rdb_file (the_db (?ch rs)) = Inr ?bs" for rs
    by (simp add: sample_server_def rdb_file_def kh_slots_def kh_init_def)
  have num: "show_int (int (length ?bs)) = ''15''" "cstr (snprintf 80 (''FULLRESYNC '' @ ''id'' @ '' '' @ show_int 0)) = ''FULLRESYNC id 0''"
    by code_simp+
  have hdr: "length (resync_header (srv (?ch rs)) ?bs) = 23" for rs
    unfolding resync_header_def num(1) using num(2) by (simp add: sample_server_def)
  have room: "sink_ready (output_buffer (client (?ch rs))) (Suc (length (resync_header (srv (?ch rs)) ?bs)))" for rs
    unfolding hdr by (simp add: sink_ready_def fits_def sample_buffer_facts del: length_contents)
  note reg = psync_registers [OF _ image _ _ _ _ room, of _ sample_env]
  show ?thesis using reg [of "[7, 8]"] reg [of "replicate 16 8"]
    by (auto simp: c_limits sample_env_def MAX_REPLICAS_def sample_client_def)
qed

end
