(* ===== verification/Client_Facts.thy ===== *)
theory Client_Facts
  imports Serving "HOL-Library.Multiset"
begin

text \<open>
  Properties of the connections of \<^verbatim>\<open>client.c\<close>: output is sent in order, a disconnection gives back what
  the connection owned, and the propagation of a command keeps the window of the replication backlog.
\<close>

section \<open>Output\<close>

text \<open>
  C16 (safety): whatever the results of \<^verbatim>\<open>write\<close> are, \<open>flush_client_output\<close> returns; the bytes it has handed
  to the kernel are the first bytes of the output buffer, the buffer keeps exactly the others, and the
  result is the number of bytes sent or -1.
\<close>

theorem flush_sends_prefix:
  assumes inv: "rb_inv (output_buffer c)"
  shows "\<exists>rc sent c' ws'. flush_client_output ws c = Inr (rc, sent, c', ws') \<and>
    sent @ contents (output_buffer c') = contents (output_buffer c) \<and> rb_inv (output_buffer c') \<and>
    (rc = int (length sent) \<or> rc = -1) \<and> c' = c\<lparr>output_buffer := output_buffer c'\<rparr>"
  using flush_loop_ok [OF inv, of ws "[]"] by (auto simp: flush_client_output_def)

theorem flush_sends_prefix_witness:
  "\<exists>rc sent c' ws'. flush_client_output [Sent 1, Write_Interrupted, Write_Failed] (sample_client\<lparr>output_buffer := rb_example\<rparr>) =
      Inr (rc, sent, c', ws') \<and> sent @ contents (output_buffer c') = ''ab''"
  using flush_sends_prefix [of "sample_client\<lparr>output_buffer := rb_example\<rparr>" "[Sent 1, Write_Interrupted, Write_Failed]"]
  by (auto simp: rb_example_facts)

section \<open>Disconnection\<close>

lemma takeWhile_found:
  "i \<in> set xs \<Longrightarrow> length (takeWhile (\<lambda>r. r \<noteq> i) xs) < length xs \<and> xs ! length (takeWhile (\<lambda>r. r \<noteq> i) xs) = i"
  by (induction xs) auto

lemma swap_remove:
  assumes "i \<in> set xs"
  shows "mset (butlast (xs[length (takeWhile (\<lambda>r. r \<noteq> i) xs) := xs ! (length xs - 1)])) = mset xs - {#i#}"
proof -
  let ?k = "length (takeWhile (\<lambda>r. r \<noteq> i) xs)"
  have k: "?k < length xs" and nth: "xs ! ?k = i" using takeWhile_found [OF assms] by auto
  have ne: "xs \<noteq> []" using k by auto
  let ?ys = "xs[?k := xs ! (length xs - 1)]"
  have "last ?ys = last xs" using ne k by (auto simp: last_conv_nth nth_list_update)
  then have "mset (butlast ?ys) = mset ?ys - {#last xs#}"
    using ne by (metis append_butlast_last_id add_diff_cancel_right' list_update_nonempty mset.simps(1,2) mset_append)
  also have "mset ?ys = mset xs - {#i#} + {#last xs#}" using k nth ne by (simp add: mset_update last_conv_nth)
  finally show ?thesis by simp
qed

lemma remove_replica_mset:
  assumes "i \<in> set (replicas s)"
  shows "\<exists>rs. remove_replica i s = Inr (s\<lparr>replicas := rs\<rparr>) \<and> mset rs = mset (replicas s) - {#i#}"
proof -
  have "length (takeWhile (\<lambda>r. r \<noteq> i) (replicas s)) \<noteq> length (replicas s)"
    using takeWhile_found [OF assms] by auto
  then have "remove_replica i s = Inr (s\<lparr>replicas :=
      butlast ((replicas s)[length (takeWhile (\<lambda>r. r \<noteq> i) (replicas s)) := replicas s ! (length (replicas s) - 1)])\<rparr>)"
    by (simp add: remove_replica_def Let_def)
  with swap_remove [OF assms] show ?thesis by blast
qed

text \<open>
  C12 (safety): a disconnection removes the connection and no other, takes a replica out of the list of
  replicas once, and gives back the socket, the descriptors, mappings and blocks of both buffers, the
  command handler with its three arrays, the parser and the client, each exactly once and nothing else.
  In particular the snapshot file that a master has opened for a replica stays open (\<^verbatim>\<open>rdb_fd\<close> is not
  closed), and so does a temporary file that is still open (\<^verbatim>\<open>tmp_rdb_fp\<close>): they leak.
\<close>

theorem disconnection_releases:
  assumes conn: "conns w i = Some p" and c: "c = client (command_handler p)" "fd c = i"
    and inv: "rb_inv (input_buffer c)" "rb_inv (output_buffer c)"
    and listed: "client_type c = CLIENT_TYPE_REPLICA \<Longrightarrow> i \<in> set (replicas (globals w))"
  shows "\<exists>w'. handle_client_disconnection w i = Inr w' \<and> conns w' = (conns w)(i := None) \<and>
    mset (replicas (globals w')) =
      (if client_type c = CLIENT_TYPE_REPLICA then mset (replicas (globals w)) - {#i#} else mset (replicas (globals w))) \<and>
    open_files (globals w') = open_files (globals w) \<and>
    released w' = released w @
      [System (Close i),
       System (Close (rb_fd (input_buffer c))), System (Munmap (2 * rb_size (input_buffer c))), System Free_rb,
       System (Close (rb_fd (output_buffer c))), System (Munmap (2 * rb_size (output_buffer c))), System Free_rb,
       Args_Block, Buf_Block, Ends_Block, CommandHandler_Block, Parser_Block, Client_Block]"
proof -
  have open_rb: "snd (rb_destroy (Some rb)) = [Close (rb_fd rb), Munmap (2 * rb_size rb), Free_rb]" if "rb_inv rb" for rb
    using that by (auto simp: rb_destroy_def rb_inv_def assert_state_def mult.commute)
  show ?thesis
    using conn c inv listed remove_replica_mset [of i "globals w"]
    by (auto simp: handle_client_disconnection_def get_conn_def destroy_client_def Let_def open_rb
        destroy_command_handler_def destroy_parser_def)
qed

text \<open>A world with a regular client on descriptor 7 and a replica on descriptor 8.\<close>

definition sample_world :: world where
  "sample_world = \<lparr>globals = sample_server\<lparr>replicas := [8]\<rparr>,
     conns = [7 \<mapsto> parser_init sample_handler,
       8 \<mapsto> parser_init (sample_handler\<lparr>client := sample_client\<lparr>fd := 8, client_type := CLIENT_TYPE_REPLICA\<rparr>\<rparr>)],
     wire = (\<lambda>_. []), released = []\<rparr>"

theorem disconnection_releases_witness:
  "\<exists>w'. handle_client_disconnection (sample_world\<lparr>globals := (globals sample_world)\<lparr>open_files := [0 \<mapsto> ''/tmp/dump.rdb'']\<rparr>\<rparr>) 8 = Inr w' \<and>
     conns w' 8 = None \<and> replicas (globals w') = [] \<and> System (Close 8) \<in> set (released w') \<and>
     open_files (globals w') 0 = Some ''/tmp/dump.rdb''"
proof -
  let ?p = "parser_init (sample_handler\<lparr>client := sample_client\<lparr>fd := 8, client_type := CLIENT_TYPE_REPLICA\<rparr>\<rparr>)"
  let ?w = "sample_world\<lparr>globals := (globals sample_world)\<lparr>open_files := [0 \<mapsto> ''/tmp/dump.rdb'']\<rparr>\<rparr>"
  have p: "conns ?w 8 = Some ?p" by (simp add: sample_world_def)
  from disconnection_releases [OF p refl] show ?thesis
    by (auto simp: sample_world_def parser_init_def sample_client_def sample_buffer_facts)
qed

section \<open>The replication backlog\<close>

definition backlog_window :: "server \<Rightarrow> bool" where
  \<comment> \<open>The backlog holds the stream from the base offset up to the offset of the master.\<close>
  "backlog_window s \<longleftrightarrow> rb_inv (repl_backlog s) \<and>
     repl_backlog_base_offset s + int (length (contents (repl_backlog s))) = master_repl_offset s"

text \<open>
  C11 (invariant): the propagation of a command of at most 40 bytes advances the offset of the master by
  its bytes, feeds every replica, and keeps the window that a partial resynchronisation relies on: the
  base offset and the number of bytes in the backlog add up to the offset of the master, also when old
  bytes are overwritten.  The bytes appended to the backlog are the first ones of the
  \<^verbatim>\<open>ring_buffer_struct\<close> of the input buffer (\<open>struct_bytes\<close>), not those of the command, and for a longer
  command the copy reads past the 40 bytes of that structure.
\<close>

theorem backlog_window_kept:
  assumes spread: "can_propagate e w i bs" and window: "backlog_window (globals w)"
  shows "if length bs \<le> sizeof_ring_buffer_struct
    then \<exists>w'. propagate e i bs w = Inr w' \<and> backlog_window (globals w') \<and>
      master_repl_offset (globals w') = master_repl_offset (globals w) + int (length bs) \<and>
      contents (repl_backlog (globals w')) =
        drop (length (contents (repl_backlog (globals w))) + length bs - capacity (repl_backlog (globals w)))
          (contents (repl_backlog (globals w))) @ take (length bs) (struct_bytes e) \<and>
      (\<forall>r \<in> set (replicas (globals w)). fed w bs w' r)
    else propagate e i bs w = Inl Out_Of_Bounds"
proof (cases "length bs \<le> sizeof_ring_buffer_struct")
  case short: True
  let ?s = "globals w"
  let ?k = "length bs - unat (writable_len (repl_backlog ?s))"
  have inv: "rb_inv (repl_backlog ?s)" using window by (simp add: backlog_window_def)
  have k: "?k = length (contents (repl_backlog ?s)) + length bs - capacity (repl_backlog ?s)"
    using writable_len_room [OF inv] contents_bounded [OF inv] by linarith
  have len: "length (take (length bs) (struct_bytes e)) = length bs" using spread short by (simp add: can_propagate_def Let_def)
  have "length bs \<le> capacity (repl_backlog ?s)" using spread by (simp add: can_propagate_def Let_def)
  then have "?k \<le> length (contents (repl_backlog ?s))" using k by linarith
  moreover obtain w' rb where w': "propagate e i bs w = Inr w'"
    "globals w' = ?s\<lparr>master_repl_offset := master_repl_offset ?s + int (length bs), repl_backlog := rb,
       repl_backlog_base_offset := repl_backlog_base_offset ?s + int ?k\<rparr>"
    "rb_inv rb" "contents rb = drop ?k (contents (repl_backlog ?s)) @ take (length bs) (struct_bytes e)"
    "\<forall>r \<in> set (replicas ?s). fed w bs w' r"
    using propagate_ok [of w bs e i] spread short by (auto simp: can_propagate_def Let_def sink_ready_def)
  ultimately show ?thesis
    using window len short by (auto simp: backlog_window_def k simp del: length_contents length_take)
next
  case False
  let ?s = "(globals w)\<lparr>master_repl_offset := master_repl_offset (globals w) + int (length bs)\<rparr>"
  have "append_backlog e (length bs) ?s = Inl Out_Of_Bounds"
    by (rule append_backlog_overread) (use spread window False in \<open>simp_all add: can_propagate_def Let_def backlog_window_def\<close>)
  moreover have "long_arith (master_repl_offset (globals w) + int (length bs)) = Inr (master_repl_offset (globals w) + int (length bs))"
    using spread by (simp add: can_propagate_def Let_def long_arith_def c_limits)
  ultimately show ?thesis using False by (simp add: propagate_def)
qed

lemma sample_propagates: "length bs \<le> 256 \<Longrightarrow> can_propagate sample_env sample_world 7 bs"
  by (simp add: can_propagate_def sample_world_def has_room_def sink_ready_def fits_def sample_buffer_facts Let_def
      sample_env_def sample_server_def MAX_REPLICAS_def c_limits parser_init_def sample_client_def sizeof_ring_buffer_struct_def
      del: length_contents)

theorem backlog_window_kept_witness:
  "(\<exists>w'. propagate sample_env 7 ''SET'' sample_world = Inr w' \<and> backlog_window (globals w') \<and>
     contents (repl_backlog (globals w')) = ''???'') \<and>
   propagate sample_env 7 (replicate 41 (CHR ''x'')) sample_world = Inl Out_Of_Bounds"
proof -
  have start: "backlog_window (globals sample_world)" "contents (repl_backlog (globals sample_world)) = []"
    by (simp_all add: backlog_window_def sample_world_def sample_server_def sample_buffer_facts del: length_contents)
  have "take (length ''SET'') (struct_bytes sample_env) = ''???''" by (simp add: sample_env_def numeral_eq_Suc)
  with backlog_window_kept [OF sample_propagates start(1), of "''SET''"] start(2)
    backlog_window_kept [OF sample_propagates start(1), of "replicate 41 (CHR ''x'')"]
  show ?thesis by (auto simp: sizeof_ring_buffer_struct_def)
qed

end
