(* ===== verification/Server_Facts.thy ===== *)
theory Server_Facts
  imports Server
begin

text \<open>
  Properties of the command line and of the dispatch of events in \<^verbatim>\<open>redis-server.c\<close>.
\<close>

section \<open>The command line\<close>

text \<open>
  The settings that the options of a command line make, from left to right.  A path is cut to what its
  array holds; an argument that is no option is skipped.
\<close>

datatype setting =
    Dir string
  | Dbfilename string
  | Port string
  | Replicaof string string
  | Ignored string

fun setting_args :: "setting \<Rightarrow> string list" where
  "setting_args (Dir d) = [''--dir'', d]"
| "setting_args (Dbfilename f) = [''--dbfilename'', f]"
| "setting_args (Port p) = [''--port'', p]"
| "setting_args (Replicaof h p) = [''--replicaof'', h, p]"
| "setting_args (Ignored a) = [a]"

fun setting_ok :: "setting \<Rightarrow> bool" where
  "setting_ok (Dir d) = nul_free d"
| "setting_ok (Dbfilename f) = nul_free f"
| "setting_ok (Port p) = (length p \<le> 5)"
| "setting_ok (Replicaof h p) = (length h \<le> 127 \<and> length p \<le> 5)"
| "setting_ok (Ignored a) = (a \<notin> {''--dir'', ''--dbfilename'', ''--port'', ''--replicaof''})"

fun apply_setting :: "setting \<Rightarrow> server \<times> int \<Rightarrow> server \<times> int" where
  "apply_setting (Dir d) (s, port) = (s\<lparr>cfg_dir := take 255 d\<rparr>, port)"
| "apply_setting (Dbfilename f) (s, port) = (s\<lparr>cfg_dbfilename := take 255 f\<rparr>, port)"
| "apply_setting (Port p) (s, port) = (s\<lparr>cfg_port := p\<rparr>, atoi p)"
| "apply_setting (Replicaof h p) (s, port) = (s\<lparr>role := ROLE_SLAVE, cfg_master_host := h, cfg_master_port := p\<rparr>, port)"
| "apply_setting (Ignored a) (s, port) = (s, port)"

lemma path_kept: "nul_free d \<Longrightarrow> cstr (snprintf MAX_PATH_LENGTH d) = take 255 d"
  by (auto simp: snprintf_def MAX_PATH_LENGTH_def nul_free_def dest: in_set_takeD intro!: cstr_nul_free)

lemma parse_setting:
  "setting_ok opt \<Longrightarrow> parse_args (setting_args opt @ rest) s port = case_prod (parse_args rest) (apply_setting opt (s, port))"
  by (cases opt) (simp_all add: parse_args.simps [of "_ # _"] path_kept strcpy_into_def)

lemma parse_settings:
  "\<forall>opt \<in> set opts. setting_ok opt \<Longrightarrow>
   parse_args (concat (map setting_args opts) @ rest) s port = case_prod (parse_args rest) (fold apply_setting opts (s, port))"
proof (induction opts arbitrary: s port)
  case (Cons opt opts)
  obtain s' port' where "apply_setting opt (s, port) = (s', port')" by (rule prod.exhaust)
  with Cons parse_setting [of opt "concat (map setting_args opts) @ rest" s port] show ?case by simp
qed simp

text \<open>
  C31 (functional): the options of the command line are applied from left to right, a later one overriding
  an earlier one, the paths cut to 255 characters; unknown arguments change nothing.
\<close>

theorem command_line_applied:
  assumes "\<forall>opt \<in> set opts. setting_ok opt"
  shows "parse_args (concat (map setting_args opts)) s port = Inr (fold apply_setting opts (s, port))"
  using parse_settings [OF assms, of "[]"] by (simp add: parse_args.simps split: prod.split)

theorem command_line_applied_witness:
  "\<forall>fs d. parse_args [''--port'', ''7000'', ''-v'', ''--replicaof'', ''localhost'', ''6379''] (initial_server fs d) DEFAULT_PORT =
     Inr ((initial_server fs d)\<lparr>cfg_port := ''7000'', role := ROLE_SLAVE, cfg_master_host := ''localhost'',
       cfg_master_port := ''6379''\<rparr>, 7000)"
proof (intro allI)
  fix fs d
  have num: "atoi ''7000'' = 7000" by code_simp
  have ok: "\<forall>opt \<in> set [Port ''7000'', Ignored ''-v'', Replicaof ''localhost'' ''6379'']. setting_ok opt" by simp
  show "parse_args [''--port'', ''7000'', ''-v'', ''--replicaof'', ''localhost'', ''6379''] (initial_server fs d) DEFAULT_PORT =
     Inr ((initial_server fs d)\<lparr>cfg_port := ''7000'', role := ROLE_SLAVE, cfg_master_host := ''localhost'',
       cfg_master_port := ''6379''\<rparr>, 7000)"
    using command_line_applied [OF ok, of "initial_server fs d" DEFAULT_PORT] by (simp add: num)
qed

text \<open>
  C37 (bounds): the values of \<^verbatim>\<open>--port\<close> and \<^verbatim>\<open>--replicaof\<close> are copied without a bound: wherever the
  option stands, a port of more than 5 characters, or a host of more than 127, is written past its array.
\<close>

theorem long_option_overflows:
  assumes before: "\<forall>opt \<in> set opts. setting_ok opt"
    and long: "v = ''--port'' # p # rest \<and> 5 < length p \<or> v = ''--replicaof'' # h # p # rest \<and> 127 < length h"
  shows "parse_args (concat (map setting_args opts) @ v) s port = Inl Out_Of_Bounds"
  using long parse_settings [OF before, of v s port]
  by (auto simp: parse_args.simps [of "_ # _"] strcpy_into_def split: prod.splits)

theorem long_option_overflows_witness:
  "parse_args [''--dir'', ''/tmp'', ''--port'', ''123456''] (initial_server (\<lambda>_. None) \<lparr>dbh = kh_init, key_count = 0, expiry_count = 0\<rparr>) 6379 =
     Inl Out_Of_Bounds"
  using long_option_overflows [of "[Dir ''/tmp'']" "[''--port'', ''123456'']" "''123456''" "[]"] by simp

section \<open>Events\<close>

text \<open>
  C36 (error): an event that reports only a hang-up or an error of a connection changes nothing; the branch
  that would disconnect the client is never taken, because the test before it,
  \<^verbatim>\<open>events & EPOLLIN | EPOLLOUT\<close>, holds for every event.
\<close>

theorem hang_up_ignored:
  assumes "events AND EPOLLIN = 0" "events AND EPOLLOUT = 0"
  shows "handle_event e (Client_Event i events rs ws rs' ws') w = Some (Inr w)"
proof -
  have "(events AND EPOLLIN) OR EPOLLOUT \<noteq> 0" using assms(1) by (simp add: EPOLLOUT_def)
  with assms show ?thesis by (simp add: handle_event_def input_event_def output_event_def)
qed

theorem hang_up_ignored_witness:
  "\<forall>e i w. handle_event e (Client_Event i (EPOLLHUP OR EPOLLERR) [Received []] [] [] []) w = Some (Inr w)"
proof -
  have "(EPOLLHUP OR EPOLLERR) AND EPOLLIN = 0" "(EPOLLHUP OR EPOLLERR) AND EPOLLOUT = 0"
    by (simp_all add: EPOLLHUP_def EPOLLERR_def EPOLLIN_def EPOLLOUT_def)
  then show ?thesis using hang_up_ignored by blast
qed

end
