(* ===== verification/Request_Facts.thy ===== *)
theory Request_Facts
  imports Parser_Safety Command_Spec Sessions
begin

text \<open>
  Further properties of the parser and of the commands: the states on the parser's stack stay well-typed,
  a bulk string that is split between two reads is misread, and values are read at the wrong type.
\<close>

section \<open>The parser\<close>

interpretation any_handler: callback_invariant g "\<lambda>_. True" for g :: "'ch Handler"
  by unfold_locales simp_all

text \<open>
  C18 (type): whatever bytes are parsed and whatever the handler does with them, every state on the stack of
  the parser keeps the parse function and the end callback of its type, the stack stays within its depth,
  and its bottom stays the terminal state.
\<close>

theorem parser_states_typed:
  assumes "parser_parse g stop m fin p pos = Some (Inr (pos', p'))" "stack_ok p"
  shows "stack p' \<noteq> [] \<and> length (stack p') \<le> MAX_STACK_DEPTH \<and>
    state_type (last (stack p')) = STATE_INITIAL_TERMINAL \<and> (\<forall>s \<in> set (stack p'). state_ok s)"
  using any_handler.parser_parse_ok [OF assms(1)] assms(2) by (simp add: any_handler.ok_def stack_ok_def)

theorem parser_states_typed_witness:
  "\<exists>pos' p'. parser_parse (create_handler sample_env) awaiting_snapshot [] 0 (parser_init sample_handler) 0 = Some (Inr (pos', p')) \<and>
     (\<forall>s \<in> set (stack p'). state_ok s)"
proof -
  have run: "parser_parse (create_handler sample_env) awaiting_snapshot [] 0 (parser_init sample_handler) 0 =
      Some (Inr (0, parser_init sample_handler))"
    by (subst parser_parse.simps)
      (simp add: awaiting_snapshot_def parser_init_def parse_step.simps parse_initial_def state_info_def)
  show ?thesis using parser_states_typed [OF run stack_ok_init] run by blast
qed

lemma bulk_incomplete:
  assumes h: "holds m pos a" and a: "a \<noteq> []" "length a < n" "int n \<le> INT_MAX" and ch: "\<not> stop ch" "chars g ch a = Inr ch'"
  shows "parser_parse g stop m (pos + length a) (parser_at ch (bulk_state (int n) # st)) pos =
    Some (Inr (pos + length a, parser_at ch' (bulk_state (int n) # st)))"
proof (rule parser_done)
  have min: "min_int (int n) (int (length a)) = int (length a)"
    using a by (simp add: min_int_def int_of_long_def c_limits signed_take_bit_int_eq_self_iff)
  have "chars_of g m pos (int pos + int (length a)) (parser_at ch (bulk_state (int n) # st)) =
      Inr (parser_at ch' (bulk_state (int n) # st))"
    using chars_of_holds [OF h, of g] ch(2) by (simp add: call_def)
  then show "parse_step g m (pos + length a) (parser_at ch (bulk_state (int n) # st)) pos =
      Inr (False, pos + length a, parser_at ch' (bulk_state (int n) # st))"
    using a min by (simp add: parse_step.simps parse_bulk_string_def state_info_def nat_add_distrib Let_def)
qed (use ch(1) in simp)

text \<open>
  C33 (error): a bulk string that two reads deliver in parts is misread.  After the first part the parser
  still expects the full length; when the second part has brought the rest and its \<^verbatim>\<open>\r\n\<close>, both are
  passed on as content and the parser goes on waiting, so the command is not executed.
\<close>

theorem split_bulk_string_misread:
  assumes first: "holds m pos a" "2 < length a" "chars g ch a = Inr ch1"
    and second: "holds m' pos' (b @ crlf)" "b \<noteq> []" "chars g ch1 (b @ crlf) = Inr ch2"
    and n: "n = length (a @ b)" "int n \<le> INT_MAX" and stop: "\<not> stop ch" "\<not> stop ch1"
  shows "parser_parse g stop m (pos + length a) (parser_at ch (bulk_state (int n) # st)) pos =
      Some (Inr (pos + length a, parser_at ch1 (bulk_state (int n) # st))) \<and>
    parser_parse g stop m' (pos' + length (b @ crlf)) (parser_at ch1 (bulk_state (int n) # st)) pos' =
      Some (Inr (pos' + length (b @ crlf), parser_at ch2 (bulk_state (int n) # st)))"
proof -
  have "a \<noteq> []" using first(2) by auto
  then show ?thesis
    using bulk_incomplete [of m pos a n stop ch g ch1 st] bulk_incomplete [of m' pos' "b @ crlf" n stop ch1 g ch2 st] assms
    by auto
qed

theorem split_bulk_string_misread_witness:
  "\<exists>ch1 ch2. parser_parse (create_handler sample_env) awaiting_snapshot ''hel'' 3 (parser_at sample_handler [bulk_state 5, init_state]) 0 =
      Some (Inr (3, parser_at ch1 [bulk_state 5, init_state])) \<and>
    parser_parse (create_handler sample_env) awaiting_snapshot (''lo'' @ crlf) 4 (parser_at ch1 [bulk_state 5, init_state]) 0 =
      Some (Inr (4, parser_at ch2 [bulk_state 5, init_state])) \<and> buf ch2 = ''hello'' @ crlf"
proof -
  let ?g = "create_handler sample_env"
  have ch: "chars ?g sample_handler ''hel'' = Inr (sample_handler\<lparr>buf := ''hel''\<rparr>)"
    "chars ?g (sample_handler\<lparr>buf := ''hel''\<rparr>) (''lo'' @ crlf) = Inr (sample_handler\<lparr>buf := ''hello'' @ crlf\<rparr>)"
    by (simp_all add: create_handler_def chars_handler_def sample_handler_def)
  have h: "holds ''hel'' 0 ''hel''" "holds (''lo'' @ crlf) 0 (''lo'' @ crlf)" by (simp_all add: holds_def)
  have "(5 :: nat) = length (''hel'' @ ''lo'')" by simp
  from split_bulk_string_misread [OF h(1) _ ch(1) h(2) _ ch(2) this, of awaiting_snapshot "[init_state]"] show ?thesis
    by (intro exI [of _ "sample_handler\<lparr>buf := ''hel''\<rparr>"] exI [of _ "sample_handler\<lparr>buf := ''hello'' @ crlf\<rparr>"])
      (simp add: awaiting_snapshot_def c_limits eval_nat_numeral)
qed

section \<open>Commands on values of the wrong type\<close>

text \<open>
  C32 (type): on a key that holds a live list, \<open>INCR\<close>, \<open>DECR\<close> and \<open>SET ... GET\<close> take the pointer to the list for
  the pointer to a string: the type tag of the value is not consulted.
\<close>

theorem list_read_as_string:
  assumes rep: "db_rep p (the_db ch) m" and key: "m k = Some (AList xs, ex)" "\<not> expired (now e) (AList xs, ex)"
  shows "(args ch = [c, k] \<longrightarrow> handle_incr e ch = Inl Type_Confusion \<and> handle_decr e ch = Inl Type_Confusion) \<and>
    (args ch = [c, k, v, ''GET''] \<longrightarrow> handle_set e ch = Inl Type_Confusion)"
proof -
  have "purge (now e) k m k = Some (AList xs, ex)" using key by (simp add: purge_def)
  with db_get_ok [OF rep, of "now e" k] obtain r d where
    get: "redis_db_get (now e) (the_db ch) k = Inr (Some r, d)" "val_rep r (AList xs, ex)" by (auto simp: option_rel_Some2)
  then have "data_str r = Inl Type_Confusion" by (cases "rdata r") (auto simp: data_str_def val_rep_def)
  with get(1) show ?thesis
    by (simp add: handle_incr_def handle_decr_def handle_incr_decr_def handle_set_def no_options_def ERR_SYNTAX_def ERR_VALUE_def)
qed

theorem list_read_as_string_witness:
  "\<exists>d. redis_db_rpush 0 0 (the_db sample_handler) ''l'' ''a'' 0 = Inr (0, 1, d) \<and>
    handle_incr sample_env (sample_handler\<lparr>srv := sample_server\<lparr>db := d\<rparr>, args := [''INCR'', ''l'']\<rparr>) = Inl Type_Confusion"
proof -
  have "db_rep 0 (the_db sample_handler) Map.empty" using sample_represents by (simp add: represents_def)
  from db_rpush_ok [OF this, of 0 0 "''l''" "''a''" 0] obtain d where
    d: "redis_db_rpush 0 0 (the_db sample_handler) ''l'' ''a'' 0 = Inr (0, 1, d)"
      "db_rep 1 (the_db (sample_handler\<lparr>srv := sample_server\<lparr>db := d\<rparr>, args := [''INCR'', ''l'']\<rparr>)) [''l'' \<mapsto> (AList [''a''], 0)]"
    by (auto simp: store_cap_def push_keyspace_def purge_def int_of_size_def Let_def)
  from list_read_as_string [OF d(2), of "''l''" "[''a'']" 0 sample_env] d(1) show ?thesis by (auto simp: expired_def)
qed

end
