(* ===== verification/Spec2Isabelle.thy ===== *)
theory Spec2Isabelle
  imports Handshake Snapshots Resync Client_Facts Server_Facts Request_Facts
begin

text \<open>
  Verification of redis\_lite, a single-threaded key-value server in C that speaks the Redis protocol.

  \<^bold>\<open>The program.\<close>  A client's bytes arrive in its input ring buffer (\<^verbatim>\<open>ring_buffer.c\<close>); the event loop
  (\<^verbatim>\<open>redis-server.c\<close>) hands the connection to \<^verbatim>\<open>process_client_input\<close> (\<^verbatim>\<open>client.c\<close>), which runs the parser
  (\<^verbatim>\<open>resp.c\<close>).  The parser is a stack machine that calls a table of handlers; the handlers of
  \<^verbatim>\<open>command_handler.c\<close> collect the arguments and dispatch to the commands (\<^verbatim>\<open>commands.c\<close>), which work on the
  database (\<^verbatim>\<open>database.c\<close>), a hash table (\<^verbatim>\<open>khash.h\<close>) of strings and linked lists (\<^verbatim>\<open>linked_list.c\<close>), and write
  their replies into the output ring buffer.  The database is saved to and loaded from snapshot files
  (\<^verbatim>\<open>rdb.c\<close>).  Write commands are propagated to replicas and to a backlog, and \<^verbatim>\<open>replication.c\<close> implements the
  handshake, the transfer of a snapshot and the partial resynchronisation.

  \<^bold>\<open>The model.\<close>  Every C function is a HOL function with the state it changes as argument and result.  A
  result is \<open>fault + 'a\<close>: undefined behaviour, a failed assertion and a call of \<^verbatim>\<open>exit\<close> are faults.  Machine
  integers are words where the code relies on their width (ring buffer indices, hash codes, flag words,
  event masks) and otherwise integers with the conversions written out; signed overflow is a fault.  What the
  system does (allocations, the results of \<^verbatim>\<open>read\<close>, \<^verbatim>\<open>write\<close>, \<^verbatim>\<open>sendfile\<close>, \<^verbatim>\<open>mmap\<close>, \<^verbatim>\<open>fcntl\<close>, \<^verbatim>\<open>epoll\<close>, the clock) is an argument,
  so every theorem holds for every behaviour that it does not exclude by a hypothesis.  A round of the event
  loop gets the candidate events as an argument and handles those that \<open>epoll_wait\<close> reports, which are the
  ones that the connections are registered for.  Where the code reads or writes outside an object without
  testing for it (a full array of replicas, the copy of more than the 40 bytes of the \<^verbatim>\<open>ring_buffer_struct\<close> to the
  backlog, a temporary file that was closed), the model has a fault.  A theorem about runs without a fault says
  nothing of what follows such an access.

  \<^item> \<open>Prelude\<close>, \<open>C_Library\<close>: the result type and its bind, C strings, \<^verbatim>\<open>strtol\<close>, \<^verbatim>\<open>snprintf\<close>, decimal rendering.
  \<^item> \<open>Ring_Buffer\<close> (\<^verbatim>\<open>ring_buffer.c\<close>): the doubly mapped buffer.  It refines a bounded queue of bytes, refuses
    what does not fit, and its 64-bit indices never wrap silently.
  \<^item> \<open>Linked_List\<close> (\<^verbatim>\<open>linked_list.c\<close>): nodes in an explicit store; the pushes refine a sequence, \<open>lrange\<close> selects
    its slice, \<open>destroy_list\<close> frees every node once.
  \<^item> \<open>Util\<close> (\<^verbatim>\<open>util.c\<close>): number parsing, paths, non-blocking mode.
  \<^item> \<open>Khash\<close> (\<^verbatim>\<open>khash.h\<close>) with \<open>Khash_Probe\<close>, \<open>Khash_Rehash\<close>, \<open>Khash_Map\<close>, \<open>Khash_Update\<close>, \<open>String_Table\<close>: the
    triangular probing covers the table, the in-place rehash keeps the entries, and the table refines
    a finite map; the interface that the database uses is a locale interpreted on the table.
  \<^item> \<open>Database\<close>, \<open>Keyspace\<close> (\<^verbatim>\<open>database.c\<close>): the database refines an abstract key space with lazy expiry.
  \<^item> \<open>Rdb\<close>, \<open>Snapshots\<close> (\<^verbatim>\<open>rdb.c\<close>): writing and reading of snapshot files and their round trip.
  \<^item> \<open>Resp_Writer\<close>, \<open>Resp_Parser\<close>, \<open>Resp_Requests\<close>, \<open>Parser_Safety\<close> (\<^verbatim>\<open>resp.c\<close>): the reply writers append the protocol
    encoding; the parser turns an encoded request into the calls of its handlers (a locale over the handlers),
    and keeps its stack well-formed for every input.
  \<^item> \<open>Server_State\<close>, \<open>Commands\<close>, \<open>Command_Handler\<close> (\<^verbatim>\<open>commands.c\<close>, \<^verbatim>\<open>command_handler.c\<close>): the shared records, every
    command and every handler.  \<open>Command_Spec\<close> and \<open>Sessions\<close> specify commands and pipelines on the abstract
    key space and show that the code computes them; \<open>Command_Safety\<close> shows that every command keeps the
    invariant of a connection; \<open>Request_Facts\<close> holds further properties of both.
  \<^item> \<open>Connections\<close>, \<open>Serving\<close>, \<open>Client_Facts\<close> (\<^verbatim>\<open>client.c\<close>): connections in a world of globals, connections, bytes sent
    and resources given back; a round of input, propagation, output and disconnection.  Of the files of a connection
    it is shown that a disconnection leaves them open.
  \<^item> \<open>Replication\<close>, \<open>Resync\<close>, \<open>Handshake\<close> (\<^verbatim>\<open>replication.c\<close>): both sides of replication; the handshake up to the
    announcement of the snapshot, and the full resynchronisation from there, from the master's key space to the
    replica's, both through the event loop of the replica; what stalls a transfer; the registration of replicas.
  \<^item> \<open>Server\<close>, \<open>Server_Facts\<close>, \<open>World_Safety\<close>, \<open>Startup\<close> (\<^verbatim>\<open>redis-server.c\<close>, \<^verbatim>\<open>main.c\<close>): the command line, the
    start, the event loop as a function of the events and as a step relation, the shutdown and their composition
    in \<open>main\<close>; the invariant of every reachable world and of the settings; a server whose system calls succeed.
  \<^item> This theory: the properties from the start of the server to the replies on a socket.

  \<^bold>\<open>Loops.\<close>  Loops over data are structural recursions or have a termination proof; the lists of system call
  results bound the loops that wait for the system.  Three loops can run forever in C and are partial functions
  with the value \<open>None\<close> for it: the driver of the parser (a negative array length), the loop that receives a
  snapshot, and the walk along a list that frees it; for the inputs of the theorems they are shown to return.
  The probing, insertion and eviction loops of the hash table carry a fuel taken from the number of buckets,
  and running out of it is a fault: the theorems of \<open>String_Table\<close> show that it is enough.  The fuel of the
  snapshot reader (\<open>read_sections\<close>) is the length of the file plus one, and every section consumes a byte.

  \<^bold>\<open>Not modelled.\<close>  Output to the terminal and to \<^verbatim>\<open>stderr\<close>; addresses and socket options (their failures are);
  the instantiations and iterators of \<^verbatim>\<open>khash.h\<close> that the program does not use.  Idealised: the clock stands still during one event; \<^verbatim>\<open>fwrite\<close> and
  \<^verbatim>\<open>strdup\<close> succeed where the code does not test them; descriptors stand for the pointers to their clients, so
  a descriptor that the kernel reuses within one round of events is a new connection.
\<close>

section \<open>The server\<close>

text \<open>
  C2 (invariant): whatever the clients send, whatever the system calls return and in whatever order the
  events come, every world that the server reaches without a fault is well-formed.  No step changes the
  settings of the command line (directory, file, ports, master, role and replication id).  The backlog was never
  created or is a sound ring buffer, and every connection has the descriptor it is stored under, two sound
  buffers, and a parser stack within its depth whose bottom is the terminal state.  There are at most
  \<open>MAX_REPLICAS\<close> replicas, and argument arrays are within their capacities, as long as no write
  has gone past these arrays: the code does not test for it (\<open>add_replica\<close>, \<open>chars_handler\<close>, \<open>end_bulk_string_handler\<close>),
  and such a write, which corrupts the memory, is a fault after which nothing is claimed.
\<close>

theorem reachable_world_ok:
  assumes "reachable w"
  shows "(\<forall>w'. server_step w w' \<longrightarrow> settings (globals w') = settings (globals w)) \<and>
    length (replicas (globals w)) \<le> MAX_REPLICAS \<and>
    (region (repl_backlog (globals w)) = None \<or> rb_inv (repl_backlog (globals w))) \<and>
    (\<forall>i p. conns w i = Some p \<longrightarrow>
      stack_ok p \<and> fd (client (command_handler p)) = i \<and> rb_inv (input_buffer (client (command_handler p))) \<and>
      rb_inv (output_buffer (client (command_handler p))) \<and> arrays_ok (command_handler p))"
  using reachable_ok [OF assms] server_step_keeps [OF _ reachable_ok [OF assms]]
  by (auto simp: world_ok_def server_ok_def conn_ok_def client_ok_def rb_sound_def)

lemma sample_reachable: "\<exists>w p. reachable w \<and> conns w 7 = Some p"
proof -
  from start_works [OF sample_works(1)] obtain w where w: "start_server sample_env sample_boot_os (\<lambda>_. None) [] = Inr (w, 6379)"
    by blast
  from accept_works [OF sample_works(2), of 7 sample_env w] obtain ch where
    "handle_event sample_env (New_Connection 7 sample_client_os) w = Some (Inr (put_conn w 7 (parser_init ch)))"
    by (auto simp: handle_event_def sample_env_def)
  then have "reachable (put_conn w 7 (parser_init ch))" by (intro reachable.more [OF reachable.start [OF w]] server_step.step)
  then show ?thesis by (auto simp: put_conn_def intro!: exI [of _ "put_conn w 7 (parser_init ch)"])
qed

theorem reachable_world_ok_witness:
  "\<exists>w p. reachable w \<and> conns w 7 = Some p \<and> stack_ok p \<and> rb_inv (input_buffer (client (command_handler p)))"
  using sample_reachable reachable_world_ok by blast

text \<open>
  C1 (functional): from the start of the server to the first replies.  A master that has started accepts a
  connection; the requests that the first input event delivers are answered on the socket as the abstract
  session specifies from an empty key space, and the database follows it.  Requests and replies are
  bounded by the 64 KiB of the buffers; when the last request is a \<open>SET\<close>, which is propagated, the requests
  are together not longer than the 40 bytes that the copy to the backlog can read (C11).
\<close>

theorem first_client_answered:
  assumes run: "start_server e0 bos fs argv = Inr (w, port)" "role (globals w) = ROLE_MASTER"
      "rb_works (backlog_os bos) REPL_BACKLOG_SIZE"
    and os: "client_works os" and i: "i \<noteq> -1"
    and e: "epoll_ok e" "alloc e sizeof_CommandHandler" "alloc e 256" "alloc e 80"
    and e': "epoll_ok e'" "allocates e' n" "n < 2 ^ 31" "\<forall>r \<in> set reqs. request_fits n r"
      "length (struct_bytes e') = sizeof_ring_buffer_struct" "is_set_request (last reqs) \<longrightarrow> length bs \<le> sizeof_ring_buffer_struct"
    and reqs: "reqs \<noteq> []" "bs = concat (map encode_request reqs)" "length bs < 65536" "length (concat reqs) \<le> store_cap"
    and spec: "session_spec (now e') (globals w) Map.empty reqs = Some (rs, m')"
    and k: "length (concat (map encode_reply rs)) < 65536" "length (concat (map encode_reply rs)) \<le> k"
  shows "\<exists>w'. event_loop [(Some [(e, New_Connection i os)], False),
        (Some [(e', Client_Event i EPOLLIN [Received bs] [Sent k] rs' ws')], False)] w = Some (Inr (False, w')) \<and>
      wire w' i = concat (map encode_reply rs) \<and> represents (length (concat reqs)) (db (globals w')) m'"
  by (rule first_requests [OF start_master [OF run] os i e e' reqs spec k])

theorem first_client_answered_witness:
  "\<exists>w w'. start_server sample_env sample_boot_os (\<lambda>_. None) [] = Inr (w, 6379) \<and>
     event_loop [(Some [(sample_env, New_Connection 7 sample_client_os)], False),
        (Some [(sample_env, Client_Event 7 EPOLLIN [Received (encode_request [''SET'', ''k'', ''v''] @ encode_request [''GET'', ''k''])]
           [Sent 100] [] [])], False)] w = Some (Inr (False, w')) \<and>
     wire w' 7 = ''+OK'' @ crlf @ ''$1'' @ crlf @ ''v'' @ crlf"
proof -
  let ?reqs = "[[''SET'', ''k'', ''v''], [''GET'', ''k'']]" and ?rs = "[Simple_Reply ''OK'', Bulk_Reply ''v'']"
  let ?bs = "encode_request [''SET'', ''k'', ''v''] @ encode_request [''GET'', ''k'']"
  from start_works [OF sample_works(1)] obtain w where w: "start_server sample_env sample_boot_os (\<lambda>_. None) [] = Inr (w, 6379)"
    "role (globals w) = ROLE_MASTER" by blast
  have spec: "session_spec (now sample_env) (globals w) Map.empty ?reqs = Some (?rs, [''k'' \<mapsto> (AStr ''v'', 0)])"
    by (simp add: cstr_def get_command_type_def command_spec_def set_spec_def get_spec_def no_options_def purge_def expired_def
        ERR_SYNTAX_def ERR_VALUE_def)
  have enc: "concat (map encode_reply ?rs) = ''+OK'' @ crlf @ ''$1'' @ crlf @ ''v'' @ crlf" by code_simp
  have len: "length ?bs = 47" "length (concat (map encode_reply ?rs)) = 12" by code_simp+
  have backlog: "rb_works (backlog_os sample_boot_os) REPL_BACKLOG_SIZE" using sample_works(1) by (simp add: boot_works_def)
  have "\<exists>w'. event_loop [(Some [(sample_env, New_Connection 7 sample_client_os)], False),
      (Some [(sample_env, Client_Event 7 EPOLLIN [Received ?bs] [Sent 100] [] [])], False)] w = Some (Inr (False, w')) \<and>
    wire w' 7 = concat (map encode_reply ?rs) \<and>
    represents (length (concat ?reqs)) (db (globals w')) [''k'' \<mapsto> (AStr ''v'', 0)]"
    by (rule first_client_answered [where n = 20, OF w backlog sample_works(2) _ _ _ _ _ _ _ _ _ _ _ _ _ _ _ spec])
      (unfold len, simp_all add: sample_env_def allocates_def request_fits_def store_cap_def sizeof_ring_buffer_struct_def
        is_set_request_def get_command_type_def cstr_def)
  then show ?thesis using w(1) unfolding enc by blast
qed

text \<open>
  C17 (error): what the program saves when it is stopped, its next run does not load.  A server that was
  started without options and that a signal stops, with a \<open>storable\<close> key space of at most 255 keys, exits with
  success: it writes a snapshot from which the strings can be read back, closes the \<^verbatim>\<open>epoll\<close> and the listening
  descriptor and frees every key once.  The server that is started again without options on the files it
  left has an empty key space, because only a replica loads the snapshot.
\<close>

theorem restart_forgets:
  assumes start: "start_server e bos fs [] = Inr (w0, port)" and loop: "event_loop rounds w0 = Some (Inr (True, w))"
    and db: "db_rep p (db (globals w)) m" "storable m" "card (dom m) \<le> 255"
    and os: "mkdir_ok (file_os e')" "fopen_write_ok (file_os e')" and boot: "boot_works bos" "boot_works bos'"
  shows "\<exists>fs' freed rc d w'. main e e' bos fs [] rounds = Some (Inr (Exited 0 True fs' freed)) \<and>
    (\<forall>k. count_list freed (Db_Memory (Key_Block k)) = (if k \<in> dom m then 1 else 0)) \<and>
    {System (Close (epoll_fd bos)), System (Close (listen_fd bos))} \<subseteq> set freed \<and>
    start_server e'' bos' fs' [] = Inr (w', 6379) \<and> db_rep 0 (db (globals w')) Map.empty \<and>
    rdb_load_data_from_file (files (globals w')) (db (globals w')) (cfg_dir (globals w')) (cfg_dbfilename (globals w')) = Inr (rc, d) \<and>
    db_rep (card (dom m)) d (reloaded m)"
proof -
  let ?path = "rdb_path ''/tmp/redis-data'' ''dump.rdb''"
  from start_works [OF boot(1), of e fs] start
  have "cfg_dir (globals w0) = ''/tmp/redis-data''" "cfg_dbfilename (globals w0) = ''dump.rdb''" by auto
  with event_loop_settings [OF start loop]
  have dflt: "cfg_dir (globals w) = ''/tmp/redis-data''" "cfg_dbfilename (globals w) = ''dump.rdb''" by (simp_all add: settings_def)
  have cap: "0 + card (dom m) \<le> store_cap" using db(3) by (simp add: store_cap_def)
  have fresh: "\<exists>w'. start_server e'' bos' fs' [] = Inr (w', 6379) \<and> files (globals w') = fs' \<and> db_rep 0 (db (globals w')) Map.empty \<and>
      cfg_dir (globals w') = ''/tmp/redis-data'' \<and> cfg_dbfilename (globals w') = ''dump.rdb''" for fs'
    using start_works [OF boot(2), of e'' fs'] start_master boot(2) by (fastforce simp: started_def represents_def boot_works_def)
  obtain bs where bs: "rdb_file (db (globals w)) = Inr bs" using fresh load_written [OF db _ cap] by metis
  let ?fs = "(files (globals w))(?path \<mapsto> bs)"
  from shutdown_ok [OF db(1) bs os, of "epoll_fd bos" "listen_fd bos"] obtain freed where
    freed: "shutdown e' (epoll_fd bos) (listen_fd bos) w = Inr (True, ?fs, freed)"
    "\<forall>k. count_list freed (Db_Memory (Key_Block k)) = (if k \<in> dom m then 1 else 0)"
    "{System (Close (epoll_fd bos)), System (Close (listen_fd bos))} \<subseteq> set freed" by (auto simp: dflt)
  have run: "main e e' bos fs [] rounds = Some (Inr (Exited 0 True ?fs freed))" using start loop freed(1) by (simp add: main_def)
  from fresh [of ?fs] obtain w' where w': "start_server e'' bos' ?fs [] = Inr (w', 6379)" "files (globals w') = ?fs"
    "db_rep 0 (db (globals w')) Map.empty" "cfg_dir (globals w') = ''/tmp/redis-data''" "cfg_dbfilename (globals w') = ''dump.rdb''" by blast
  from load_written [OF db w'(3) cap] obtain bs' d where
    "rdb_file (db (globals w)) = Inr bs'"
    "\<forall>fs dir filename. fs (rdb_path dir filename) = Some bs' \<longrightarrow>
       rdb_load_data_from_file fs (db (globals w')) dir filename = Inr (if card (list_keys m) \<le> 1 then 0 else 1, d)"
    "db_rep (0 + card (dom m)) d (Map.empty ++ reloaded m)" .
  with bs w'(2,4,5) have "rdb_load_data_from_file (files (globals w')) (db (globals w')) (cfg_dir (globals w')) (cfg_dbfilename (globals w')) =
      Inr (if card (list_keys m) \<le> 1 then 0 else 1, d)" "db_rep (card (dom m)) d (reloaded m)" by simp_all
  with run freed(2,3) w'(1,3) show ?thesis by blast
qed

theorem restart_forgets_witness:
  "\<exists>fs freed w'. main sample_env sample_env sample_boot_os (\<lambda>_. None) []
       [(Some [(sample_env, New_Connection 7 sample_client_os)], False),
        (Some [(sample_env, Client_Event 7 EPOLLIN [Received (encode_request [''SET'', ''k'', ''v''])] [Sent 100] [] [])], True)] =
       Some (Inr (Exited 0 True fs freed)) \<and> count_list freed (Db_Memory (Key_Block ''k'')) = 1 \<and>
     start_server sample_env sample_boot_os fs [] = Inr (w', 6379) \<and> db_rep 0 (db (globals w')) Map.empty"
proof -
  let ?reqs = "[[''SET'', ''k'', ''v'']]" and ?rs = "[Simple_Reply ''OK'']" and ?m = "[''k'' \<mapsto> (AStr ''v'', 0)]"
  from start_works [OF sample_works(1)] obtain w where w: "start_server sample_env sample_boot_os (\<lambda>_. None) [] = Inr (w, 6379)"
    "role (globals w) = ROLE_MASTER" by blast
  have "rb_works (backlog_os sample_boot_os) REPL_BACKLOG_SIZE" using sample_works(1) by (simp add: boot_works_def)
  note started = start_master [OF w this]
  have spec: "session_spec (now sample_env) (globals w) Map.empty ?reqs = Some (?rs, ?m)"
    by (simp add: cstr_def get_command_type_def command_spec_def set_spec_def no_options_def ERR_SYNTAX_def ERR_VALUE_def)
  have len: "length (encode_request [''SET'', ''k'', ''v'']) = 27" "length (concat (map encode_reply ?rs)) = 5" by code_simp+
  let ?rounds = "[(Some [(sample_env, New_Connection 7 sample_client_os)], False),
    (Some [(sample_env, Client_Event 7 EPOLLIN [Received (encode_request [''SET'', ''k'', ''v''])] [Sent 100] [] [])], True)]"
  obtain w' where w': "event_loop ?rounds w = Some (Inr (True, w'))" "represents (length (concat ?reqs)) (db (globals w')) ?m"
    using first_requests [where n = 20 and reqs = ?reqs and k = 100, OF started sample_works(2) _ _ _ _ _ _ _ _ _ _ _ _ refl _ _ spec,
        of 7 sample_env "[]" "[]" True] len
    by (auto simp: sample_env_def allocates_def request_fits_def store_cap_def sizeof_ring_buffer_struct_def)
  have "rdb_canonical ''k'' = ''k''" "rdb_canonical ''v'' = ''v''" by code_simp+
  then have stor: "storable ?m" by (auto simp: storable_def rdb_plain_def rdb_readable_def length_bytes_ok_def nul_free_def c_limits)
  have os: "mkdir_ok (file_os sample_env)" "fopen_write_ok (file_os sample_env)" by (simp_all add: sample_env_def)
  from w'(2) have "db_rep (length (concat ?reqs)) (db (globals w')) ?m" by (simp add: represents_def)
  from restart_forgets [OF w(1) w'(1) this stor _ os sample_works(1) sample_works(1), of sample_env] show ?thesis
    by fastforce
qed

section \<open>Requests\<close>

text \<open>
  C3 (refinement): a pipeline of requests in the input buffer is parsed to its end, and the replies that
  the abstract session specifies, and nothing else, are appended to the output buffer, while the database
  follows the abstract key space.  The input may stand anywhere in the memory of the buffer.
\<close>

theorem pipeline_answered:
  assumes rep: "represents p (the_db ch) m" "p + length (concat reqs) \<le> store_cap"
    and client: "should_reply (client ch)" "client_type (client ch) \<noteq> CLIENT_TYPE_MASTER"
    and reqs: "\<forall>r \<in> set reqs. request_fits n r" "allocates e n" "n < 2 ^ 31"
    and spec: "session_spec (now e) (srv ch) m reqs = Some (rs, m')"
    and out: "rb_inv (output_buffer (client ch))"
      "length (contents (output_buffer (client ch))) + length (concat (map encode_reply rs)) < capacity (output_buffer (client ch))"
      "length (concat (map encode_reply rs)) < index_budget (output_buffer (client ch))"
    and input: "input = concat (map encode_request reqs)"
  shows "\<exists>ch'. parser_parse (create_handler e) awaiting_snapshot (old @ input @ rest) (length (old @ input))
        (parser_init ch) (length old) = Some (Inr (length (old @ input), parser_init ch')) \<and>
      contents (output_buffer (client ch')) = contents (output_buffer (client ch)) @ concat (map encode_reply rs) \<and>
      represents (p + length (concat reqs)) (the_db ch') m'"
proof -
  have "room ch rs" using out by (simp add: room_def sink_ready_def fits_def)
  moreover have "holds (old @ input @ rest) (length old) (concat (map encode_request reqs))"
    unfolding input [symmetric] by (rule holds_middle)
  moreover have "length (old @ input) = length old + length (concat (map encode_request reqs))" using input by simp
  ultimately show ?thesis
    by (rule parse_pipeline [OF rep client reqs spec]) (auto simp: appends_def)
qed

theorem pipeline_answered_witness:
  "\<exists>ch'. parser_parse (create_handler sample_env) awaiting_snapshot
       (concat (map encode_request [[''SET'', ''k'', ''1''], [''INCR'', ''k''], [''GET'', ''k'']]))
       (length (concat (map encode_request [[''SET'', ''k'', ''1''], [''INCR'', ''k''], [''GET'', ''k'']])))
       (parser_init sample_handler) 0 =
     Some (Inr (length (concat (map encode_request [[''SET'', ''k'', ''1''], [''INCR'', ''k''], [''GET'', ''k'']])),
       parser_init ch')) \<and>
     contents (output_buffer (client ch')) = ''+OK'' @ crlf @ '':2'' @ crlf @ ''$1'' @ crlf @ ''2'' @ crlf"
proof -
  let ?reqs = "[[''SET'', ''k'', ''1''], [''INCR'', ''k''], [''GET'', ''k'']]"
  let ?rs = "[Simple_Reply ''OK'', Integer_Reply 2, Bulk_Reply ''2'']"
  have num: "parse_integer ''1'' 0 = (0, 1)" "show_int 2 = ''2''" by code_simp+
  have spec: "session_spec (now sample_env) (srv sample_handler) Map.empty ?reqs = Some (?rs, [''k'' \<mapsto> (AStr ''2'', 0)])"
    by (simp add: cstr_def get_command_type_def command_spec_def set_spec_def incr_spec_def get_spec_def no_options_def
        purge_def expired_def num ERR_SYNTAX_def ERR_VALUE_def c_limits int_of_long_def)
  have enc: "concat (map encode_reply ?rs) = ''+OK'' @ crlf @ '':2'' @ crlf @ ''$1'' @ crlf @ ''2'' @ crlf" by code_simp
  show ?thesis
    using pipeline_answered [OF sample_represents _ _ _ _ _ _ spec, of 20 "concat (map encode_request ?reqs)" "[]" "[]", unfolded enc]
    by (auto simp: sample_buffer_facts request_fits_def store_cap_def)
qed

text \<open>
  C4 (functional): a round of input from the socket to the socket.  The requests that one \<^verbatim>\<open>read\<close>
  delivers are executed, their replies are handed to the kernel after what waited in the output buffer,
  both buffers of the client are empty again, and every replica has the bytes of the requests
  appended to its output exactly when the last of them is a \<open>SET\<close>.  In that case they are together not
  longer than the 40 bytes that the copy to the backlog can read (C11).
\<close>

theorem client_served:
  assumes serve: "can_serve e w i ch p m reqs rs"
    and spread: "is_set_request (last reqs) \<Longrightarrow> can_propagate e w i bs \<and> length bs \<le> sizeof_ring_buffer_struct" and reqs: "reqs \<noteq> []"
    and spec: "session_spec (now e) (globals w) m reqs = Some (rs, m')"
    and bs: "bs = concat (map encode_request reqs)"
    and inb: "rb_inv (input_buffer (client ch))" "contents (input_buffer (client ch)) = []"
      "length bs < capacity (input_buffer (client ch))" "length bs \<le> index_budget (input_buffer (client ch))"
    and k: "length (contents (output_buffer (client ch))) + length (concat (map encode_reply rs)) \<le> k"
  shows "\<exists>w' ch'. process_loop e i [Received bs] (Sent k # ws) w = Some (Inr w') \<and>
    conns w' i = Some (parser_init ch') \<and> contents (input_buffer (client ch')) = [] \<and>
    contents (output_buffer (client ch')) = [] \<and>
    wire w' i = wire w i @ contents (output_buffer (client ch)) @ concat (map encode_reply rs) \<and>
    represents (p + length (concat reqs)) (db (globals w')) m' \<and>
    (\<forall>r \<in> set (replicas (globals w)). if is_set_request (last reqs) then fed w bs w' r else conns w' r = conns w r)"
  using assms by (rule process_ok)

theorem client_served_witness:
  "\<exists>w' p. process_loop sample_env 7 [Received (encode_request [''SET'', ''k'', ''v''])] [Sent 100] sample_world = Some (Inr w') \<and>
     wire w' 7 = ''+OK'' @ crlf \<and> conns w' 8 = Some p \<and>
     contents (output_buffer (client (command_handler p))) = encode_request [''SET'', ''k'', ''v'']"
proof -
  let ?reqs = "[[''SET'', ''k'', ''v'']]" and ?rs = "[Simple_Reply ''OK'']"
  have spec: "session_spec (now sample_env) (globals sample_world) Map.empty ?reqs = Some (?rs, [''k'' \<mapsto> (AStr ''v'', 0)])"
    by (simp add: cstr_def get_command_type_def command_spec_def set_spec_def no_options_def sample_world_def
        ERR_SYNTAX_def ERR_VALUE_def)
  have enc: "concat (map encode_reply ?rs) = ''+OK'' @ crlf" by code_simp
  have len: "length (encode_request [''SET'', ''k'', ''v'']) = 27" by code_simp
  have serve: "can_serve sample_env sample_world 7 sample_handler 0 Map.empty ?reqs ?rs"
    using sample_represents
    by (auto simp: can_serve_def sample_world_def sink_ready_def fits_def sample_buffer_facts enc store_cap_def request_fits_def
        intro!: exI [of _ 10])
  have spread: "can_propagate sample_env sample_world 7 (encode_request [''SET'', ''k'', ''v'']) \<and>
      length (encode_request [''SET'', ''k'', ''v'']) \<le> sizeof_ring_buffer_struct"
    using sample_propagates [of "encode_request [''SET'', ''k'', ''v'']"] len by (simp add: sizeof_ring_buffer_struct_def)
  have "\<exists>w' ch'. process_loop sample_env 7 [Received (encode_request [''SET'', ''k'', ''v''])] [Sent 100] sample_world = Some (Inr w') \<and>
    conns w' 7 = Some (parser_init ch') \<and> contents (input_buffer (client ch')) = [] \<and>
    contents (output_buffer (client ch')) = [] \<and>
    wire w' 7 = wire sample_world 7 @ contents (output_buffer (client sample_handler)) @ concat (map encode_reply ?rs) \<and>
    represents (0 + length (concat ?reqs)) (db (globals w')) [''k'' \<mapsto> (AStr ''v'', 0)] \<and>
    (\<forall>r \<in> set (replicas (globals sample_world)).
      if is_set_request (last ?reqs) then fed sample_world (encode_request [''SET'', ''k'', ''v'']) w' r
      else conns w' r = conns sample_world r)"
    by (rule client_served [OF serve spread _ spec]; (unfold enc)?;
        simp add: sample_client_def sample_buffer_facts len del: length_contents)
  then obtain w' where w': "process_loop sample_env 7 [Received (encode_request [''SET'', ''k'', ''v''])] [Sent 100] sample_world = Some (Inr w')"
    "wire w' 7 = ''+OK'' @ crlf" "fed sample_world (encode_request [''SET'', ''k'', ''v'']) w' 8"
    unfolding enc by (auto simp: sample_world_def is_set_request_def get_command_type_def cstr_def sample_buffer_facts)
  then show ?thesis by (auto simp: fed_def appends_def sample_world_def parser_init_def sample_buffer_facts)
qed

end
